(* ===== verification/Apfsds_Prelude.thy ===== *)
theory Apfsds_Prelude
  imports Main "HOL-Library.Word" "HOL-Library.AList"
begin

unbundle bit_operations_syntax

text \<open>
  Shared vocabulary of the development: the machine integers and byte strings of the Rust
  sources, \<^verbatim>\<open>Result\<close>, the little- and big-endian byte layouts of the standard library, the
  wrapping and saturating arithmetic of a release build, and the finite maps
  (\<^verbatim>\<open>DashMap\<close>, \<^verbatim>\<open>HashMap\<close>) every stateful component keeps.
  The interface of the maps is the locale \<open>kv_map\<close>; its interpretation \<open>dm\<close> on association
  lists carries the proofs of the components that store something.
\<close>

section \<open>Machine types\<close>

type_synonym u8 = "8 word"
type_synonym u16 = "16 word"
type_synonym u32 = "32 word"
type_synonym u64 = "64 word"
type_synonym bytes = "u8 list"

datatype ('a, 'e) result = Ok 'a | Err 'e

primrec is_ok :: "('a, 'e) result \<Rightarrow> bool" where
  "is_ok (Ok _) = True"
| "is_ok (Err _) = False"

primrec result_ok :: "('a, 'e) result \<Rightarrow> 'a option" where
  "result_ok (Ok x) = Some x"
| "result_ok (Err _) = None"

text \<open>The bytes of an ASCII string literal.\<close>

definition ascii :: "string \<Rightarrow> bytes" where
  "ascii s = map of_char s"

section \<open>Byte layouts\<close>

text \<open>\<open>le_bytes n v\<close> is the \<open>n\<close>-byte little-endian layout of \<open>v\<close> (\<^verbatim>\<open>to_le_bytes\<close>),
  \<open>le_nat\<close> reads one back (\<^verbatim>\<open>from_le_bytes\<close>).\<close>

primrec le_bytes :: "nat \<Rightarrow> nat \<Rightarrow> bytes" where
  "le_bytes 0 v = []"
| "le_bytes (Suc n) v = word_of_nat (v mod 256) # le_bytes n (v div 256)"

primrec le_nat :: "bytes \<Rightarrow> nat" where
  "le_nat [] = 0"
| "le_nat (b # bs) = unat b + 256 * le_nat bs"

definition u32_to_le :: "u32 \<Rightarrow> bytes" where
  "u32_to_le w = le_bytes 4 (unat w)"

definition u32_from_le :: "bytes \<Rightarrow> u32" where
  "u32_from_le bs = word_of_nat (le_nat bs)"

definition u64_to_le :: "u64 \<Rightarrow> bytes" where
  "u64_to_le w = le_bytes 8 (unat w)"

definition u64_from_le :: "bytes \<Rightarrow> u64" where
  "u64_from_le bs = word_of_nat (le_nat bs)"

definition u32_to_be :: "u32 \<Rightarrow> bytes" where
  "u32_to_be w = rev (u32_to_le w)"

definition u32_from_be :: "bytes \<Rightarrow> u32" where
  "u32_from_be bs = u32_from_le (rev bs)"

definition u64_to_be :: "u64 \<Rightarrow> bytes" where
  "u64_to_be w = rev (u64_to_le w)"

definition u64_from_be :: "bytes \<Rightarrow> u64" where
  "u64_from_be bs = u64_from_le (rev bs)"

section \<open>Arithmetic of a release build\<close>

text \<open>\<^verbatim>\<open>i64\<close> values are \<open>64 word\<close>s read by \<open>sint\<close>; \<open>i64_abs\<close> is \<^verbatim>\<open>i64::abs\<close> with
  overflow checks off, so the least value is its own absolute value.\<close>

definition i64_abs :: "u64 \<Rightarrow> u64" where
  "i64_abs d = (if sint d < 0 then - d else d)"

definition i64_gt :: "u64 \<Rightarrow> int \<Rightarrow> bool" where
  "i64_gt d k \<longleftrightarrow> k < sint d"

definition saturating_sub :: "u64 \<Rightarrow> u64 \<Rightarrow> u64" where
  "saturating_sub a b = (if a < b then 0 else a - b)"

section \<open>Finite maps\<close>

text \<open>A \<^verbatim>\<open>DashMap\<close> or \<^verbatim>\<open>HashMap\<close> is an association list with distinct keys: iteration
  visits every entry once, in an order the code may not rely on.\<close>

type_synonym ('k, 'v) dmap = "('k \<times> 'v) list"

definition dempty :: "('k, 'v) dmap" where
  "dempty = []"

definition dget :: "('k, 'v) dmap \<Rightarrow> 'k \<Rightarrow> 'v option" where
  "dget m k = map_of m k"

definition dinsert :: "'k \<Rightarrow> 'v \<Rightarrow> ('k, 'v) dmap \<Rightarrow> ('k, 'v) dmap" where
  "dinsert k v m = AList.update k v m"

definition dremove :: "'k \<Rightarrow> ('k, 'v) dmap \<Rightarrow> ('k, 'v) dmap" where
  "dremove k m = AList.delete k m"

definition dretain :: "('k \<Rightarrow> 'v \<Rightarrow> bool) \<Rightarrow> ('k, 'v) dmap \<Rightarrow> ('k, 'v) dmap" where
  "dretain P m = filter (\<lambda>(k, v). P k v) m"

definition dlen :: "('k, 'v) dmap \<Rightarrow> nat" where
  "dlen m = length m"

definition dwf :: "('k, 'v) dmap \<Rightarrow> bool" where
  "dwf m \<longleftrightarrow> distinct (map fst m)"

locale kv_map =
  fixes empty :: "'m"
    and get :: "'m \<Rightarrow> 'k \<Rightarrow> 'v option"
    and insert :: "'k \<Rightarrow> 'v \<Rightarrow> 'm \<Rightarrow> 'm"
    and remove :: "'k \<Rightarrow> 'm \<Rightarrow> 'm"
    and retain :: "('k \<Rightarrow> 'v \<Rightarrow> bool) \<Rightarrow> 'm \<Rightarrow> 'm"
    and len :: "'m \<Rightarrow> nat"
    and wf :: "'m \<Rightarrow> bool"
  assumes get_empty: "get empty k = None"
    and get_insert: "wf m \<Longrightarrow> get (insert k v m) k' = (if k' = k then Some v else get m k')"
    and get_remove: "wf m \<Longrightarrow> get (remove k m) k' = (if k' = k then None else get m k')"
    and get_retain: "wf m \<Longrightarrow> get (retain P m) k = (case get m k of None \<Rightarrow> None | Some v \<Rightarrow> if P k v then Some v else None)"
    and len_card: "wf m \<Longrightarrow> len m = card (dom (get m))"
    and fin: "wf m \<Longrightarrow> finite (dom (get m))"
    and wf_empty: "wf empty"
    and wf_insert: "wf m \<Longrightarrow> wf (insert k v m)"
    and wf_remove: "wf m \<Longrightarrow> wf (remove k m)"
    and wf_retain: "wf m \<Longrightarrow> wf (retain P m)"
begin

lemma get_insert_same: "wf m \<Longrightarrow> get (insert k v m) k = Some v"
  by (simp add: get_insert)

lemma get_insert_other: "wf m \<Longrightarrow> k' \<noteq> k \<Longrightarrow> get (insert k v m) k' = get m k'"
  by (simp add: get_insert)

lemma dom_insert: "wf m \<Longrightarrow> dom (get (insert k v m)) = Set.insert k (dom (get m))"
  by (auto simp: get_insert dom_def)

lemma dom_remove: "wf m \<Longrightarrow> dom (get (remove k m)) = dom (get m) - {k}"
  by (auto simp: get_remove dom_def)

lemma dom_retain: "wf m \<Longrightarrow> dom (get (retain P m)) \<subseteq> dom (get m)"
  by (auto simp: get_retain dom_def split: option.splits)

lemma len_empty: "len empty = 0"
  by (simp add: len_card wf_empty get_empty dom_def)

lemma len_insert: "wf m \<Longrightarrow> len (insert k v m) = (if get m k = None then Suc (len m) else len m)"
  by (auto simp: len_card wf_insert fin dom_insert card_insert_if domIff)

lemma len_remove: "wf m \<Longrightarrow> len (remove k m) = (if get m k = None then len m else len m - 1)"
  by (auto simp: len_card wf_remove fin dom_remove card_Diff_singleton_if domIff)

lemma len_retain_le: "wf m \<Longrightarrow> len (retain P m) \<le> len m"
  by (simp add: len_card wf_retain fin dom_retain card_mono)

end

section \<open>Lemmas on byte layouts\<close>

named_theorems layout_simps \<open>lengths and round trips of the byte layouts\<close>

lemma length_le_bytes [simp]: "length (le_bytes n v) = n"
  by (induction n arbitrary: v) auto

lemma unat_byte_mod [simp]: "unat (word_of_nat (v mod 256) :: u8) = v mod 256"
  by (simp add: unat_of_nat)

lemma le_nat_le_bytes: "v < 256 ^ n \<Longrightarrow> le_nat (le_bytes n v) = v"
proof (induction n arbitrary: v)
  case 0
  then show ?case by simp
next
  case (Suc n)
  then have "v div 256 < 256 ^ n"
    by (simp add: less_mult_imp_div_less mult.commute)
  with Suc.IH show ?case by simp
qed

lemma le_nat_bound: "le_nat bs < 256 ^ length bs"
proof (induction bs)
  case Nil
  then show ?case by simp
next
  case (Cons b bs)
  have "unat b < 256"
    using unsigned_less [of b] by simp
  with Cons show ?case by simp
qed

lemma le_bytes_le_nat: "length bs = n \<Longrightarrow> le_bytes n (le_nat bs) = bs"
proof (induction bs arbitrary: n)
  case Nil
  then show ?case by simp
next
  case (Cons b bs)
  have "unat b < 256"
    using unsigned_less [of b] by simp
  with Cons show ?case by auto
qed

lemma u32_le_roundtrip [simp]: "u32_from_le (u32_to_le w) = w"
proof -
  have "unat w < 256 ^ 4"
    using unsigned_less [of w] by simp
  then show ?thesis
    by (simp add: u32_from_le_def u32_to_le_def le_nat_le_bytes)
qed

lemma u64_le_roundtrip [simp]: "u64_from_le (u64_to_le w) = w"
proof -
  have "unat w < 256 ^ 8"
    using unsigned_less [of w] by simp
  then show ?thesis
    by (simp add: u64_from_le_def u64_to_le_def le_nat_le_bytes)
qed

lemma length_u32_to_le [simp, layout_simps]: "length (u32_to_le w) = 4"
  by (simp add: u32_to_le_def)

lemma length_u64_to_le [simp, layout_simps]: "length (u64_to_le w) = 8"
  by (simp add: u64_to_le_def)

lemma length_u32_to_be [simp, layout_simps]: "length (u32_to_be w) = 4"
  by (simp add: u32_to_be_def)

lemma length_u64_to_be [simp, layout_simps]: "length (u64_to_be w) = 8"
  by (simp add: u64_to_be_def)

lemma u32_be_roundtrip [simp, layout_simps]: "u32_from_be (u32_to_be w) = w"
  by (simp add: u32_from_be_def u32_to_be_def)

lemma u64_be_roundtrip [simp, layout_simps]: "u64_from_be (u64_to_be w) = w"
  by (simp add: u64_from_be_def u64_to_be_def)

lemma unat_u32_from_le: "length bs = 4 \<Longrightarrow> unat (u32_from_le bs) = le_nat bs"
  using le_nat_bound [of bs] by (simp add: u32_from_le_def unat_of_nat)

lemma u64_to_le_inject [simp]: "u64_to_le a = u64_to_le b \<longleftrightarrow> a = b"
  by (metis u64_le_roundtrip)

lemma u32_to_le_inject [simp]: "u32_to_le a = u32_to_le b \<longleftrightarrow> a = b"
  by (metis u32_le_roundtrip)

section \<open>Lemmas on signed arithmetic\<close>

lemma u64_bound: "unat (w :: u64) < 2 ^ 64"
  using unsigned_less [of w] by simp

lemma sint64_bounds: "- (2 ^ 63) \<le> sint (d :: u64)" "sint (d :: u64) < 2 ^ 63"
  using sint_ge [of d] sint_lt [of d] by simp_all

lemma sint64_min: "sint (d :: u64) = - (2 ^ 63) \<longleftrightarrow> d = 2 ^ 63"
proof -
  have "sint (2 ^ 63 :: u64) = - (2 ^ 63)" by simp
  then show ?thesis by (metis signed_word_eqI)
qed

lemma sint64_uminus: "(d :: u64) \<noteq> 2 ^ 63 \<Longrightarrow> sint (- d) = - sint d"
proof -
  assume "d \<noteq> 2 ^ 63"
  then have "sint d \<noteq> - (2 ^ 63)" by (simp only: sint64_min not_False_eq_True)
  then have "- (2 ^ 63) \<le> - sint d" "- sint d < 2 ^ 63"
    using sint64_bounds [of d] by linarith+
  then have "signed_take_bit 63 (- sint d) = - sint d"
    by (simp add: signed_take_bit_int_eq_self)
  then show ?thesis
    by (simp add: sint_word_ariths)
qed

lemma i64_abs_sint: "sint (i64_abs d) = (if d = 2 ^ 63 then - (2 ^ 63) else \<bar>sint d\<bar>)"
proof (cases "d = 2 ^ 63")
  case True
  then show ?thesis by (simp add: i64_abs_def)
next
  case False
  then show ?thesis by (simp add: i64_abs_def sint64_uminus)
qed

text \<open>Differences of readings of a real clock (below \<open>2 ^ 63\<close>) do not overflow \<^verbatim>\<open>i64\<close>.\<close>

lemma sint_diff_small:
  assumes "unat (a :: u64) < 2 ^ 63" "unat b < 2 ^ 63"
  shows "sint (a - b) = int (unat a) - int (unat b)"
proof -
  have "int (unat a) < 2 ^ 63" "int (unat b) < 2 ^ 63"
    using assms by (metis of_nat_less_iff of_nat_numeral of_nat_power)+
  then have self: "signed_take_bit 63 (int (unat a) - int (unat b)) = int (unat a) - int (unat b)"
    by (intro signed_take_bit_int_eq_self) linarith+
  have "sint (a - b) = sint (word_of_int (int (unat a) - int (unat b)) :: u64)"
    by simp
  also have "\<dots> = signed_take_bit 63 (int (unat a) - int (unat b))"
    by (simp only: sint_sbintrunc') simp
  finally show ?thesis by (simp only: self)
qed

lemma diff_small_neq_min:
  assumes "unat (a :: u64) < 2 ^ 63" "unat b < 2 ^ 63"
  shows "a - b \<noteq> 2 ^ 63"
proof
  assume "a - b = 2 ^ 63"
  then have "sint (a - b) = - (2 ^ 63)"
    by (simp only: sint64_min)
  then have "int (unat a) - int (unat b) = - (2 ^ 63)"
    by (simp only: sint_diff_small [OF assms])
  moreover have "int (unat b) < 2 ^ 63"
    using assms(2) by (metis of_nat_less_iff of_nat_numeral of_nat_power)
  ultimately show False by linarith
qed

lemma sint_diff_cong:
  obtains k where "int (unat (a :: u64)) - int (unat b) = sint (a - b) + 18446744073709551616 * k"
proof -
  have "word_of_int (int (unat a) - int (unat b)) = (word_of_int (sint (a - b)) :: u64)"
    by (simp add: word_of_int_minus)
  then have "(int (unat a) - int (unat b)) mod 2 ^ 64 = sint (a - b) mod 2 ^ 64"
    by (simp only: word_of_int_eq_iff take_bit_eq_mod) simp
  then have "2 ^ 64 dvd int (unat a) - int (unat b) - sint (a - b)"
    by (simp only: mod_eq_dvd_iff)
  then obtain k where "int (unat a) - int (unat b) - sint (a - b) = 2 ^ 64 * k" ..
  then show thesis by (intro that [of k]) simp
qed

lemma sint64_range: "- 9223372036854775808 \<le> sint (d :: u64)" "sint d < 9223372036854775808"
  using sint_greater_eq [of d] sint_less [of d] by simp_all

lemma int_unat_less: "unat (a :: u64) < n \<Longrightarrow> int (unat a) < int n"
  by (simp only: of_nat_less_iff)

lemma unat64_bounds: "int (unat (a :: u64)) < 18446744073709551616"
proof -
  have "unat a < 18446744073709551616" using unsigned_less [of a, where ?'a = nat] by simp
  from int_unat_less [OF this] show ?thesis by (simp only: of_nat_numeral)
qed

text \<open>The window of 30 seconds around a reading of the clock, on readings at 64 bits: the other value may be any.\<close>

lemma sint_window_iff:
  assumes "30000 \<le> unat (now :: u64)" "unat now < 2 ^ 63"
  shows "\<bar>sint (now - t)\<bar> \<le> 30000 \<longleftrightarrow> \<bar>int (unat now) - int (unat t)\<bar> \<le> 30000"
proof -
  obtain k where k: "int (unat now) - int (unat t) = sint (now - t) + 18446744073709551616 * k" by (rule sint_diff_cong)
  have "unat now < 9223372036854775808" using assms(2) by simp
  from int_unat_less [OF this] have b: "int (unat now) < 9223372036854775808" by (simp only: of_nat_numeral)
  have c: "30000 \<le> int (unat now)" "0 \<le> int (unat t)" using assms(1) by linarith+
  note * = k b c sint64_range [of "now - t"] unat64_bounds [of t]
  have "k = 0" if "\<bar>sint (now - t)\<bar> \<le> 30000 \<or> \<bar>int (unat now) - int (unat t)\<bar> \<le> 30000"
  proof -
    have "-1 < k" using that * by linarith
    moreover have "k < 1" using that * by linarith
    ultimately show ?thesis by simp
  qed
  with k show ?thesis by auto
qed

lemma window_clocks_close:
  assumes "unat (now :: u64) < 2 ^ 62" "unat now' < 2 ^ 62"
    "\<bar>sint (now - t)\<bar> \<le> 30000 \<or> now - t = 2 ^ 63" "\<bar>sint (now' - t)\<bar> \<le> 30000 \<or> now' - t = 2 ^ 63"
  shows "int (unat now') - int (unat now) \<le> 60000"
proof -
  obtain k where k: "int (unat now) - int (unat t) = sint (now - t) + 18446744073709551616 * k" by (rule sint_diff_cong)
  obtain l where l: "int (unat now') - int (unat t) = sint (now' - t) + 18446744073709551616 * l" by (rule sint_diff_cong)
  have s: "sint (d :: u64) = - 9223372036854775808" if "d = 2 ^ 63" for d using that sint64_min by simp
  have "unat now < 4611686018427387904" "unat now' < 4611686018427387904" using assms(1,2) by simp_all
  from this [THEN int_unat_less] have b: "int (unat now) < 4611686018427387904" "int (unat now') < 4611686018427387904"
    by (simp_all only: of_nat_numeral)
  have w: "\<bar>sint (now - t)\<bar> \<le> 30000 \<or> sint (now - t) = - 9223372036854775808"
    "\<bar>sint (now' - t)\<bar> \<le> 30000 \<or> sint (now' - t) = - 9223372036854775808"
    using assms(3,4) s by blast+
  have d: "int (unat now') - int (unat now) = sint (now' - t) - sint (now - t) + 18446744073709551616 * (l - k)"
    using k l by simp
  have p: "0 \<le> int (unat now)" "0 \<le> int (unat now')" by (rule of_nat_0_le_iff)+
  define m where "m = l - k"
  have "-1 < m" using w b d [folded m_def] p by (elim disjE) linarith+
  moreover have "m < 1" using w b d [folded m_def] p by (elim disjE) linarith+
  ultimately have "m = 0" by linarith
  then have "int (unat now') - int (unat now) = sint (now' - t) - sint (now - t)" using d [folded m_def] by simp
  with w b p show ?thesis by (elim disjE) linarith+
qed

section \<open>Lemmas on finite maps\<close>

lemma dwf_dinsert [simp, intro]: "dwf m \<Longrightarrow> dwf (dinsert k v m)"
  by (simp add: dwf_def dinsert_def distinct_update)

lemma dwf_dremove [simp, intro]: "dwf m \<Longrightarrow> dwf (dremove k m)"
  by (simp add: dwf_def dremove_def distinct_delete)

lemma dwf_dretain [simp, intro]: "dwf m \<Longrightarrow> dwf (dretain P m)"
  by (simp add: dwf_def dretain_def distinct_map_filter)

lemma dwf_dempty [simp]: "dwf dempty"
  by (simp add: dwf_def dempty_def)

lemma dget_dempty [simp]: "dget dempty k = None"
  by (simp add: dget_def dempty_def)

lemma dget_dinsert [simp]: "dget (dinsert k v m) k' = (if k' = k then Some v else dget m k')"
  by (simp add: dget_def dinsert_def update_conv')

lemma dget_dremove [simp]: "dget (dremove k m) k' = (if k' = k then None else dget m k')"
  by (simp add: dget_def dremove_def delete_conv')

lemma dget_dretain:
  "dwf m \<Longrightarrow> dget (dretain P m) k =
     (case dget m k of None \<Rightarrow> None | Some v \<Rightarrow> if P k v then Some v else None)"
  by (induction m) (auto simp: dget_def dretain_def dwf_def map_of_eq_None_iff
      split: option.splits)

lemma dget_in_set: "dwf m \<Longrightarrow> (k, v) \<in> set m \<longleftrightarrow> dget m k = Some v"
  by (simp add: dwf_def dget_def)

lemma dom_dget: "dom (dget m) = fst ` set m"
  by (simp add: dget_def [abs_def] dom_map_of_conv_image_fst)

lemma dlen_card: "dwf m \<Longrightarrow> dlen m = card (dom (dget m))"
  by (metis dom_dget distinct_card dlen_def dwf_def length_map list.set_map)

interpretation dm: kv_map dempty dget dinsert dremove dretain dlen dwf
  by unfold_locales (simp_all add: dget_dretain dlen_card, simp add: dom_dget)

lemma dinsert_again: "dinsert k v (dinsert k v' m) = dinsert k v m"
  by (simp add: dinsert_def)

lemma dinsert_same: "dget m k = Some v \<Longrightarrow> dinsert k v m = m"
  by (induction m) (auto simp: dinsert_def dget_def split: if_splits)

lemmas dmap_simps = dget_dempty dget_dinsert dget_dremove dget_dretain
  dm.len_empty dm.len_insert dm.len_remove

lemma map_update_same: "i < length xs \<Longrightarrow> g y = g (xs ! i) \<Longrightarrow> map g (xs[i := y]) = map g xs"
  by (simp add: map_update list_update_same_conv)

lemma length_filter_update:
  "i < length xs \<Longrightarrow>
     length (filter P (xs[i := x])) + (if P (xs ! i) then 1 else 0) = length (filter P xs) + (if P x then 1 else 0)"
proof (induction xs arbitrary: i)
  case (Cons a xs)
  show ?case
  proof (cases i)
    case (Suc j)
    with Cons.IH [of j] Cons.prems show ?thesis by auto
  qed simp
qed simp

section \<open>Transition systems\<close>

text \<open>The states reached from the initial ones, and the interface of an invariant: it holds at the start
  and every step keeps it.\<close>

inductive reach :: "('s \<Rightarrow> bool) \<Rightarrow> ('s \<Rightarrow> 's \<Rightarrow> bool) \<Rightarrow> 's \<Rightarrow> bool" for init step where
  at_start: "init s \<Longrightarrow> reach init step s"
| after_step: "reach init step s \<Longrightarrow> step s t \<Longrightarrow> reach init step t"

locale invariant_system =
  fixes init :: "'s \<Rightarrow> bool"
    and step :: "'s \<Rightarrow> 's \<Rightarrow> bool"
    and inv :: "'s \<Rightarrow> bool"
  assumes init_inv: "init s \<Longrightarrow> inv s"
    and step_inv: "inv s \<Longrightarrow> step s t \<Longrightarrow> inv t"
begin

lemma reach_inv: "reach init step s \<Longrightarrow> inv s"
  by (induction rule: reach.induct) (blast intro: init_inv step_inv)+

lemma steps_inv: "step\<^sup>*\<^sup>* s t \<Longrightarrow> inv s \<Longrightarrow> inv t"
  by (induction rule: rtranclp.induct) (blast intro: step_inv)+

end

lemma reach_start: "reach ((=) s) step s"
  by (simp add: reach.at_start)

lemma reach_steps: "reach init step s \<Longrightarrow> step\<^sup>*\<^sup>* s t \<Longrightarrow> reach init step t"
  by (rotate_tac, induction rule: rtranclp.induct) (blast intro: reach.after_step)+

end
