(* ===== verification/Protocol_Frames.thy ===== *)
theory Protocol_Frames
  imports Apfsds_Prelude
begin

text \<open>
  The wire protocol, \<^verbatim>\<open>crates/protocol\<close>: the frames and packets (\<^verbatim>\<open>frame.rs\<close>), the
  authentication and connection records (\<^verbatim>\<open>auth.rs\<close>) and frame validation
  (\<^verbatim>\<open>validation.rs\<close>). Byte arrays \<^verbatim>\<open>[u8; n]\<close> are byte lists of length \<open>n\<close>; the
  \<open>wf_\<close> predicates state those lengths. The checksum \<^verbatim>\<open>crc32fast::hash\<close> is the parameter
  \<open>crc\<close>; the clock reading and the fresh UUID of a constructor are its last arguments.
\<close>

section \<open>Frames\<close>

record FrameFlags =
  is_control :: bool
  is_compressed :: bool
  is_final :: bool
  needs_ack :: bool
  is_ack :: bool

record ProxyFrame =
  pf_conn_id :: u64
  pf_rip :: bytes
  pf_rport :: u16
  pf_payload :: bytes
  pf_uuid :: bytes
  pf_timestamp :: u64
  pf_checksum :: u32
  pf_flags :: FrameFlags

definition default_flags :: FrameFlags where
  "default_flags = \<lparr>is_control = False, is_compressed = False, is_final = False,
     needs_ack = False, is_ack = False\<rparr>"

definition new_data ::
  "(bytes \<Rightarrow> u32) \<Rightarrow> u64 \<Rightarrow> bytes \<Rightarrow> u16 \<Rightarrow> bytes \<Rightarrow> bytes \<Rightarrow> u64 \<Rightarrow> ProxyFrame" where
  "new_data crc conn_id rip rport payload uuid now =
     \<lparr>pf_conn_id = conn_id, pf_rip = rip, pf_rport = rport, pf_payload = payload,
      pf_uuid = uuid, pf_timestamp = now, pf_checksum = crc payload,
      pf_flags = default_flags\<rparr>"

definition new_control :: "(bytes \<Rightarrow> u32) \<Rightarrow> bytes \<Rightarrow> bytes \<Rightarrow> u64 \<Rightarrow> ProxyFrame" where
  "new_control crc payload uuid now =
     (let frame = new_data crc 0 (replicate 16 0) 0 payload uuid now
      in frame\<lparr>pf_flags := (pf_flags frame)\<lparr>is_control := True\<rparr>\<rparr>)"

definition new_close :: "(bytes \<Rightarrow> u32) \<Rightarrow> u64 \<Rightarrow> bytes \<Rightarrow> u64 \<Rightarrow> ProxyFrame" where
  "new_close crc conn_id uuid now =
     (let frame = new_data crc conn_id (replicate 16 0) 0 [] uuid now
      in frame\<lparr>pf_flags := (pf_flags frame)\<lparr>is_final := True\<rparr>\<rparr>)"

definition verify_checksum :: "(bytes \<Rightarrow> u32) \<Rightarrow> ProxyFrame \<Rightarrow> bool" where
  "verify_checksum crc f \<longleftrightarrow> crc (pf_payload f) = pf_checksum f"

definition ipv4_to_mapped :: "bytes \<Rightarrow> bytes" where
  "ipv4_to_mapped ipv4 = replicate 10 0 @ [0xff, 0xff] @ ipv4"

definition mapped_to_ipv4 :: "bytes \<Rightarrow> bytes option" where
  "mapped_to_ipv4 mapped =
     (if take 10 mapped = replicate 10 0 \<and> mapped ! 10 = 0xff \<and> mapped ! 11 = 0xff
      then Some (take 4 (drop 12 mapped)) else None)"

section \<open>Control messages\<close>

type_synonym i32 = "32 word"

record GroupInfo =
  gi_group_id :: i32
  gi_name :: string
  gi_node_count :: u32
  gi_load :: u8

datatype EmergencyLevel = Warning | Stop | Shutdown

datatype ControlMessage =
    DohQuery bytes
  | DohResponse bytes
  | Ping u64
  | Pong u64
  | KeyRotation bytes u64 u64
  | Emergency EmergencyLevel u64
  | GroupList "GroupInfo list"
  | GroupSelect i32

section \<open>Plain packets\<close>

record PlainPacket =
  pp_magic :: u32
  pp_conn_id :: u64
  pp_handler_id :: u64
  pp_rip :: bytes
  pp_rport :: u16
  pp_payload :: bytes
  pp_checksum :: u32
  pp_is_response :: bool

definition MAGIC :: u32 where
  "MAGIC = 0xDEADBEEF"

definition from_frame :: "ProxyFrame \<Rightarrow> u64 \<Rightarrow> PlainPacket" where
  "from_frame frame handler_id =
     \<lparr>pp_magic = MAGIC, pp_conn_id = pf_conn_id frame, pp_handler_id = handler_id,
      pp_rip = pf_rip frame, pp_rport = pf_rport frame, pp_payload = pf_payload frame,
      pp_checksum = pf_checksum frame, pp_is_response = False\<rparr>"

definition response :: "(bytes \<Rightarrow> u32) \<Rightarrow> u64 \<Rightarrow> u64 \<Rightarrow> bytes \<Rightarrow> PlainPacket" where
  "response crc conn_id handler_id payload =
     \<lparr>pp_magic = MAGIC, pp_conn_id = conn_id, pp_handler_id = handler_id,
      pp_rip = replicate 16 0, pp_rport = 0, pp_payload = payload,
      pp_checksum = crc payload, pp_is_response = True\<rparr>"

definition is_valid :: "(bytes \<Rightarrow> u32) \<Rightarrow> PlainPacket \<Rightarrow> bool" where
  "is_valid crc p \<longleftrightarrow> pp_magic p = MAGIC \<and> crc (pp_payload p) = pp_checksum p"

datatype RaftCommand =
    RaftUpsert u64 u64 bytes "u16 \<times> u16" u32
  | RaftDelete u64
  | RaftCleanup u64
  | RaftNoop

section \<open>Authentication and connection records\<close>

record AuthRequest =
  ar_hmac_base :: bytes
  ar_hmac_signature :: bytes
  ar_client_pk :: bytes
  ar_nonce :: bytes
  ar_timestamp :: u64

record EmergencyWarning =
  ew_level :: string
  ew_action :: string
  ew_trigger_after :: u64

record AuthResponse =
  as_token :: bytes
  as_valid_until :: u64
  as_warning :: "EmergencyWarning option"

record TokenPayload =
  tp_user_id :: u64
  tp_nonce :: bytes
  tp_issued_at :: u64
  tp_valid_until :: u64

record StreamState =
  stream_id :: u32
  bytes_sent :: u64
  bytes_received :: u64
  is_closed :: bool

record ConnMeta =
  client_addr :: bytes
  nat_entry :: "u16 \<times> u16"
  assigned_pod :: u32
  stream_states :: "StreamState list"

record ConnRecord =
  cr_conn_id :: u64
  cr_metadata :: ConnMeta
  cr_created_at :: u64
  cr_last_active :: u64
  cr_access_count :: u32
  cr_txid :: u64

section \<open>Validation\<close>

datatype ValidationError =
    DuplicateUuid
  | ChecksumMismatch u32 u32
  | TimestampOutOfRange u64
  | InvalidConnId
  | PayloadTooLarge nat nat

definition MAX_PAYLOAD_SIZE :: nat where
  "MAX_PAYLOAD_SIZE = 65536"

definition MAX_TIMESTAMP_DRIFT_MS :: int where
  "MAX_TIMESTAMP_DRIFT_MS = 30000"

definition validate_frame ::
  "(bytes \<Rightarrow> u32) \<Rightarrow> ProxyFrame \<Rightarrow> u64 \<Rightarrow> (unit, ValidationError) result" where
  "validate_frame crc frame current_time_ms =
     (if length (pf_payload frame) > MAX_PAYLOAD_SIZE
      then Err (PayloadTooLarge (length (pf_payload frame)) MAX_PAYLOAD_SIZE)
      else let computed = crc (pf_payload frame) in
        if computed \<noteq> pf_checksum frame
        then Err (ChecksumMismatch (pf_checksum frame) computed)
        else let drift = current_time_ms - pf_timestamp frame in
          if i64_gt (i64_abs drift) MAX_TIMESTAMP_DRIFT_MS
          then Err (TimestampOutOfRange drift)
          else Ok ())"

text \<open>\<^verbatim>\<open>ArchivedProxyFrame\<close> is generated by rkyv: an abstract type \<open>'a\<close> with the accessors the
  validation reads, their integers already converted by \<^verbatim>\<open>to_native\<close>.\<close>

record 'a archived_frame =
  af_payload :: "'a \<Rightarrow> bytes"
  af_timestamp :: "'a \<Rightarrow> u64"
  af_checksum :: "'a \<Rightarrow> u32"

definition validate_archived_frame ::
  "(bytes \<Rightarrow> u32) \<Rightarrow> 'a archived_frame \<Rightarrow> 'a \<Rightarrow> u64 \<Rightarrow> (unit, ValidationError) result" where
  "validate_archived_frame crc A frame current_time_ms =
     (if length (af_payload A frame) > MAX_PAYLOAD_SIZE
      then Err (PayloadTooLarge (length (af_payload A frame)) MAX_PAYLOAD_SIZE)
      else let frame_checksum = af_checksum A frame;
               computed = crc (af_payload A frame) in
        if computed \<noteq> frame_checksum
        then Err (ChecksumMismatch frame_checksum computed)
        else let frame_timestamp = af_timestamp A frame;
                 drift = current_time_ms - frame_timestamp in
          if i64_gt (i64_abs drift) MAX_TIMESTAMP_DRIFT_MS
          then Err (TimestampOutOfRange drift)
          else Ok ())"

text \<open>What rkyv documents: the accessors of an archive read the fields of the value archived.\<close>

definition archives :: "'a archived_frame \<Rightarrow> 'a \<Rightarrow> ProxyFrame \<Rightarrow> bool" where
  "archives A a f \<longleftrightarrow> af_payload A a = pf_payload f \<and> af_timestamp A a = pf_timestamp f \<and>
     af_checksum A a = pf_checksum f"

section \<open>Well-formedness\<close>

definition wf_frame :: "ProxyFrame \<Rightarrow> bool" where
  "wf_frame f \<longleftrightarrow> length (pf_rip f) = 16 \<and> length (pf_uuid f) = 16"

definition wf_packet :: "PlainPacket \<Rightarrow> bool" where
  "wf_packet p \<longleftrightarrow> length (pp_rip p) = 16"

lemmas frame_defs = new_data_def new_control_def new_close_def default_flags_def
  wf_frame_def wf_packet_def from_frame_def response_def

section \<open>Constructors\<close>

lemma wf_new_data: "length rip = 16 \<Longrightarrow> length uuid = 16 \<Longrightarrow> wf_frame (new_data crc c rip p d uuid now)"
  by (simp add: frame_defs)

lemma wf_new_control: "length uuid = 16 \<Longrightarrow> wf_frame (new_control crc d uuid now)"
  by (simp add: frame_defs)

lemma wf_from_frame: "wf_frame f \<Longrightarrow> wf_packet (from_frame f h)"
  by (simp add: frame_defs)

lemma new_data_checksum [simp]: "verify_checksum crc (new_data crc c rip p d uuid now)"
  by (simp add: verify_checksum_def frame_defs)

lemma new_control_checksum [simp]: "verify_checksum crc (new_control crc d uuid now)"
  by (simp add: verify_checksum_def frame_defs)

lemma is_valid_from_frame [simp]: "is_valid crc (from_frame f h) \<longleftrightarrow> verify_checksum crc f"
  by (simp add: is_valid_def verify_checksum_def from_frame_def)

lemma is_valid_response [simp]: "is_valid crc (response crc c h d)"
  by (simp add: is_valid_def response_def)

section \<open>Address mapping\<close>

lemma split16:
  assumes "length (m :: bytes) = 16"
  shows "m = take 10 m @ [m ! 10, m ! 11] @ take 4 (drop 12 m)"
proof -
  have "m = take 10 m @ drop 10 m" by simp
  also have "drop 10 m = m ! 10 # m ! 11 # drop 12 m"
    using assms by (simp add: Cons_nth_drop_Suc [symmetric] numeral_eq_Suc)
  finally show ?thesis using assms by simp
qed

section \<open>The timestamp window\<close>

lemma i64_abs_window:
  "\<not> i64_gt (i64_abs d) MAX_TIMESTAMP_DRIFT_MS \<longleftrightarrow> \<bar>sint d\<bar> \<le> 30000 \<or> d = 2 ^ 63"
  by (auto simp: i64_gt_def i64_abs_sint MAX_TIMESTAMP_DRIFT_MS_def)

lemma validate_frame_ok_iff:
  "validate_frame crc f now = Ok () \<longleftrightarrow>
     length (pf_payload f) \<le> 65536 \<and> verify_checksum crc f \<and>
     (\<bar>sint (now - pf_timestamp f)\<bar> \<le> 30000 \<or> now - pf_timestamp f = 2 ^ 63)"
  unfolding i64_abs_window [symmetric]
  by (auto simp: validate_frame_def Let_def verify_checksum_def MAX_PAYLOAD_SIZE_def)

lemma overflow_iff:
  assumes "unat (now :: u64) < 2 ^ 63"
  shows "now - t = 2 ^ 63 \<longleftrightarrow> unat t = unat now + 2 ^ 63"
proof -
  have z: "(2 ^ 63 :: u64) + 2 ^ 63 = 0" by transfer simp
  have "now - t = 2 ^ 63 \<longleftrightarrow> now = 2 ^ 63 + t" by (rule diff_eq_eq)
  also have "\<dots> \<longleftrightarrow> 2 ^ 63 + now = 2 ^ 63 + (2 ^ 63 + t)" by (rule add_left_cancel [symmetric])
  also have "2 ^ 63 + (2 ^ 63 + t) = t" by (simp only: add.assoc [symmetric] z add_0_left)
  also have "2 ^ 63 + now = t \<longleftrightarrow> t = now + 2 ^ 63" by (metis add.commute)
  also have "\<dots> \<longleftrightarrow> unat t = unat (now + 2 ^ 63)" by (simp only: word_eq_iff_unsigned [where ?'a = nat])
  also have "unat (now + 2 ^ 63) = unat now + 2 ^ 63"
    using assms by (subst unat_add_lem [THEN iffD1]) simp_all
  finally show ?thesis .
qed

section \<open>Properties\<close>

text \<open>C23. What validation accepts, for every frame and every reading of the clock from 30 seconds after 1970 on, below 2 to the 63: exactly
  the frames whose payload is at most 64 KiB, whose checksum matches and whose timestamp, which is the sender's, is within 30
  seconds of the receiver's clock, in the past or in the future, or is exactly 2 to the 63 milliseconds ahead of it: there the
  subtraction gives the least value of 64 bits, whose absolute value is negative.\<close>

theorem validate_frame_window:
  assumes "30000 \<le> unat now" and "unat now < 2 ^ 63"
  shows "validate_frame crc f now = Ok () \<longleftrightarrow>
    length (pf_payload f) \<le> 65536 \<and> crc (pf_payload f) = pf_checksum f \<and>
    (\<bar>int (unat now) - int (unat (pf_timestamp f))\<bar> \<le> 30000 \<or> unat (pf_timestamp f) = unat now + 2 ^ 63)"
  unfolding validate_frame_ok_iff sint_window_iff [OF assms] overflow_iff [OF assms(2)] verify_checksum_def by (rule refl)

theorem validate_frame_window_witness:
  "validate_frame (\<lambda>_. 7) (new_data (\<lambda>_. 7) 1 (replicate 16 0) 443 [1, 2, 3] [] 50000) 80000 = Ok ()"
  using validate_frame_window [of 80000 "\<lambda>_. 7" "new_data (\<lambda>_. 7) 1 (replicate 16 0) 443 [1, 2, 3] [] 50000"]
  by (simp add: new_data_def)

text \<open>The absolute value overflows: a frame stamped exactly \<open>2 ^ 63\<close> milliseconds away from the
  receiver's clock passes the timestamp check of a release build, although it is 292 million
  years off; it is the only timestamp outside the window that passes.\<close>

theorem validate_frame_accepts_overflow:
  "length (pf_payload f) \<le> 65536 \<and> crc (pf_payload f) = pf_checksum f \<and>
     pf_timestamp f = now + 2 ^ 63 \<Longrightarrow> validate_frame crc f now = Ok ()"
  by (simp add: validate_frame_ok_iff verify_checksum_def)

text \<open>Validating the zero-copy view of a serialised frame gives the same verdict, error
  included, as validating the frame.\<close>

theorem validate_archived_agrees:
  "archives A a f \<Longrightarrow> validate_archived_frame crc A a now = validate_frame crc f now"
  by (simp add: validate_archived_frame_def validate_frame_def archives_def Let_def)

text \<open>The mapping of IPv4 addresses into IPv6 is inverted by its extraction, and extraction
  succeeds on exactly the mapped addresses.\<close>

theorem mapped_to_ipv4_iff:
  assumes "length mapped = 16"
  shows "mapped_to_ipv4 mapped = Some ipv4 \<longleftrightarrow> length ipv4 = 4 \<and> mapped = ipv4_to_mapped ipv4"
proof
  assume "mapped_to_ipv4 mapped = Some ipv4"
  then show "length ipv4 = 4 \<and> mapped = ipv4_to_mapped ipv4"
    using split16 [OF assms] assms
    by (auto simp: mapped_to_ipv4_def ipv4_to_mapped_def split: if_splits)
next
  assume "length ipv4 = 4 \<and> mapped = ipv4_to_mapped ipv4"
  then show "mapped_to_ipv4 mapped = Some ipv4"
    by (simp add: mapped_to_ipv4_def ipv4_to_mapped_def nth_append)
qed

end
