(* ===== verification/Storage_Engine.thy ===== *)
theory Storage_Engine
  imports Protocol_Frames
begin

text \<open>
  The connection store, \<^verbatim>\<open>crates/storage/src\<close>: append-only segments (\<^verbatim>\<open>segment.rs\<close>), the index
  (\<^verbatim>\<open>blink_tree.rs\<close>) and the engine (\<^verbatim>\<open>engine.rs\<close>). rkyv is the parameter \<open>rkyv_ext\<close>. The process-wide
  counter \<^verbatim>\<open>SEGMENT_ID_COUNTER\<close> is part of the engine's state, as the 64-bit word it is.
  The contract of the store is the locale \<open>conn_store\<close>, a partial map from connection ids to
  records; the interpretation \<open>engine_store\<close> shows that the engine refines it. Its invariant is
  indexed by the number of segments that can still be created before the counter wraps around.
\<close>

section \<open>Segments\<close>

record rkyv_ext =
  rk_to_bytes :: "ConnRecord \<Rightarrow> bytes option"
  rk_access :: "bytes \<Rightarrow> ConnRecord option"

definition rkyv_ok :: "rkyv_ext \<Rightarrow> bool" where
  "rkyv_ok K \<longleftrightarrow> (\<forall>r b. rk_to_bytes K r = Some b \<longrightarrow> b \<noteq> [] \<and> rk_access K b = Some r)"

record Segment =
  sg_id :: u64
  sg_data :: bytes
  sg_offsets :: "nat list"
  sg_is_sealed :: bool
  sg_size_limit :: nat

definition seg_with_size_limit :: "nat \<Rightarrow> u64 \<Rightarrow> Segment \<times> u64" where
  "seg_with_size_limit size_limit counter =
     (\<lparr>sg_id = counter, sg_data = [], sg_offsets = [], sg_is_sealed = False, sg_size_limit = size_limit\<rparr>,
      counter + 1)"

definition seg_new :: "u64 \<Rightarrow> Segment \<times> u64" where
  "seg_new = seg_with_size_limit (10 * 1024 * 1024)"

definition seg_append :: "rkyv_ext \<Rightarrow> Segment \<Rightarrow> ConnRecord \<Rightarrow> nat option \<times> Segment" where
  "seg_append K s record =
     (if sg_is_sealed s then (None, s)
      else case rk_to_bytes K record of
          None \<Rightarrow> (None, s)
        | Some bytes \<Rightarrow>
            if length (sg_data s) + length bytes > sg_size_limit s then (None, s)
            else let off = length (sg_data s) in
              (Some off, s\<lparr>sg_data := sg_data s @ bytes, sg_offsets := sg_offsets s @ [off]\<rparr>))"

definition seg_read_at :: "rkyv_ext \<Rightarrow> Segment \<Rightarrow> nat \<Rightarrow> ConnRecord option" where
  "seg_read_at K s off =
     (if off \<ge> length (sg_data s) then None
      else let end_off = (case List.find (\<lambda>o'. o' > off) (sg_offsets s) of
                            Some o' \<Rightarrow> o' | None \<Rightarrow> length (sg_data s));
               bytes = take (end_off - off) (drop off (sg_data s)) in
        rk_access K bytes)"

definition seg_size :: "Segment \<Rightarrow> nat" where
  "seg_size s = length (sg_data s)"

definition seg_record_count :: "Segment \<Rightarrow> nat" where
  "seg_record_count s = length (sg_offsets s)"

definition seg_seal :: "Segment \<Rightarrow> Segment" where
  "seg_seal s = s\<lparr>sg_is_sealed := True\<rparr>"

record SegmentPtr =
  sp_segment_id :: u64
  sp_offset :: nat

section \<open>Index\<close>

record BLinkTree =
  bt_index :: "(u64, SegmentPtr) dmap"

definition bt_new :: BLinkTree where
  "bt_new = \<lparr>bt_index = dempty\<rparr>"

definition bt_insert :: "BLinkTree \<Rightarrow> u64 \<Rightarrow> SegmentPtr \<Rightarrow> BLinkTree" where
  "bt_insert t conn_id ptr = t\<lparr>bt_index := dinsert conn_id ptr (bt_index t)\<rparr>"

definition bt_search :: "BLinkTree \<Rightarrow> u64 \<Rightarrow> SegmentPtr option" where
  "bt_search t conn_id = dget (bt_index t) conn_id"

definition bt_remove :: "BLinkTree \<Rightarrow> u64 \<Rightarrow> SegmentPtr option \<times> BLinkTree" where
  "bt_remove t conn_id = (dget (bt_index t) conn_id, t\<lparr>bt_index := dremove conn_id (bt_index t)\<rparr>)"

definition bt_len :: "BLinkTree \<Rightarrow> nat" where
  "bt_len t = dlen (bt_index t)"

definition bt_is_empty :: "BLinkTree \<Rightarrow> bool" where
  "bt_is_empty t \<longleftrightarrow> dlen (bt_index t) = 0"

definition bt_iter :: "BLinkTree \<Rightarrow> (u64 \<times> SegmentPtr) list" where
  "bt_iter t = bt_index t"

section \<open>Engine\<close>

datatype StorageError = SegmentFull | NotFound | StoreSerializationError string

record StorageConfig =
  sc_segment_size_limit :: nat
  sc_compaction_threshold :: nat
  sc_cleanup_interval :: u64

definition storage_config_default :: StorageConfig where
  "storage_config_default = \<lparr>sc_segment_size_limit = 10 * 1024 * 1024, sc_compaction_threshold = 10,
     sc_cleanup_interval = 300\<rparr>"

record StorageEngine =
  se_active_segment :: Segment
  se_sealed_segments :: "Segment list"
  se_index :: BLinkTree
  se_txid_counter :: u64
  se_config :: StorageConfig
  se_segment_ids :: u64

definition se_new :: "StorageConfig \<Rightarrow> u64 \<Rightarrow> StorageEngine" where
  "se_new config counter =
     (let (segment, counter') = seg_with_size_limit (sc_segment_size_limit config) counter in
      \<lparr>se_active_segment = segment, se_sealed_segments = [], se_index = bt_new, se_txid_counter = 1,
       se_config = config, se_segment_ids = counter'\<rparr>)"

definition next_txid :: "StorageEngine \<Rightarrow> u64 \<times> StorageEngine" where
  "next_txid e = (se_txid_counter e, e\<lparr>se_txid_counter := se_txid_counter e + 1\<rparr>)"

definition rotate_segment :: "StorageEngine \<Rightarrow> StorageEngine" where
  "rotate_segment e =
     (let (fresh, counter') = seg_with_size_limit (sc_segment_size_limit (se_config e)) (se_segment_ids e) in
      e\<lparr>se_active_segment := fresh,
        se_sealed_segments := se_sealed_segments e @ [seg_seal (se_active_segment e)],
        se_segment_ids := counter'\<rparr>)"

definition make_record :: "u64 \<Rightarrow> ConnMeta \<Rightarrow> u64 \<Rightarrow> u64 \<Rightarrow> ConnRecord" where
  "make_record conn_id metadata now txid =
     \<lparr>cr_conn_id = conn_id, cr_metadata = metadata, cr_created_at = now, cr_last_active = now,
      cr_access_count = 1, cr_txid = txid\<rparr>"

definition se_upsert ::
  "rkyv_ext \<Rightarrow> StorageEngine \<Rightarrow> u64 \<Rightarrow> ConnMeta \<Rightarrow> u64 \<Rightarrow> (u64, StorageError) result \<times> StorageEngine" where
  "se_upsert K e conn_id metadata now =
     (let (txid, e1) = next_txid e;
          record = make_record conn_id metadata now txid in
      case seg_append K (se_active_segment e1) record of
        (Some off, segment) \<Rightarrow>
          (Ok txid, e1\<lparr>se_active_segment := segment,
             se_index := bt_insert (se_index e1) conn_id
               \<lparr>sp_segment_id = sg_id segment, sp_offset = off\<rparr>\<rparr>)
      | (None, _) \<Rightarrow>
          let e2 = rotate_segment e1 in
          (case seg_append K (se_active_segment e2) record of
             (None, _) \<Rightarrow> (Err SegmentFull, e2)
           | (Some off, segment) \<Rightarrow>
               (Ok txid, e2\<lparr>se_active_segment := segment,
                  se_index := bt_insert (se_index e2) conn_id
                    \<lparr>sp_segment_id = sg_id segment, sp_offset = off\<rparr>\<rparr>)))"

definition se_get :: "rkyv_ext \<Rightarrow> StorageEngine \<Rightarrow> u64 \<Rightarrow> ConnRecord option" where
  "se_get K e conn_id =
     (case bt_search (se_index e) conn_id of
        None \<Rightarrow> None
      | Some ptr \<Rightarrow>
          if sp_segment_id ptr = sg_id (se_active_segment e)
          then seg_read_at K (se_active_segment e) (sp_offset ptr)
          else case List.find (\<lambda>s. sp_segment_id ptr = sg_id s) (se_sealed_segments e) of
              Some segment \<Rightarrow> seg_read_at K segment (sp_offset ptr)
            | None \<Rightarrow> None)"

definition se_delete :: "StorageEngine \<Rightarrow> u64 \<Rightarrow> SegmentPtr option \<times> StorageEngine" where
  "se_delete e conn_id =
     (let (ptr, t) = bt_remove (se_index e) conn_id in (ptr, e\<lparr>se_index := t\<rparr>))"

record StorageStats =
  st_active_segment_size :: nat
  st_active_record_count :: nat
  st_sealed_segment_count :: nat
  st_total_indexed :: nat

definition se_stats :: "StorageEngine \<Rightarrow> StorageStats" where
  "se_stats e =
     \<lparr>st_active_segment_size = seg_size (se_active_segment e),
      st_active_record_count = seg_record_count (se_active_segment e),
      st_sealed_segment_count = length (se_sealed_segments e),
      st_total_indexed = bt_len (se_index e)\<rparr>"

section \<open>Segments hold what was appended\<close>

fun offs :: "nat \<Rightarrow> bytes list \<Rightarrow> nat list" where
  "offs n [] = []"
| "offs n (b # bs) = n # offs (n + length b) bs"

definition seg_chunks :: "Segment \<Rightarrow> bytes list \<Rightarrow> bool" where
  "seg_chunks s bss \<longleftrightarrow> sg_data s = concat bss \<and> sg_offsets s = offs 0 bss \<and> [] \<notin> set bss"

definition seg_wf :: "Segment \<Rightarrow> bool" where
  "seg_wf s \<longleftrightarrow> (\<exists>bss. seg_chunks s bss)"

lemma offs_append: "offs n (xs @ ys) = offs n xs @ offs (n + length (concat xs)) ys"
  by (induction xs arbitrary: n) (simp_all add: algebra_simps)

lemma offs_bounds: "[] \<notin> set xs \<Longrightarrow> o' \<in> set (offs n xs) \<Longrightarrow> n \<le> o' \<and> o' < n + length (concat xs)"
proof (induction xs arbitrary: n)
  case (Cons b bs)
  then have "0 < length b" by auto
  with Cons show ?case by fastforce
qed simp

lemma offs_mem: "o' \<in> set (offs 0 bss) \<Longrightarrow> \<exists>pre b post. bss = pre @ b # post \<and> o' = length (concat pre)"
proof (induction bss rule: rev_induct)
  case (snoc b bss)
  then show ?case
  proof (cases "o' \<in> set (offs 0 bss)")
    case True
    then obtain pre c post where "bss = pre @ c # post" "o' = length (concat pre)"
      using snoc by blast
    then show ?thesis by (metis append.assoc append_Cons)
  next
    case False
    with snoc.prems have "o' = length (concat bss)" by (simp add: offs_append)
    then show ?thesis by blast
  qed
qed simp

lemma find_none: "\<forall>x\<in>set xs. \<not> P x \<Longrightarrow> List.find P xs = None"
  by (induction xs) auto

lemma find_append_none: "\<forall>x\<in>set xs. \<not> P x \<Longrightarrow> List.find P (xs @ ys) = List.find P ys"
  by (induction xs) auto

lemma seg_read_chunk:
  assumes "seg_chunks s (pre @ b # post)"
  shows "seg_read_at K s (length (concat pre)) = rk_access K b"
proof -
  let ?o = "length (concat pre)"
  have b: "b \<noteq> []" and pre: "[] \<notin> set pre" and post: "[] \<notin> set post"
    using assms by (auto simp: seg_chunks_def)
  have "\<forall>o'\<in>set (offs 0 pre). \<not> ?o < o'"
    using offs_bounds [OF pre] by fastforce
  then have "List.find (\<lambda>o'. o' > ?o) (sg_offsets s) = List.find (\<lambda>o'. o' > ?o) (offs (?o + length b) post)"
    using assms by (simp add: seg_chunks_def offs_append find_append_none)
  then have "(case List.find (\<lambda>o'. o' > ?o) (sg_offsets s) of Some o' \<Rightarrow> o' | None \<Rightarrow> length (sg_data s)) = ?o + length b"
    using assms b by (cases post) (auto simp: seg_chunks_def)
  moreover have "?o < length (sg_data s)" "take (length b) (drop ?o (sg_data s)) = b"
    using assms b by (auto simp: seg_chunks_def)
  ultimately show ?thesis by (simp add: seg_read_at_def)
qed

lemma seg_append_none: "seg_append K s r = (None, s') \<Longrightarrow> s' = s"
  by (auto simp: seg_append_def Let_def split: if_splits option.splits)

lemma seg_append_some:
  assumes "rkyv_ok K" "seg_wf s" "seg_append K s r = (Some off, s')"
  shows "seg_wf s' \<and> sg_id s' = sg_id s \<and> set (sg_offsets s') = insert off (set (sg_offsets s)) \<and>
    off \<notin> set (sg_offsets s) \<and> seg_read_at K s' off = Some r \<and>
    (\<forall>o'\<in>set (sg_offsets s). seg_read_at K s' o' = seg_read_at K s o')"
proof -
  obtain bss where bss: "seg_chunks s bss" using assms(2) by (auto simp: seg_wf_def)
  obtain b where b: "rk_to_bytes K r = Some b" "off = length (sg_data s)"
    "s' = s\<lparr>sg_data := sg_data s @ b, sg_offsets := sg_offsets s @ [off]\<rparr>"
    using assms(3) by (auto simp: seg_append_def Let_def split: if_splits option.splits)
  have ok: "b \<noteq> []" "rk_access K b = Some r"
    using assms(1) b(1) by (auto simp: rkyv_ok_def)
  have ch: "seg_chunks s' (bss @ [b])"
    using bss b ok by (simp add: seg_chunks_def offs_append)
  have off: "off = length (concat bss)"
    using bss b(2) by (simp add: seg_chunks_def)
  have "seg_read_at K s' off = Some r"
    using seg_read_chunk [OF ch] off ok by simp
  moreover have "seg_read_at K s' o' = seg_read_at K s o'" if "o' \<in> set (sg_offsets s)" for o'
  proof -
    have "o' \<in> set (offs 0 bss)" using that bss by (simp add: seg_chunks_def)
    from offs_mem [OF this] obtain pre c post where "bss = pre @ c # post" "o' = length (concat pre)"
      by blast
    then show ?thesis
      using seg_read_chunk [of s' pre c "post @ [b]"] seg_read_chunk [of s pre c post] ch bss by simp
  qed
  moreover have "off \<notin> set (sg_offsets s)"
    using offs_bounds [of bss off 0] bss off by (auto simp: seg_chunks_def)
  ultimately show ?thesis
    using ch b by (auto simp: seg_wf_def)
qed

section \<open>The contract of a connection store\<close>

datatype store_op = Put u64 ConnMeta u64 | Del u64

fun store_run ::
  "('s \<Rightarrow> u64 \<Rightarrow> ConnMeta \<Rightarrow> u64 \<Rightarrow> (u64, 'e) result \<times> 's) \<Rightarrow> ('s \<Rightarrow> u64 \<Rightarrow> 'p \<times> 's) \<Rightarrow> 's \<Rightarrow>
     store_op list \<Rightarrow> (u64, 'e) result list \<times> 's" where
  "store_run put del s [] = ([], s)"
| "store_run put del s (Put k v now # ops) =
     (let (res, s') = put s k v now; (out, s'') = store_run put del s' ops in (res # out, s''))"
| "store_run put del s (Del k # ops) = store_run put del (snd (del s k)) ops"

text \<open>The partial map the run should produce, given the outcomes of its insertions.\<close>

fun spec_run :: "(u64 \<rightharpoonup> ConnRecord) \<Rightarrow> store_op list \<Rightarrow> (u64, 'e) result list \<Rightarrow> (u64 \<rightharpoonup> ConnRecord)" where
  "spec_run m (Put k v now # ops) (Ok t # out) = spec_run (m(k \<mapsto> make_record k v now t)) ops out"
| "spec_run m (Put k v now # ops) (Err _ # out) = spec_run m ops out"
| "spec_run m (Del k # ops) out = spec_run (m(k := None)) ops out"
| "spec_run m _ _ = m"

locale conn_store =
  fixes inv :: "nat \<Rightarrow> 's \<Rightarrow> bool"
    and lookup :: "'s \<Rightarrow> u64 \<rightharpoonup> ConnRecord"
    and put :: "'s \<Rightarrow> u64 \<Rightarrow> ConnMeta \<Rightarrow> u64 \<Rightarrow> (u64, 'e) result \<times> 's"
    and del :: "'s \<Rightarrow> u64 \<Rightarrow> 'p \<times> 's"
  assumes put_ok: "inv (Suc n) s \<Longrightarrow> put s k v now = (Ok t, s') \<Longrightarrow>
      inv n s' \<and> lookup s' = (lookup s)(k \<mapsto> make_record k v now t)"
    and put_err: "inv (Suc n) s \<Longrightarrow> put s k v now = (Err e, s') \<Longrightarrow> inv n s' \<and> lookup s' = lookup s"
    and del_ok: "inv n s \<Longrightarrow> inv n (snd (del s k)) \<and> lookup (snd (del s k)) = (lookup s)(k := None)"
    and inv_mono: "inv (Suc n) s \<Longrightarrow> inv n s"
begin

lemma run_refines_spec:
  "inv (length ops) s \<Longrightarrow> store_run put del s ops = (out, s') \<Longrightarrow> lookup s' = spec_run (lookup s) ops out"
proof (induction ops arbitrary: s out s')
  case (Cons op ops)
  show ?case
  proof (cases op)
    case (Put k v now)
    obtain res s1 where p: "put s k v now = (res, s1)" by force
    obtain out1 s2 where r: "store_run put del s1 ops = (out1, s2)" by force
    have o: "out = res # out1" "s' = s2" using Cons.prems(2) Put p r by simp_all
    have "inv (length ops) s1 \<and>
        lookup s1 = (case res of Ok t \<Rightarrow> (lookup s)(k \<mapsto> make_record k v now t) | Err _ \<Rightarrow> lookup s)"
      using put_ok [of "length ops" s k v now] put_err [of "length ops" s k v now] Cons.prems(1) p
      by (cases res) auto
    with Cons.IH [OF _ r] o Put show ?thesis by (cases res) (auto simp del: fun_upd_apply)
  next
    case (Del k)
    with Cons.prems have i: "inv (length ops) s" "store_run put del (snd (del s k)) ops = (out, s')"
      using inv_mono by auto
    have "lookup s' = spec_run (lookup (snd (del s k))) ops out"
      using Cons.IH [OF conjunct1 [OF del_ok [OF i(1)]] i(2)] .
    with del_ok [OF i(1)] Del show ?thesis by simp
  qed
qed simp

end

section \<open>The engine meets the contract\<close>

definition se_segments :: "StorageEngine \<Rightarrow> Segment list" where
  "se_segments e = se_active_segment e # se_sealed_segments e"

definition se_inv :: "rkyv_ext \<Rightarrow> nat \<Rightarrow> StorageEngine \<Rightarrow> bool" where
  "se_inv K n e \<longleftrightarrow> rkyv_ok K \<and> dwf (bt_index (se_index e)) \<and>
     distinct (map sg_id (se_segments e)) \<and>
     (\<forall>s\<in>set (se_segments e). seg_wf s \<and> unat (sg_id s) < unat (se_segment_ids e)) \<and>
     unat (se_segment_ids e) + n < 2 ^ 64 \<and>
     (\<forall>k ptr. bt_search (se_index e) k = Some ptr \<longrightarrow>
        (\<exists>s\<in>set (se_segments e). sg_id s = sp_segment_id ptr \<and> sp_offset ptr \<in> set (sg_offsets s)))"

lemma seg_wf_new: "seg_wf (fst (seg_with_size_limit lim c))"
  by (auto simp: seg_wf_def seg_chunks_def seg_with_size_limit_def intro!: exI [of _ "[]"])

lemma seg_seal_simps [simp]:
  "sg_id (seg_seal s) = sg_id s" "sg_offsets (seg_seal s) = sg_offsets s"
  "seg_wf (seg_seal s) = seg_wf s" "seg_read_at K (seg_seal s) = seg_read_at K s"
  by (auto simp: seg_seal_def seg_wf_def seg_chunks_def seg_read_at_def fun_eq_iff split: option.splits)

lemma find_unique:
  "distinct (map f xs) \<Longrightarrow> x \<in> set xs \<Longrightarrow> List.find (\<lambda>y. f x = f y) xs = Some x"
  by (induction xs) (auto simp: image_iff)

text \<open>A lookup finds the segment its pointer names.\<close>

lemma se_get_segment:
  assumes "distinct (map sg_id (se_segments e))" "bt_search (se_index e) k = Some ptr"
    "s \<in> set (se_segments e)" "sg_id s = sp_segment_id ptr"
  shows "se_get K e k = seg_read_at K s (sp_offset ptr)"
proof (cases "s = se_active_segment e")
  case True
  with assms show ?thesis by (simp add: se_get_def)
next
  case False
  then have s: "s \<in> set (se_sealed_segments e)" using assms(3) by (simp add: se_segments_def)
  moreover have "distinct (map sg_id (se_sealed_segments e))"
    using assms(1) by (simp add: se_segments_def)
  moreover have "sg_id s \<noteq> sg_id (se_active_segment e)"
    using assms(1) image_eqI [OF _ s, of _ sg_id] by (auto simp: se_segments_def)
  ultimately show ?thesis
    using assms(2) find_unique [of sg_id "se_sealed_segments e" s] assms(4) by (simp add: se_get_def)
qed

lemma se_get_none: "bt_search (se_index e) k = None \<Longrightarrow> se_get K e k = None"
  by (simp add: se_get_def)

lemma se_inv_cong:
  "se_inv K n (e\<lparr>se_txid_counter := x\<rparr>) = se_inv K n e" "se_get K (e\<lparr>se_txid_counter := x\<rparr>) = se_get K e"
  by (auto simp: se_inv_def se_segments_def se_get_def fun_eq_iff split: option.splits)

lemma se_inv_distinct: "se_inv K n e \<Longrightarrow> distinct (map sg_id (se_segments e))"
  by (simp add: se_inv_def)

lemma se_inv_ptr:
  "se_inv K n e \<Longrightarrow> bt_search (se_index e) k = Some ptr \<Longrightarrow>
     \<exists>s\<in>set (se_segments e). sg_id s = sp_segment_id ptr \<and> sp_offset ptr \<in> set (sg_offsets s)"
  by (simp add: se_inv_def)

text \<open>What a change of the segments carries over: every segment has a successor with its id that has its records.\<close>

definition carried :: "rkyv_ext \<Rightarrow> StorageEngine \<Rightarrow> StorageEngine \<Rightarrow> bool" where
  "carried K e e' \<longleftrightarrow> (\<forall>s\<in>set (se_segments e). \<exists>s'\<in>set (se_segments e'). sg_id s' = sg_id s \<and>
     set (sg_offsets s) \<subseteq> set (sg_offsets s') \<and> (\<forall>off\<in>set (sg_offsets s). seg_read_at K s' off = seg_read_at K s off))"

lemma carried_ptr:
  assumes "carried K e e'" "se_inv K n e" "bt_search (se_index e) k = Some ptr"
  shows "\<exists>s\<in>set (se_segments e'). sg_id s = sp_segment_id ptr \<and> sp_offset ptr \<in> set (sg_offsets s) \<and>
    seg_read_at K s (sp_offset ptr) = se_get K e k"
proof -
  from se_inv_ptr [OF assms(2,3)] obtain s where
    s: "s \<in> set (se_segments e)" "sg_id s = sp_segment_id ptr" "sp_offset ptr \<in> set (sg_offsets s)"
    by blast
  then obtain s' where "s' \<in> set (se_segments e')" "sg_id s' = sg_id s" "set (sg_offsets s) \<subseteq> set (sg_offsets s')"
    "\<forall>off\<in>set (sg_offsets s). seg_read_at K s' off = seg_read_at K s off"
    using assms(1) unfolding carried_def by blast
  with s se_get_segment [OF se_inv_distinct [OF assms(2)] assms(3) s(1,2), of K] show ?thesis
    by (intro bexI [of _ s']) auto
qed

lemma carried_get:
  assumes "carried K e e'" "se_inv K n e" "se_inv K m e'" "bt_search (se_index e') k = bt_search (se_index e) k"
  shows "se_get K e' k = se_get K e k"
proof (cases "bt_search (se_index e) k")
  case None
  with assms(4) show ?thesis by (simp add: se_get_none)
next
  case (Some ptr)
  with carried_ptr [OF assms(1,2)] obtain s where
    "s \<in> set (se_segments e')" "sg_id s = sp_segment_id ptr" "seg_read_at K s (sp_offset ptr) = se_get K e k"
    by blast
  with se_get_segment [OF se_inv_distinct [OF assms(3)], of k ptr s K] Some assms(4) show ?thesis by simp
qed

text \<open>Storing a record in the active segment and pointing the index at it.\<close>

lemma store_active:
  assumes inv: "se_inv K n e" and app: "seg_append K (se_active_segment e) r = (Some off, seg)"
    and e': "e' = e\<lparr>se_active_segment := seg, se_index := bt_insert (se_index e) k
      \<lparr>sp_segment_id = sg_id seg, sp_offset = off\<rparr>\<rparr>"
  shows "se_inv K n e' \<and> se_get K e' = (se_get K e)(k \<mapsto> r)"
proof -
  have "rkyv_ok K" "seg_wf (se_active_segment e)" using inv by (auto simp: se_inv_def se_segments_def)
  note a = seg_append_some [OF this app]
  have segs: "se_segments e' = seg # se_sealed_segments e" "sg_id seg = sg_id (se_active_segment e)"
    using a by (simp_all add: e' se_segments_def)
  have search: "bt_search (se_index e') k' =
      (if k' = k then Some \<lparr>sp_segment_id = sg_id seg, sp_offset = off\<rparr> else bt_search (se_index e) k')" for k'
    by (simp add: e' bt_search_def bt_insert_def)
  have old: "carried K e e'"
    unfolding carried_def segs(1) using a by (auto simp: se_segments_def)
  have inv': "se_inv K n e'"
    unfolding se_inv_def
  proof (intro conjI allI impI)
    fix k' ptr assume "bt_search (se_index e') k' = Some ptr"
    then show "\<exists>s\<in>set (se_segments e'). sg_id s = sp_segment_id ptr \<and> sp_offset ptr \<in> set (sg_offsets s)"
      using search [of k'] carried_ptr [OF old inv, of k' ptr] a segs by (auto split: if_splits)
  qed (use inv a segs in \<open>auto simp: se_inv_def e' se_segments_def bt_insert_def\<close>)
  have "se_get K e' k = Some r"
    using se_get_segment [OF se_inv_distinct [OF inv'], of k "\<lparr>sp_segment_id = sg_id seg, sp_offset = off\<rparr>" seg K]
      search [of k] a segs(1) by simp
  then have "se_get K e' k' = ((se_get K e)(k \<mapsto> r)) k'" for k'
    using carried_get [OF old inv inv', of k'] search [of k'] by (cases "k' = k") simp_all
  with inv' show ?thesis by auto
qed

lemma rotate_fields:
  "se_segments (rotate_segment e) = fst (seg_with_size_limit (sc_segment_size_limit (se_config e)) (se_segment_ids e)) #
     se_sealed_segments e @ [seg_seal (se_active_segment e)]"
  "se_segment_ids (rotate_segment e) = se_segment_ids e + 1" "se_index (rotate_segment e) = se_index e"
  "sg_id (fst (seg_with_size_limit (sc_segment_size_limit (se_config e)) (se_segment_ids e))) = se_segment_ids e"
  by (simp_all add: rotate_segment_def se_segments_def seg_with_size_limit_def)

lemma rotate_carried: "carried K e (rotate_segment e)"
  unfolding carried_def rotate_fields by (auto simp: se_segments_def)

lemma rotate_inv:
  assumes inv: "se_inv K (Suc n) e"
  shows "se_inv K n (rotate_segment e) \<and> se_get K (rotate_segment e) = se_get K e"
proof -
  have c: "unat (se_segment_ids e + 1) = Suc (unat (se_segment_ids e))"
    using inv by (simp add: se_inv_def unat_word_ariths)
  have inv': "se_inv K n (rotate_segment e)"
    unfolding se_inv_def
  proof (intro conjI allI impI)
    fix k ptr assume "bt_search (se_index (rotate_segment e)) k = Some ptr"
    then show "\<exists>s\<in>set (se_segments (rotate_segment e)). sg_id s = sp_segment_id ptr \<and> sp_offset ptr \<in> set (sg_offsets s)"
      using carried_ptr [OF rotate_carried inv, of k ptr] rotate_fields(3) [of e] by auto
  next
    show "distinct (map sg_id (se_segments (rotate_segment e)))"
      unfolding rotate_fields(1) using inv [unfolded se_inv_def se_segments_def] by (auto simp: rotate_fields(4))
  next
    show "\<forall>s\<in>set (se_segments (rotate_segment e)). seg_wf s \<and> unat (sg_id s) < unat (se_segment_ids (rotate_segment e))"
      unfolding rotate_fields(1,2) using inv [unfolded se_inv_def se_segments_def] c seg_wf_new
      by (auto simp: rotate_fields(4) intro: less_SucI)
  qed (use inv c in \<open>auto simp: se_inv_def rotate_fields\<close>)
  moreover have "se_get K (rotate_segment e) k = se_get K e k" for k
    by (rule carried_get [OF rotate_carried inv inv']) (simp add: rotate_fields)
  ultimately show ?thesis by blast
qed

lemma se_inv_mono: "se_inv K (Suc n) e \<Longrightarrow> se_inv K n e"
  by (auto simp: se_inv_def)

text \<open>Both paths of an upsert: into the active segment, or into a fresh one.\<close>

lemma se_upsert_cases:
  obtains (direct) off seg where
      "seg_append K (se_active_segment e) (make_record k v now (se_txid_counter e)) = (Some off, seg)"
      "se_upsert K e k v now = (Ok (se_txid_counter e),
         e\<lparr>se_txid_counter := se_txid_counter e + 1, se_active_segment := seg, se_index := bt_insert (se_index e) k
           \<lparr>sp_segment_id = sg_id seg, sp_offset = off\<rparr>\<rparr>)"
  | (rotated) off seg e2 where "e2 = rotate_segment (e\<lparr>se_txid_counter := se_txid_counter e + 1\<rparr>)"
      "seg_append K (se_active_segment e2) (make_record k v now (se_txid_counter e)) = (Some off, seg)"
      "se_upsert K e k v now = (Ok (se_txid_counter e),
         e2\<lparr>se_active_segment := seg, se_index := bt_insert (se_index e2) k
           \<lparr>sp_segment_id = sg_id seg, sp_offset = off\<rparr>\<rparr>)"
  | (full) "se_upsert K e k v now =
      (Err SegmentFull, rotate_segment (e\<lparr>se_txid_counter := se_txid_counter e + 1\<rparr>))"
proof -
  let ?r = "make_record k v now (se_txid_counter e)"
  let ?e1 = "e\<lparr>se_txid_counter := se_txid_counter e + 1\<rparr>"
  obtain o1 s1 where a1: "seg_append K (se_active_segment e) ?r = (o1, s1)" by force
  obtain o2 s2 where a2: "seg_append K (se_active_segment (rotate_segment ?e1)) ?r = (o2, s2)" by force
  show thesis
  proof (cases o1)
    case (Some off)
    with a1 show thesis by (intro direct [of off s1]) (simp_all add: se_upsert_def next_txid_def Let_def)
  next
    case None
    show thesis
    proof (cases o2)
      case (Some off)
      with a1 a2 None show thesis
        by (intro rotated [of "rotate_segment ?e1" off s2]) (simp_all add: se_upsert_def next_txid_def Let_def)
    next
      case n2: None
      with a1 a2 None show thesis by (intro full) (simp add: se_upsert_def next_txid_def Let_def)
    qed
  qed
qed

lemma se_upsert_refines:
  assumes inv: "se_inv K (Suc n) e" and up: "se_upsert K e k v now = (res, e')"
  shows "se_inv K n e' \<and> se_get K e' =
    (case res of Ok t \<Rightarrow> (se_get K e)(k \<mapsto> make_record k v now t) | Err _ \<Rightarrow> se_get K e)"
proof -
  let ?e1 = "e\<lparr>se_txid_counter := se_txid_counter e + 1\<rparr>"
  have inv1: "se_inv K (Suc n) ?e1" using inv by (simp add: se_inv_cong)
  show ?thesis
  proof (cases rule: se_upsert_cases [of K e k v now])
    case (direct off seg)
    from store_active [OF se_inv_mono [OF inv1], of "make_record k v now (se_txid_counter e)" off seg _ k]
      direct up show ?thesis by (auto simp: se_inv_cong simp del: fun_upd_apply)
  next
    case (rotated off seg e2)
    have "se_inv K n e2 \<and> se_get K e2 = se_get K e"
      using rotate_inv [OF inv1] rotated(1) by (simp add: se_inv_cong)
    with store_active [of K n e2 "make_record k v now (se_txid_counter e)" off seg _ k] rotated up
    show ?thesis by (auto simp del: fun_upd_apply)
  next
    case full
    with rotate_inv [OF inv1] up show ?thesis by (auto simp: se_inv_cong)
  qed
qed

lemma se_delete_refines:
  assumes "se_inv K n e"
  shows "se_inv K n (snd (se_delete e k)) \<and> se_get K (snd (se_delete e k)) = (se_get K e)(k := None)"
  using assms
  by (auto simp: se_inv_def se_segments_def se_delete_def bt_remove_def bt_search_def se_get_def fun_eq_iff
      split: option.splits)

interpretation engine_store: conn_store "se_inv K" "se_get K" "se_upsert K" se_delete for K
  by unfold_locales
    (auto dest: se_upsert_refines se_inv_mono simp: se_delete_refines simp del: fun_upd_apply)

lemma se_new_inv:
  "rkyv_ok K \<Longrightarrow> unat counter + Suc n < 2 ^ 64 \<Longrightarrow> se_inv K n (se_new config counter) \<and> se_get K (se_new config counter) = Map.empty"
  using seg_wf_new [of "sc_segment_size_limit config" counter]
  by (auto simp: se_new_def se_inv_def se_segments_def bt_new_def bt_search_def seg_with_size_limit_def
      se_get_def fun_eq_iff unat_word_ariths)

lemma se_upsert_txid:
  "se_upsert K e k v now = (res, e') \<Longrightarrow> se_txid_counter e' = se_txid_counter e + 1 \<and>
     (\<forall>t. res = Ok t \<longrightarrow> t = se_txid_counter e)"
  by (cases rule: se_upsert_cases [of K e k v now])
    (auto simp: rotate_segment_def seg_with_size_limit_def)

section \<open>An instance of the parameters\<close>

text \<open>Records of connections without streams, in the layout of their fields.\<close>

definition demo_rkyv :: rkyv_ext where
  "demo_rkyv = \<lparr>rk_to_bytes = \<lambda>r. if r = make_record (cr_conn_id r)
        \<lparr>client_addr = [], nat_entry = (1, 2), assigned_pod = 3, stream_states = []\<rparr> (cr_created_at r) (cr_txid r)
      then Some (u64_to_le (cr_conn_id r) @ u64_to_le (cr_created_at r) @ u64_to_le (cr_txid r)) else None,
     rk_access = \<lambda>b. Some (make_record (u64_from_le (take 8 b))
        \<lparr>client_addr = [], nat_entry = (1, 2), assigned_pod = 3, stream_states = []\<rparr>
        (u64_from_le (take 8 (drop 8 b))) (u64_from_le (drop 16 b)))\<rparr>"

lemma demo_rkyv_ok: "rkyv_ok demo_rkyv"
proof -
  have "u64_to_le x \<noteq> []" for x
    using length_u64_to_le [of x] by force
  then show ?thesis
    by (auto simp: rkyv_ok_def demo_rkyv_def make_record_def split: if_splits)
qed

definition demo_conn :: ConnMeta where
  "demo_conn = \<lparr>client_addr = [], nat_entry = (1, 2), assigned_pod = 3, stream_states = []\<rparr>"

definition demo_engine :: "nat \<Rightarrow> StorageEngine" where
  "demo_engine limit = se_new (storage_config_default\<lparr>sc_segment_size_limit := limit\<rparr>) 0"

lemma demo_bytes: "rk_to_bytes demo_rkyv (make_record k demo_conn now t) = Some (u64_to_le k @ u64_to_le now @ u64_to_le t)"
  by (simp add: demo_rkyv_def make_record_def demo_conn_def)

lemmas demo_engine_defs = demo_engine_def se_new_def seg_with_size_limit_def storage_config_default_def
  se_upsert_def next_txid_def seg_append_def demo_bytes rotate_segment_def seg_seal_def Let_def

section \<open>Properties\<close>

text \<open>C5. The engine is a map: after any sequence of upserts and deletions, through any number of
  segment rotations, a lookup returns the record of the last successful upsert of that
  connection since its last deletion, with the transaction id the upsert returned, and a failed
  upsert changes no lookup.\<close>

theorem engine_refines_map:
  assumes "rkyv_ok K" and "unat counter + length ops + 1 < 2 ^ 64"
    and "store_run (se_upsert K) se_delete (se_new config counter) ops = (out, e)"
  shows "se_get K e = spec_run Map.empty ops out"
proof -
  have "se_inv K (length ops) (se_new config counter) \<and> se_get K (se_new config counter) = Map.empty"
    using assms(1,2) by (intro se_new_inv) simp_all
  then show ?thesis
    using engine_store.run_refines_spec [OF _ assms(3)] by simp
qed

theorem engine_refines_map_witness:
  "se_get demo_rkyv (snd (store_run (se_upsert demo_rkyv) se_delete (demo_engine 30)
     [Put 1 demo_conn 5, Put 2 demo_conn 6, Del 2, Put 1 demo_conn 7])) =
   [1 \<mapsto> make_record 1 demo_conn 7 3]"
proof -
  let ?ops = "[Put 1 demo_conn 5, Put 2 demo_conn 6, Del 2, Put 1 demo_conn 7]"
  have out: "fst (store_run (se_upsert demo_rkyv) se_delete (demo_engine 30) ?ops) = [Ok 1, Ok 2, Ok 3]"
    by (simp add: demo_engine_defs se_delete_def bt_remove_def)
  define e where "e = snd (store_run (se_upsert demo_rkyv) se_delete (demo_engine 30) ?ops)"
  have "store_run (se_upsert demo_rkyv) se_delete (demo_engine 30) ?ops = ([Ok 1, Ok 2, Ok 3], e)"
    using out by (simp only: e_def prod_eq_iff fst_conv snd_conv simp_thms)
  from engine_refines_map [OF demo_rkyv_ok _ this [unfolded demo_engine_def]] show ?thesis
    unfolding e_def [symmetric] by (simp add: fun_upd_twist)
qed

text \<open>A record that fits into no segment is refused, and every attempt to store one seals the
  active segment and opens another: lookups are unchanged but the number of sealed segments
  grows by one.\<close>

theorem failed_upsert_seals_segment:
  assumes "se_inv K (Suc n) e" and "se_upsert K e k v now = (Err err, e')"
  shows "err = SegmentFull \<and> se_get K e' = se_get K e \<and>
    st_sealed_segment_count (se_stats e') = st_sealed_segment_count (se_stats e) + 1 \<and>
    st_active_segment_size (se_stats e') = 0"
  using se_upsert_refines [OF assms] assms(2)
  by (cases rule: se_upsert_cases [of K e k v now])
    (auto simp: rotate_segment_def se_stats_def seg_with_size_limit_def seg_size_def)

end
