(* ===== verification/Crypto.thy ===== *)
theory Crypto
  imports Apfsds_Prelude
begin

text \<open>
  The crypto crate around its third-party primitives: \<^verbatim>\<open>hmac_auth.rs\<close>, \<^verbatim>\<open>aes.rs\<close> and
  \<^verbatim>\<open>keys.rs\<close>. The primitives themselves (HMAC-SHA256, AES-256-GCM, SHA-256, Ed25519, ML-DSA-65,
  X25519, ML-KEM-768) are parameters, gathered in the records \<open>aead_ext\<close>, \<open>ed25519_ext\<close>,
  \<open>mldsa_ext\<close>, \<open>x25519_ext\<close> and \<open>mlkem_ext\<close>; what their documentation promises is stated by the
  predicates \<open>aead_ok\<close>, \<open>mldsa_ok\<close>, \<open>x25519_ok\<close> and \<open>mlkem_ok\<close>, which are hypotheses of the
  theorems that need them. Random bytes are arguments.
\<close>

section \<open>HMAC\<close>

datatype HmacError = HmacInvalidKeyLength | VerificationFailed

record HmacAuthenticator =
  ha_secret :: bytes

definition hmac_new :: "bytes \<Rightarrow> HmacAuthenticator" where
  "hmac_new secret = \<lparr>ha_secret = secret\<rparr>"

definition hmac_compute :: "(bytes \<Rightarrow> bytes \<Rightarrow> bytes) \<Rightarrow> HmacAuthenticator \<Rightarrow> bytes \<Rightarrow> bytes" where
  "hmac_compute mac a data = mac (ha_secret a) data"

definition hmac_compute_with_timestamp ::
  "(bytes \<Rightarrow> bytes \<Rightarrow> bytes) \<Rightarrow> HmacAuthenticator \<Rightarrow> bytes \<Rightarrow> u64 \<Rightarrow> bytes" where
  "hmac_compute_with_timestamp mac a data timestamp =
     mac (ha_secret a) (data @ u64_to_le timestamp)"

definition constant_time_compare :: "bytes \<Rightarrow> bytes \<Rightarrow> bool" where
  "constant_time_compare a b \<longleftrightarrow> fold (\<lambda>i res. res OR (a ! i XOR b ! i)) [0..<32] 0 = 0"

definition hmac_verify ::
  "(bytes \<Rightarrow> bytes \<Rightarrow> bytes) \<Rightarrow> HmacAuthenticator \<Rightarrow> bytes \<Rightarrow> bytes \<Rightarrow> (unit, HmacError) result" where
  "hmac_verify mac a data expected =
     (if constant_time_compare (hmac_compute mac a data) expected then Ok () else Err VerificationFailed)"

definition verify_with_timestamp ::
  "(bytes \<Rightarrow> bytes \<Rightarrow> bytes) \<Rightarrow> HmacAuthenticator \<Rightarrow> bytes \<Rightarrow> u64 \<Rightarrow> bytes \<Rightarrow> (unit, HmacError) result" where
  "verify_with_timestamp mac a data timestamp expected =
     (if constant_time_compare (hmac_compute_with_timestamp mac a data timestamp) expected
      then Ok () else Err VerificationFailed)"

text \<open>HMAC-SHA256 has a 32-byte tag.\<close>

definition mac_ok :: "(bytes \<Rightarrow> bytes \<Rightarrow> bytes) \<Rightarrow> bool" where
  "mac_ok mac \<longleftrightarrow> (\<forall>k d. length (mac k d) = 32)"

section \<open>AES-256-GCM\<close>

datatype AesError =
    EncryptionFailed
  | DecryptionFailed
  | AesInvalidKeyLength nat
  | InvalidNonceLength nat
  | CiphertextTooShort

record aead_ext =
  gcm_encrypt :: "bytes \<Rightarrow> bytes \<Rightarrow> bytes \<Rightarrow> bytes option"
  gcm_decrypt :: "bytes \<Rightarrow> bytes \<Rightarrow> bytes \<Rightarrow> bytes option"

text \<open>The cipher object is its key.\<close>

record Aes256GcmCipher =
  ac_key :: bytes

definition aes_new :: "bytes \<Rightarrow> Aes256GcmCipher" where
  "aes_new key = \<lparr>ac_key = key\<rparr>"

definition aes_encrypt ::
  "aead_ext \<Rightarrow> Aes256GcmCipher \<Rightarrow> bytes \<Rightarrow> bytes \<Rightarrow> (bytes, AesError) result" where
  "aes_encrypt X c plaintext nonce_bytes =
     (case gcm_encrypt X (ac_key c) nonce_bytes plaintext of
        None \<Rightarrow> Err EncryptionFailed
      | Some ciphertext \<Rightarrow> Ok (nonce_bytes @ ciphertext))"

definition aes_encrypt_with_nonce ::
  "aead_ext \<Rightarrow> Aes256GcmCipher \<Rightarrow> bytes \<Rightarrow> bytes \<Rightarrow> (bytes, AesError) result" where
  "aes_encrypt_with_nonce X c nonce plaintext =
     (case gcm_encrypt X (ac_key c) nonce plaintext of
        None \<Rightarrow> Err EncryptionFailed | Some ct \<Rightarrow> Ok ct)"

definition aes_decrypt :: "aead_ext \<Rightarrow> Aes256GcmCipher \<Rightarrow> bytes \<Rightarrow> (bytes, AesError) result" where
  "aes_decrypt X c data =
     (if length data < 12 then Err CiphertextTooShort
      else let nonce_bytes = take 12 data; ciphertext = drop 12 data in
        case gcm_decrypt X (ac_key c) nonce_bytes ciphertext of
          None \<Rightarrow> Err DecryptionFailed | Some p \<Rightarrow> Ok p)"

definition aes_decrypt_with_nonce ::
  "aead_ext \<Rightarrow> Aes256GcmCipher \<Rightarrow> bytes \<Rightarrow> bytes \<Rightarrow> (bytes, AesError) result" where
  "aes_decrypt_with_nonce X c nonce ciphertext =
     (case gcm_decrypt X (ac_key c) nonce ciphertext of
        None \<Rightarrow> Err DecryptionFailed | Some p \<Rightarrow> Ok p)"

text \<open>Authenticated encryption: a sealed message opens under the key and nonce it was sealed with, to
  the message that was sealed.\<close>

definition aead_ok :: "aead_ext \<Rightarrow> bool" where
  "aead_ok X \<longleftrightarrow>
     (\<forall>k n p c. gcm_encrypt X k n p = Some c \<longrightarrow> gcm_decrypt X k n c = Some p)"

definition derive_aes_key :: "(bytes \<Rightarrow> bytes) \<Rightarrow> bytes \<Rightarrow> bytes" where
  "derive_aes_key sha256 shared_secret = sha256 (ascii ''APFSDS-AES-KEY-DERIVE'' @ shared_secret)"

section \<open>Key pairs\<close>

datatype KeyError =
    InvalidKeyLength nat nat
  | SignatureVerificationFailed
  | InvalidSignatureFormat
  | KeyDeserializationFailed string
  | KeySerializationFailed string

text \<open>Ed25519: a signing key is its 32 bytes.\<close>

record ed25519_ext =
  ed_public :: "bytes \<Rightarrow> bytes"
  ed_sign :: "bytes \<Rightarrow> bytes \<Rightarrow> bytes"
  ed_valid_pk :: "bytes \<Rightarrow> bool"
  ed_verify :: "bytes \<Rightarrow> bytes \<Rightarrow> bytes \<Rightarrow> bool"

record Ed25519KeyPair =
  ed_signing_key :: bytes

definition ed_from_secret :: "bytes \<Rightarrow> Ed25519KeyPair" where
  "ed_from_secret secret = \<lparr>ed_signing_key = secret\<rparr>"

definition ed_generate :: "bytes \<Rightarrow> Ed25519KeyPair" where
  "ed_generate random = \<lparr>ed_signing_key = random\<rparr>"

definition ed_public_key :: "ed25519_ext \<Rightarrow> Ed25519KeyPair \<Rightarrow> bytes" where
  "ed_public_key X kp = ed_public X (ed_signing_key kp)"

definition ed_secret_key :: "Ed25519KeyPair \<Rightarrow> bytes" where
  "ed_secret_key kp = ed_signing_key kp"

definition ed_sign_message :: "ed25519_ext \<Rightarrow> Ed25519KeyPair \<Rightarrow> bytes \<Rightarrow> bytes" where
  "ed_sign_message X kp message = ed_sign X (ed_signing_key kp) message"

definition ed_verify_with_pk ::
  "ed25519_ext \<Rightarrow> bytes \<Rightarrow> bytes \<Rightarrow> bytes \<Rightarrow> (unit, KeyError) result" where
  "ed_verify_with_pk X pk message signature =
     (if \<not> ed_valid_pk X pk then Err (InvalidKeyLength 32 (length pk))
      else if ed_verify X pk message signature then Ok () else Err SignatureVerificationFailed)"

text \<open>ML-DSA-65: the key pair is an abstract value \<open>'k\<close> expanded from a 32-byte seed; the sizes are
  those of the library's \<^verbatim>\<open>EncodedVerifyingKey\<close> and \<^verbatim>\<open>EncodedSignature\<close> array types.\<close>

record ('k, 's) mldsa_ext =
  dsa_from_seed :: "bytes \<Rightarrow> 'k"
  dsa_to_seed :: "'k \<Rightarrow> bytes"
  dsa_public :: "'k \<Rightarrow> bytes"
  dsa_sign :: "'k \<Rightarrow> bytes \<Rightarrow> bytes"
  dsa_decode_sig :: "bytes \<Rightarrow> 's option"
  dsa_verify :: "bytes \<Rightarrow> bytes \<Rightarrow> 's \<Rightarrow> bool"
  dsa_pk_size :: nat
  dsa_sig_size :: nat

record 'k MlDsa65KeyPair =
  ml_keypair :: 'k

definition mldsa_generate :: "('k, 's) mldsa_ext \<Rightarrow> bytes \<Rightarrow> 'k MlDsa65KeyPair" where
  "mldsa_generate X seed = \<lparr>ml_keypair = dsa_from_seed X seed\<rparr>"

definition mldsa_from_secret ::
  "('k, 's) mldsa_ext \<Rightarrow> bytes \<Rightarrow> ('k MlDsa65KeyPair, KeyError) result" where
  "mldsa_from_secret X secret_bytes =
     (if length secret_bytes \<noteq> 32 then Err (InvalidKeyLength 32 (length secret_bytes))
      else Ok \<lparr>ml_keypair = dsa_from_seed X secret_bytes\<rparr>)"

definition mldsa_public_key :: "('k, 's) mldsa_ext \<Rightarrow> 'k MlDsa65KeyPair \<Rightarrow> bytes" where
  "mldsa_public_key X kp = dsa_public X (ml_keypair kp)"

definition mldsa_secret_key :: "('k, 's) mldsa_ext \<Rightarrow> 'k MlDsa65KeyPair \<Rightarrow> bytes" where
  "mldsa_secret_key X kp = dsa_to_seed X (ml_keypair kp)"

definition mldsa_sign :: "('k, 's) mldsa_ext \<Rightarrow> 'k MlDsa65KeyPair \<Rightarrow> bytes \<Rightarrow> bytes" where
  "mldsa_sign X kp message = dsa_sign X (ml_keypair kp) message"

definition mldsa_verify_with_pk ::
  "('k, 's) mldsa_ext \<Rightarrow> bytes \<Rightarrow> bytes \<Rightarrow> bytes \<Rightarrow> (unit, KeyError) result" where
  "mldsa_verify_with_pk X pk_bytes message signature =
     (if length pk_bytes \<noteq> dsa_pk_size X then Err (InvalidKeyLength 1952 (length pk_bytes))
      else if length signature \<noteq> dsa_sig_size X then Err (InvalidKeyLength 3309 (length signature))
      else case dsa_decode_sig X signature of
          None \<Rightarrow> Err InvalidSignatureFormat
        | Some sig \<Rightarrow> if dsa_verify X pk_bytes message sig then Ok () else Err SignatureVerificationFailed)"

text \<open>FIPS 204: the sizes of ML-DSA-65, and that a signature made with a key verifies under it.\<close>

definition mldsa_ok :: "('k, 's) mldsa_ext \<Rightarrow> bool" where
  "mldsa_ok X \<longleftrightarrow> dsa_pk_size X = 1952 \<and> dsa_sig_size X = 3309 \<and>
     (\<forall>k. length (dsa_public X k) = 1952) \<and> (\<forall>k m. length (dsa_sign X k m) = 3309) \<and>
     (\<forall>k m. \<exists>s. dsa_decode_sig X (dsa_sign X k m) = Some s \<and> dsa_verify X (dsa_public X k) m s) \<and>
     (\<forall>seed. length seed = 32 \<longrightarrow> dsa_to_seed X (dsa_from_seed X seed) = seed)"

text \<open>X25519: the public point of a secret and the shared point.\<close>

record x25519_ext =
  x_public :: "bytes \<Rightarrow> bytes"
  x_shared :: "bytes \<Rightarrow> bytes \<Rightarrow> bytes"

record X25519KeyPair =
  x_secret_key :: bytes
  x_public_key :: bytes

definition x_from_secret :: "x25519_ext \<Rightarrow> bytes \<Rightarrow> X25519KeyPair" where
  "x_from_secret X secret_bytes = \<lparr>x_secret_key = secret_bytes, x_public_key = x_public X secret_bytes\<rparr>"

definition x_generate :: "x25519_ext \<Rightarrow> bytes \<Rightarrow> X25519KeyPair" where
  "x_generate X random = \<lparr>x_secret_key = random, x_public_key = x_public X random\<rparr>"

definition x_public_key_of :: "X25519KeyPair \<Rightarrow> bytes" where
  "x_public_key_of kp = x_public_key kp"

definition diffie_hellman :: "x25519_ext \<Rightarrow> X25519KeyPair \<Rightarrow> bytes \<Rightarrow> bytes" where
  "diffie_hellman X kp their_public = x_shared X (x_secret_key kp) their_public"

definition x25519_ok :: "x25519_ext \<Rightarrow> bool" where
  "x25519_ok X \<longleftrightarrow> (\<forall>a b. x_shared X a (x_public X b) = x_shared X b (x_public X a))"

text \<open>ML-KEM-768.\<close>

record mlkem_ext =
  kem_encaps :: "bytes \<Rightarrow> bytes \<Rightarrow> (bytes \<times> bytes, string) result"
  kem_decaps :: "bytes \<Rightarrow> bytes \<Rightarrow> (bytes, string) result"
  kem_ek_size :: nat
  kem_dk_size :: nat
  kem_ct_size :: nat

record MlKem768KeyPair =
  kem_secret_key :: bytes
  kem_public_key :: bytes

definition kem_generate :: "bytes \<times> bytes \<Rightarrow> MlKem768KeyPair" where
  "kem_generate generated =
     \<lparr>kem_secret_key = fst generated, kem_public_key = snd generated\<rparr>"

definition kem_public_key_of :: "MlKem768KeyPair \<Rightarrow> bytes" where
  "kem_public_key_of kp = kem_public_key kp"

definition kem_secret_key_of :: "MlKem768KeyPair \<Rightarrow> bytes" where
  "kem_secret_key_of kp = kem_secret_key kp"

definition encapsulate ::
  "mlkem_ext \<Rightarrow> bytes \<Rightarrow> bytes \<Rightarrow> (bytes \<times> bytes, KeyError) result" where
  "encapsulate X their_public_key random =
     (if length their_public_key \<noteq> kem_ek_size X
      then Err (InvalidKeyLength 1184 (length their_public_key))
      else case kem_encaps X their_public_key random of
          Err e \<Rightarrow> Err (KeySerializationFailed e)
        | Ok (ct, shared_secret) \<Rightarrow> Ok (shared_secret, ct))"

definition decapsulate :: "mlkem_ext \<Rightarrow> MlKem768KeyPair \<Rightarrow> bytes \<Rightarrow> (bytes, KeyError) result" where
  "decapsulate X kp ciphertext =
     (if length (kem_secret_key kp) \<noteq> kem_dk_size X
      then Err (InvalidKeyLength 2400 (length (kem_secret_key kp)))
      else if length ciphertext \<noteq> kem_ct_size X
      then Err (InvalidKeyLength 1088 (length ciphertext))
      else case kem_decaps X (kem_secret_key kp) ciphertext of
          Err e \<Rightarrow> Err (KeyDeserializationFailed e)
        | Ok shared_secret \<Rightarrow> Ok shared_secret)"

text \<open>FIPS 203: sizes, and that a matching decapsulation key recovers the shared secret.\<close>

definition mlkem_ok :: "mlkem_ext \<Rightarrow> (bytes \<times> bytes) set \<Rightarrow> bool" where
  "mlkem_ok X pairs \<longleftrightarrow> kem_ek_size X = 1184 \<and> kem_dk_size X = 2400 \<and> kem_ct_size X = 1088 \<and>
     (\<forall>(dk, ek) \<in> pairs. length dk = 2400 \<and> length ek = 1184 \<and>
        (\<forall>r. \<exists>ct ss. kem_encaps X ek r = Ok (ct, ss) \<and> length ct = 1088 \<and> kem_decaps X dk ct = Ok ss))"

section \<open>Constant-time comparison is equality\<close>

lemma fold_or_zero:
  "fold (\<lambda>i res. res OR f i) xs (acc :: u8) = 0 \<longleftrightarrow> acc = 0 \<and> (\<forall>i\<in>set xs. f i = 0)"
  by (induction xs arbitrary: acc) (auto simp: or_eq_0_iff)

lemma xor_eq_zero: "(a :: u8) XOR b = 0 \<longleftrightarrow> a = b"
proof
  assume "a XOR b = 0"
  then have "(a XOR b) XOR b = 0 XOR b" by (rule arg_cong)
  then show "a = b" by (simp only: xor.assoc xor_self_eq xor.right_neutral xor.left_neutral)
qed (simp only: xor_self_eq)

lemma constant_time_compare_eq:
  assumes "length a = 32" "length b = 32"
  shows "constant_time_compare a b \<longleftrightarrow> a = b"
proof -
  have "constant_time_compare a b \<longleftrightarrow> (\<forall>i<32. a ! i = b ! i)"
    by (auto simp: constant_time_compare_def fold_or_zero xor_eq_zero)
  also have "\<dots> \<longleftrightarrow> a = b"
    using assms by (auto simp: list_eq_iff_nth_eq)
  finally show ?thesis .
qed

lemma mac_length: "mac_ok mac \<Longrightarrow> length (mac k d) = 32"
  by (simp add: mac_ok_def)

lemma verify_with_timestamp_iff:
  "mac_ok mac \<Longrightarrow> length expected = 32 \<Longrightarrow>
     verify_with_timestamp mac a data ts expected = Ok () \<longleftrightarrow>
     expected = mac (ha_secret a) (data @ u64_to_le ts)"
  by (auto simp: verify_with_timestamp_def hmac_compute_with_timestamp_def mac_length
      constant_time_compare_eq)

lemma append_u64_inject: "d @ u64_to_le t = d' @ u64_to_le t' \<longleftrightarrow> d = d' \<and> t = t'"
  by auto

section \<open>Signatures and key agreement\<close>

lemma mldsa_sign_verify:
  assumes "mldsa_ok X"
  shows "mldsa_verify_with_pk X (mldsa_public_key X kp) m (mldsa_sign X kp m) = Ok ()"
proof -
  obtain s where "dsa_decode_sig X (dsa_sign X (ml_keypair kp) m) = Some s"
    "dsa_verify X (dsa_public X (ml_keypair kp)) m s"
    using assms unfolding mldsa_ok_def by blast
  with assms show ?thesis
    by (simp add: mldsa_verify_with_pk_def mldsa_public_key_def mldsa_sign_def mldsa_ok_def)
qed

lemma mldsa_verify_wrong_size:
  "mldsa_ok X \<Longrightarrow> length signature \<noteq> 3309 \<Longrightarrow>
     \<exists>e. mldsa_verify_with_pk X pk m signature = Err e"
  by (simp add: mldsa_verify_with_pk_def mldsa_ok_def)

lemma diffie_hellman_agree:
  "x25519_ok X \<Longrightarrow> diffie_hellman X (x_from_secret X a) (x_public_key (x_from_secret X b)) =
     diffie_hellman X (x_from_secret X b) (x_public_key (x_from_secret X a))"
  by (simp add: x25519_ok_def diffie_hellman_def x_from_secret_def)

lemma decapsulate_encapsulate:
  assumes "mlkem_ok X pairs" "(dk, ek) \<in> pairs"
  obtains ss ct where "encapsulate X ek r = Ok (ss, ct)"
    "decapsulate X (kem_generate (dk, ek)) ct = Ok ss"
proof -
  from assms obtain ct ss where "length dk = 2400" "length ek = 1184"
    "kem_encaps X ek r = Ok (ct, ss)" "length ct = 1088" "kem_decaps X dk ct = Ok ss"
    unfolding mlkem_ok_def by blast
  with assms(1) show ?thesis
    by (intro that) (auto simp: mlkem_ok_def encapsulate_def decapsulate_def kem_generate_def)
qed

section \<open>Properties\<close>

text \<open>The bytewise comparison, which never leaves its loop early, decides equality: a request
  signature is accepted if and only if it is the HMAC, under the server's secret, of the request
  data followed by the eight little-endian bytes of the timestamp.\<close>

theorem hmac_timestamp_sound_complete:
  assumes "mac_ok mac" and "length expected = 32"
  shows "verify_with_timestamp mac (hmac_new secret) data timestamp expected =
    (if expected = mac secret (data @ u64_to_le timestamp) then Ok () else Err VerificationFailed)"
  using assms mac_length [OF assms(1)]
  by (auto simp: verify_with_timestamp_def hmac_compute_with_timestamp_def hmac_new_def
      constant_time_compare_eq)

text \<open>What the cipher seals it opens again: with a 12-byte nonce, decrypting the output of
  \<^verbatim>\<open>encrypt\<close> gives back the plaintext, and data shorter than a nonce is refused before the
  library is called.\<close>

theorem aes_roundtrip:
  assumes "aead_ok X" and "length nonce = 12" and "aes_encrypt X (aes_new key) plaintext nonce = Ok sealed"
  shows "aes_decrypt X (aes_new key) sealed = Ok plaintext \<and> take 12 sealed = nonce \<and>
    (\<forall>n<12. aes_decrypt X (aes_new key) (take n sealed) = Err CiphertextTooShort)"
  using assms
  by (auto simp: aes_encrypt_def aes_decrypt_def aes_new_def aead_ok_def split: option.splits)

section \<open>The assumptions can hold\<close>

text \<open>Ciphers, key agreement and encapsulation with the properties assumed, and no secrecy.\<close>

lemma crypto_instances:
  "mac_ok (\<lambda>k d. replicate 32 0)"
  "aead_ok \<lparr>gcm_encrypt = \<lambda>k n p. Some p, gcm_decrypt = \<lambda>k n c. Some c\<rparr>"
  "x25519_ok \<lparr>x_public = \<lambda>a. a, x_shared = \<lambda>a b. map2 (XOR) a b\<rparr>"
  "mlkem_ok \<lparr>kem_encaps = \<lambda>ek r. Ok (replicate 1088 7, [9]), kem_decaps = \<lambda>dk ct. Ok [9], kem_ek_size = 1184,
     kem_dk_size = 2400, kem_ct_size = 1088\<rparr> {(replicate 2400 1, replicate 1184 2)}"
proof -
  have "map2 (XOR) a b = map2 (XOR) b (a :: bytes)" for a b
    by (induction a b rule: list_induct2') (simp_all add: xor.commute)
  then show "x25519_ok \<lparr>x_public = \<lambda>a. a, x_shared = \<lambda>a b. map2 (XOR) a b\<rparr>" by (simp add: x25519_ok_def)
qed (simp_all add: mac_ok_def aead_ok_def mlkem_ok_def)

end
