(* ===== verification/Key_Rotation.thy ===== *)
theory Key_Rotation
  imports Crypto
begin

text \<open>
  Rotation of the server's signing key with a grace period, \<^verbatim>\<open>daemon/src/key_rotation.rs\<close>. Readings of the
  monotonic clock, in milliseconds, and generated secrets are arguments; the locks make every
  operation atomic. The reference it is compared with keeps the last two keys and never cleans up.
\<close>

section \<open>State and operations\<close>

record KeyRotationConfig =
  kc_rotation_interval :: nat
  kc_grace_period :: nat

definition key_rotation_config_default :: KeyRotationConfig where
  "key_rotation_config_default = \<lparr>kc_rotation_interval = 604800000, kc_grace_period = 600000\<rparr>"

record KeyEntry =
  ke_keypair :: Ed25519KeyPair
  ke_created_at :: nat
  ke_expires_at :: "nat option"

record KeyManager =
  km_current :: KeyEntry
  km_previous :: "KeyEntry option"
  km_config :: KeyRotationConfig
  km_force_rotation :: bool

definition km_new :: "KeyRotationConfig \<Rightarrow> bytes \<Rightarrow> nat \<Rightarrow> KeyManager" where
  "km_new config random now =
     \<lparr>km_current = \<lparr>ke_keypair = ed_generate random, ke_created_at = now, ke_expires_at = None\<rparr>,
      km_previous = None, km_config = config, km_force_rotation = False\<rparr>"

definition km_with_secret :: "bytes \<Rightarrow> KeyRotationConfig \<Rightarrow> nat \<Rightarrow> KeyManager" where
  "km_with_secret secret config now =
     \<lparr>km_current = \<lparr>ke_keypair = ed_from_secret secret, ke_created_at = now, ke_expires_at = None\<rparr>,
      km_previous = None, km_config = config, km_force_rotation = False\<rparr>"

definition km_public_key :: "ed25519_ext \<Rightarrow> KeyManager \<Rightarrow> bytes" where
  "km_public_key X k = ed_public_key X (ke_keypair (km_current k))"

definition km_sign :: "ed25519_ext \<Rightarrow> KeyManager \<Rightarrow> bytes \<Rightarrow> bytes" where
  "km_sign X k message = ed_sign_message X (ke_keypair (km_current k)) message"

definition km_verify :: "ed25519_ext \<Rightarrow> KeyManager \<Rightarrow> bytes \<Rightarrow> bytes \<Rightarrow> nat \<Rightarrow> bool" where
  "km_verify X k message signature now =
     (if is_ok (ed_verify_with_pk X (ed_public_key X (ke_keypair (km_current k))) message signature) then True
      else case km_previous k of
          None \<Rightarrow> False
        | Some prev \<Rightarrow>
            if (case ke_expires_at prev of None \<Rightarrow> False | Some e \<Rightarrow> now < e)
            then is_ok (ed_verify_with_pk X (ed_public_key X (ke_keypair prev)) message signature)
            else False)"

definition should_rotate :: "KeyManager \<Rightarrow> nat \<Rightarrow> bool" where
  "should_rotate k now \<longleftrightarrow>
     (if km_force_rotation k then True
      else now - ke_created_at (km_current k) \<ge> kc_rotation_interval (km_config k))"

definition force_rotate :: "KeyManager \<Rightarrow> KeyManager" where
  "force_rotate k = k\<lparr>km_force_rotation := True\<rparr>"

text \<open>\<open>now\<close> is the clock when the old key's expiry is set, \<open>now'\<close> when the new key is made.\<close>

definition rotate_key :: "ed25519_ext \<Rightarrow> KeyManager \<Rightarrow> bytes \<Rightarrow> nat \<Rightarrow> nat \<Rightarrow> bytes \<times> KeyManager" where
  "rotate_key X k random now now' =
     (let current = km_current k;
          old_entry = \<lparr>ke_keypair = ed_from_secret (ed_secret_key (ke_keypair current)),
                       ke_created_at = ke_created_at current,
                       ke_expires_at = Some (now + kc_grace_period (km_config k))\<rparr>;
          new_keypair = ed_generate random;
          new_pk = ed_public_key X new_keypair in
      (new_pk, k\<lparr>km_current := \<lparr>ke_keypair = new_keypair, ke_created_at = now', ke_expires_at = None\<rparr>,
                 km_previous := Some old_entry, km_force_rotation := False\<rparr>))"

definition km_cleanup :: "KeyManager \<Rightarrow> nat \<Rightarrow> KeyManager" where
  "km_cleanup k now =
     (case km_previous k of
        None \<Rightarrow> k
      | Some prev \<Rightarrow>
          if (case ke_expires_at prev of None \<Rightarrow> True | Some e \<Rightarrow> now \<ge> e)
          then k\<lparr>km_previous := None\<rparr> else k)"

record KeyRotationStatus =
  ks_current_pk :: bytes
  ks_current_age_secs :: nat
  ks_next_rotation_secs :: nat
  ks_in_grace_period :: bool
  ks_grace_remaining_secs :: "nat option"

definition km_status :: "ed25519_ext \<Rightarrow> KeyManager \<Rightarrow> nat \<Rightarrow> KeyRotationStatus" where
  "km_status X k now =
     \<lparr>ks_current_pk = ed_public_key X (ke_keypair (km_current k)),
      ks_current_age_secs = (now - ke_created_at (km_current k)) div 1000,
      ks_next_rotation_secs =
        (kc_rotation_interval (km_config k) - (now - ke_created_at (km_current k))) div 1000,
      ks_in_grace_period = (km_previous k \<noteq> None),
      ks_grace_remaining_secs =
        map_option (\<lambda>e. (e - now) div 1000) (Option.bind (km_previous k) ke_expires_at)\<rparr>"

section \<open>Runs and the reference\<close>

datatype km_op = RotateKey bytes nat | ForceRotate | CleanupKey nat

primrec km_op_time :: "km_op \<Rightarrow> nat" where
  "km_op_time (RotateKey r t) = t"
| "km_op_time ForceRotate = 0"
| "km_op_time (CleanupKey t) = t"

fun km_step :: "ed25519_ext \<Rightarrow> KeyManager \<Rightarrow> km_op \<Rightarrow> KeyManager" where
  "km_step X k (RotateKey r t) = snd (rotate_key X k r t t)"
| "km_step X k ForceRotate = force_rotate k"
| "km_step X k (CleanupKey t) = km_cleanup k t"

text \<open>The reference: the current secret, and the one before it with the time of the rotation.\<close>

fun ideal_keys :: "bytes \<times> (bytes \<times> nat) option \<Rightarrow> km_op \<Rightarrow> bytes \<times> (bytes \<times> nat) option" where
  "ideal_keys (cur, prev) (RotateKey r t) = (r, Some (cur, t))"
| "ideal_keys st ForceRotate = st"
| "ideal_keys st (CleanupKey t) = st"

definition verifies :: "ed25519_ext \<Rightarrow> bytes \<Rightarrow> bytes \<Rightarrow> bytes \<Rightarrow> bool" where
  "verifies X secret message signature \<longleftrightarrow> is_ok (ed_verify_with_pk X (ed_public X secret) message signature)"

definition ideal_verify ::
  "ed25519_ext \<Rightarrow> nat \<Rightarrow> bytes \<times> (bytes \<times> nat) option \<Rightarrow> bytes \<Rightarrow> bytes \<Rightarrow> nat \<Rightarrow> bool" where
  "ideal_verify X grace st message signature now \<longleftrightarrow>
     verifies X (fst st) message signature \<or>
     (\<exists>secret t. snd st = Some (secret, t) \<and> now < t + grace \<and> verifies X secret message signature)"

definition km_rel :: "nat \<Rightarrow> KeyManager \<Rightarrow> bytes \<times> (bytes \<times> nat) option \<Rightarrow> bool" where
  "km_rel now k st \<longleftrightarrow> ed_signing_key (ke_keypair (km_current k)) = fst st \<and>
     (case snd st of
        None \<Rightarrow> km_previous k = None
      | Some (secret, t) \<Rightarrow>
          (case km_previous k of
             None \<Rightarrow> t + kc_grace_period (km_config k) \<le> now
           | Some prev \<Rightarrow> ed_signing_key (ke_keypair prev) = secret \<and>
               ke_expires_at prev = Some (t + kc_grace_period (km_config k))))"

lemma km_step_config: "km_config (km_step X k op) = km_config k"
  by (cases op) (auto simp: rotate_key_def force_rotate_def km_cleanup_def Let_def split: option.splits)

lemma km_run_config: "km_config (foldl (km_step X) k ops) = km_config k"
  by (induction ops arbitrary: k) (simp_all add: km_step_config)

lemma km_rel_step:
  "km_rel now k st \<Longrightarrow> km_op_time op \<le> now \<Longrightarrow> km_rel now (km_step X k op) (ideal_keys st op)"
  by (cases op; cases st)
    (auto simp: km_rel_def rotate_key_def force_rotate_def km_cleanup_def ed_generate_def ed_from_secret_def
      ed_secret_key_def Let_def split: option.splits)

lemma km_rel_run:
  "km_rel now k st \<Longrightarrow> \<forall>op\<in>set ops. km_op_time op \<le> now \<Longrightarrow>
     km_rel now (foldl (km_step X) k ops) (foldl ideal_keys st ops)"
  by (induction ops arbitrary: k st) (simp_all add: km_rel_step)

lemma km_rel_verify:
  assumes "km_rel now k st"
  shows "km_verify X k message signature now \<longleftrightarrow>
     ideal_verify X (kc_grace_period (km_config k)) st message signature now"
proof (cases "snd st")
  case None
  with assms show ?thesis
    by (simp add: km_rel_def km_verify_def ideal_verify_def verifies_def ed_public_key_def)
next
  case (Some p)
  obtain secret t where p: "p = (secret, t)" by (cases p)
  with Some assms show ?thesis
    by (cases "km_previous k") (auto simp: km_rel_def km_verify_def ideal_verify_def verifies_def ed_public_key_def)
qed

section \<open>Properties\<close>

text \<open>C18. Whatever rotations, forced or scheduled, and clean-ups have been made, a signature verifies
  exactly when the current key verifies it, or the key before it does and its rotation is less
  than the grace period ago: clean-ups never remove a key too early, and of two rotations within
  one grace period the first key is dropped at once.\<close>

theorem rotation_grace:
  assumes "\<forall>op\<in>set ops. km_op_time op \<le> now"
  shows "km_verify X (foldl (km_step X) (km_with_secret secret config start) ops) message signature now \<longleftrightarrow>
    ideal_verify X (kc_grace_period config) (foldl ideal_keys (secret, None) ops) message signature now"
proof -
  let ?k = "km_with_secret secret config start"
  have "km_rel now ?k (secret, None)"
    by (simp add: km_rel_def km_with_secret_def ed_from_secret_def)
  then have "km_rel now (foldl (km_step X) ?k ops) (foldl ideal_keys (secret, None) ops)"
    using assms by (rule km_rel_run)
  then show ?thesis
    using km_rel_verify [of now "foldl (km_step X) ?k ops" "foldl ideal_keys (secret, None) ops" X message signature]
    by (simp add: km_run_config km_with_secret_def)
qed

text \<open>An instance in which a signature is the secret.\<close>

definition demo_ed :: ed25519_ext where
  "demo_ed = \<lparr>ed_public = \<lambda>s. s, ed_sign = \<lambda>s m. s, ed_valid_pk = \<lambda>_. True, ed_verify = \<lambda>pk m s. s = pk\<rparr>"

theorem rotation_grace_witness:
  "let k = foldl (km_step demo_ed) (km_with_secret [1] \<lparr>kc_rotation_interval = 100, kc_grace_period = 50\<rparr> 0)
         [ForceRotate, RotateKey [2] 10, CleanupKey 40] in
   km_verify demo_ed k [] [1] 59 \<and> \<not> km_verify demo_ed k [] [1] 60 \<and> km_verify demo_ed k [] [2] 60"
  unfolding Let_def
  by (subst (1 2 3) rotation_grace)
    (simp_all add: ideal_verify_def verifies_def demo_ed_def ed_verify_with_pk_def)

end
