(* ===== verification/Replay_Cache.thy ===== *)
theory Replay_Cache
  imports Apfsds_Prelude
begin

text \<open>
  The replay caches of \<^verbatim>\<open>crates/crypto/src/replay.rs\<close>: \<^verbatim>\<open>ReplayCache\<close> on 32-byte nonces and
  \<^verbatim>\<open>UuidReplayCache\<close> on 16-byte identifiers. \<^verbatim>\<open>Instant\<close> and \<^verbatim>\<open>Duration\<close> are natural numbers; the
  reading of \<^verbatim>\<open>Instant::now\<close> is the acc argument of each operation.
  The contract both caches promise is the locale \<open>replay_guard\<close>: proved against it once, every
  run of checks and clean-ups accepts exactly what a reference cache that never forgets
  accepts. The interpretations \<open>nonce_guard\<close> and \<open>uuid_guard\<close> discharge the contract for the code.
  The last part splits \<^verbatim>\<open>check_and_insert\<close> into its two map accesses and lets threads interleave.
\<close>

section \<open>The nonce cache\<close>

record ReplayCache =
  rc_seen :: "(bytes, nat) dmap"
  rc_ttl :: nat

definition rc_new :: "nat \<Rightarrow> ReplayCache" where
  "rc_new ttl = \<lparr>rc_seen = dempty, rc_ttl = ttl\<rparr>"

definition rc_check_and_insert :: "ReplayCache \<Rightarrow> bytes \<Rightarrow> nat \<Rightarrow> bool \<times> ReplayCache" where
  "rc_check_and_insert c nonce now =
     (let expiry = now + rc_ttl c;
          insert_new = (True, c\<lparr>rc_seen := dinsert nonce expiry (rc_seen c)\<rparr>) in
      case dget (rc_seen c) nonce of
        Some existing \<Rightarrow> if existing > now then (False, c) else insert_new
      | None \<Rightarrow> insert_new)"

definition rc_contains :: "ReplayCache \<Rightarrow> bytes \<Rightarrow> nat \<Rightarrow> bool" where
  "rc_contains c nonce now =
     (case dget (rc_seen c) nonce of Some expiry \<Rightarrow> expiry > now | None \<Rightarrow> False)"

definition rc_cleanup :: "ReplayCache \<Rightarrow> nat \<Rightarrow> ReplayCache" where
  "rc_cleanup c now = c\<lparr>rc_seen := dretain (\<lambda>_ expiry. expiry > now) (rc_seen c)\<rparr>"

definition rc_len :: "ReplayCache \<Rightarrow> nat" where
  "rc_len c = dlen (rc_seen c)"

definition rc_is_empty :: "ReplayCache \<Rightarrow> bool" where
  "rc_is_empty c \<longleftrightarrow> dlen (rc_seen c) = 0"

definition rc_clear :: "ReplayCache \<Rightarrow> ReplayCache" where
  "rc_clear c = c\<lparr>rc_seen := dempty\<rparr>"

section \<open>The identifier cache\<close>

record UuidReplayCache =
  uc_seen :: "(bytes, nat) dmap"
  uc_ttl :: nat

definition uc_new :: "nat \<Rightarrow> UuidReplayCache" where
  "uc_new ttl = \<lparr>uc_seen = dempty, uc_ttl = ttl\<rparr>"

definition uc_check_and_insert :: "UuidReplayCache \<Rightarrow> bytes \<Rightarrow> nat \<Rightarrow> bool \<times> UuidReplayCache" where
  "uc_check_and_insert c uuid now =
     (let expiry = now + uc_ttl c;
          insert_new = (True, c\<lparr>uc_seen := dinsert uuid expiry (uc_seen c)\<rparr>) in
      case dget (uc_seen c) uuid of
        Some existing \<Rightarrow> if existing > now then (False, c) else insert_new
      | None \<Rightarrow> insert_new)"

definition uc_cleanup :: "UuidReplayCache \<Rightarrow> nat \<Rightarrow> UuidReplayCache" where
  "uc_cleanup c now = c\<lparr>uc_seen := dretain (\<lambda>_ expiry. expiry > now) (uc_seen c)\<rparr>"

definition uc_len :: "UuidReplayCache \<Rightarrow> nat" where
  "uc_len c = dlen (uc_seen c)"

definition uc_is_empty :: "UuidReplayCache \<Rightarrow> bool" where
  "uc_is_empty c \<longleftrightarrow> dlen (uc_seen c) = 0"

section \<open>Runs of a cache and the reference\<close>

datatype replay_op = Check bytes nat | Cleanup nat

primrec op_time :: "replay_op \<Rightarrow> nat" where
  "op_time (Check _ t) = t"
| "op_time (Cleanup t) = t"

text \<open>\<open>run_guard\<close> is the list of acceptances, with their times, of a sequence of operations.\<close>

fun run_guard ::
  "('c \<Rightarrow> bytes \<Rightarrow> nat \<Rightarrow> bool \<times> 'c) \<Rightarrow> ('c \<Rightarrow> nat \<Rightarrow> 'c) \<Rightarrow> 'c \<Rightarrow> replay_op list \<Rightarrow> (bytes \<times> nat) list" where
  "run_guard check cleanup c [] = []"
| "run_guard check cleanup c (Check k t # ops) =
     (let (fresh, c') = check c k t in
      (if fresh then [(k, t)] else []) @ run_guard check cleanup c' ops)"
| "run_guard check cleanup c (Cleanup t # ops) = run_guard check cleanup (cleanup c t) ops"

text \<open>The reference remembers the time of the last acceptance of every key for ever.\<close>

fun ideal_run :: "nat \<Rightarrow> (bytes \<rightharpoonup> nat) \<Rightarrow> replay_op list \<Rightarrow> (bytes \<times> nat) list" where
  "ideal_run ttl acc [] = []"
| "ideal_run ttl acc (Check k t # ops) =
     (if (case acc k of None \<Rightarrow> True | Some s \<Rightarrow> s + ttl \<le> t)
      then (k, t) # ideal_run ttl (acc(k \<mapsto> t)) ops
      else ideal_run ttl acc ops)"
| "ideal_run ttl acc (Cleanup t # ops) = ideal_run ttl acc ops"

locale replay_guard =
  fixes blocked :: "'c \<Rightarrow> nat \<Rightarrow> bytes \<Rightarrow> bool"
    and check :: "'c \<Rightarrow> bytes \<Rightarrow> nat \<Rightarrow> bool \<times> 'c"
    and cleanup :: "'c \<Rightarrow> nat \<Rightarrow> 'c"
    and ttl :: "'c \<Rightarrow> nat"
    and wf :: "'c \<Rightarrow> bool"
  assumes check_verdict: "wf c \<Longrightarrow> fst (check c k now) = (\<not> blocked c now k)"
    and blocked_check: "wf c \<Longrightarrow> blocked (snd (check c k now)) t k' =
      (if k' = k \<and> \<not> blocked c now k then t < now + ttl c else blocked c t k')"
    and blocked_cleanup: "wf c \<Longrightarrow> now \<le> t \<Longrightarrow> blocked (cleanup c now) t k = blocked c t k"
    and ttl_check: "ttl (snd (check c k now)) = ttl c"
    and ttl_cleanup: "ttl (cleanup c now) = ttl c"
    and wf_check: "wf c \<Longrightarrow> wf (snd (check c k now))"
    and wf_cleanup: "wf c \<Longrightarrow> wf (cleanup c now)"
begin

lemma run_refines_from:
  assumes "wf c" and "sorted (t0 # map op_time ops)"
    and "\<And>k t. t0 \<le> t \<Longrightarrow> blocked c t k = (case acc k of None \<Rightarrow> False | Some s \<Rightarrow> t < s + ttl c)"
  shows "run_guard check cleanup c ops = ideal_run (ttl c) acc ops"
  using assms
proof (induction ops arbitrary: c t0 acc)
  case Nil
  then show ?case by simp
next
  case (Cons a ops)
  show ?case
  proof (cases a)
    case (Check k t)
    obtain fresh c' where c': "check c k t = (fresh, c')" by (cases "check c k t")
    have t: "t0 \<le> t" "sorted (t # map op_time ops)"
      using Cons.prems(2) Check by auto
    have fresh: "fresh = (\<not> blocked c t k)" and ttl': "ttl c' = ttl c" and wf': "wf c'"
      using check_verdict [of c k t] ttl_check [of c k t] wf_check [of c k t] Cons.prems(1) c'
      by simp_all
    have bl: "blocked c' s k' = (if k' = k \<and> \<not> blocked c t k then s < t + ttl c else blocked c s k')"
      for s k' using blocked_check [of c k t s k'] Cons.prems(1) c' by simp
    let ?acc = "if fresh then acc(k \<mapsto> t) else acc"
    have "run_guard check cleanup c' ops = ideal_run (ttl c') ?acc ops"
    proof (rule Cons.IH [OF wf' t(2)])
      fix k' s assume "t \<le> s"
      then show "blocked c' s k' = (case ?acc k' of None \<Rightarrow> False | Some r \<Rightarrow> s < r + ttl c')"
        using bl [of s k'] Cons.prems(3) [of s k'] t(1) fresh ttl' by (auto split: option.splits)
    qed
    moreover have "fresh = (case acc k of None \<Rightarrow> True | Some s \<Rightarrow> s + ttl c \<le> t)"
      using fresh Cons.prems(3) [OF t(1), of k] by (auto split: option.splits)
    ultimately show ?thesis
      using Check c' ttl' by auto
  next
    case (Cleanup t)
    then have "run_guard check cleanup (cleanup c t) ops = ideal_run (ttl (cleanup c t)) acc ops"
      using Cons.prems
      by (intro Cons.IH [of _ t]) (auto simp: wf_cleanup blocked_cleanup ttl_cleanup
          split: option.splits)
    then show ?thesis
      using Cleanup by (simp add: ttl_cleanup)
  qed
qed

lemma run_refines:
  assumes "wf c" and "\<And>t k. \<not> blocked c t k" and "sorted (map op_time ops)"
  shows "run_guard check cleanup c ops = ideal_run (ttl c) Map.empty ops"
  using assms by (intro run_refines_from [where ?t0.0 = 0]) simp_all

end

section \<open>The code meets the contract\<close>

definition rc_blocked :: "ReplayCache \<Rightarrow> nat \<Rightarrow> bytes \<Rightarrow> bool" where
  "rc_blocked c t k = rc_contains c k t"

definition uc_blocked :: "UuidReplayCache \<Rightarrow> nat \<Rightarrow> bytes \<Rightarrow> bool" where
  "uc_blocked c t k = (case dget (uc_seen c) k of Some expiry \<Rightarrow> expiry > t | None \<Rightarrow> False)"

lemmas rc_defs = rc_blocked_def rc_contains_def rc_check_and_insert_def rc_cleanup_def Let_def
lemmas uc_defs = uc_blocked_def uc_check_and_insert_def uc_cleanup_def Let_def

interpretation nonce_guard: replay_guard rc_blocked rc_check_and_insert rc_cleanup rc_ttl
  "\<lambda>c. dwf (rc_seen c)"
  by unfold_locales (auto simp: rc_defs dget_dretain split: option.splits)

interpretation uuid_guard: replay_guard uc_blocked uc_check_and_insert uc_cleanup uc_ttl
  "\<lambda>c. dwf (uc_seen c)"
  by unfold_locales (auto simp: uc_defs dget_dretain split: option.splits)

lemma dwf_rc_new [simp]: "dwf (rc_seen (rc_new ttl))"
  by (simp add: rc_new_def)

lemma dwf_uc_new [simp]: "dwf (uc_seen (uc_new ttl))"
  by (simp add: uc_new_def)

lemma rc_ttl_new [simp]: "rc_ttl (rc_new ttl) = ttl"
  by (simp add: rc_new_def)

lemma uc_ttl_new [simp]: "uc_ttl (uc_new ttl) = ttl"
  by (simp add: uc_new_def)

lemma rc_blocked_new [simp]: "\<not> rc_blocked (rc_new ttl) t k"
  by (simp add: rc_defs rc_new_def)

lemma uc_blocked_new [simp]: "\<not> uc_blocked (uc_new ttl) t k"
  by (simp add: uc_defs uc_new_def)

section \<open>The reference never accepts a key twice within its lifetime\<close>

lemma ideal_run_after:
  assumes "sorted (t0 # map op_time ops)" "(k, t) \<in> set (ideal_run ttl acc ops)"
  shows "t0 \<le> t \<and> (case acc k of None \<Rightarrow> True | Some s \<Rightarrow> s \<le> t0 \<longrightarrow> s + ttl \<le> t)"
  using assms
proof (induction ttl acc ops arbitrary: t0 rule: ideal_run.induct)
  case (1 ttl acc)
  then show ?case by simp
next
  case (2 ttl acc k' t' ops)
  have *: "t0 \<le> t'" "sorted (t' # map op_time ops)"
    using "2.prems"(1) by auto
  show ?case
  proof (cases "case acc k' of None \<Rightarrow> True | Some s \<Rightarrow> s + ttl \<le> t'")
    case True
    show ?thesis
    proof (cases "(k, t) = (k', t')")
      case same: True
      with True * show ?thesis by (auto split: option.splits)
    next
      case False
      with True "2.prems"(2) have "(k, t) \<in> set (ideal_run ttl (acc(k' \<mapsto> t')) ops)" by auto
      from "2.IH"(1) [OF True *(2) this] True * show ?thesis
        by (auto split: option.splits if_splits)
    qed
  next
    case False
    then show ?thesis
      using "2.prems"(2) "2.IH"(2) [OF False *(2)] * by (auto split: option.splits)
  qed
next
  case (3 ttl acc t' ops)
  then have "t' \<le> t \<and> (case acc k of None \<Rightarrow> True | Some s \<Rightarrow> s \<le> t' \<longrightarrow> s + ttl \<le> t)"
    by (intro "3.IH") auto
  then show ?case
    using "3.prems"(1) by (auto split: option.splits)
qed

lemma ideal_run_spaced:
  "sorted (map op_time ops) \<Longrightarrow>
   sorted_wrt (\<lambda>(k, s) (k', t). k = k' \<longrightarrow> s + ttl \<le> t) (ideal_run ttl acc ops)"
proof (induction ttl acc ops rule: ideal_run.induct)
  case (2 ttl acc k t ops)
  have *: "k = k' \<longrightarrow> t + ttl \<le> s'" if "(k', s') \<in> set (ideal_run ttl (acc(k \<mapsto> t)) ops)" for k' s'
    using ideal_run_after [of t ops k' s' ttl "acc(k \<mapsto> t)"] that "2.prems" by auto
  have ops: "sorted (map op_time ops)" using "2.prems" by auto
  show ?case
  proof (cases "case acc k of None \<Rightarrow> True | Some s \<Rightarrow> s + ttl \<le> t")
    case True
    with "2.IH"(1) [OF True ops] * show ?thesis
      by (simp only: ideal_run.simps if_True sorted_wrt.simps) fast
  next
    case False
    with "2.IH"(2) [OF False ops] show ?thesis by simp
  qed
qed auto

section \<open>Threads sharing a cache\<close>

text \<open>\<^verbatim>\<open>check_and_insert\<close> reads the map and, later, writes it; other threads may run in between.
  \<open>check_lookup\<close> is the first access (lines 26-34), \<open>check_store\<close> the second (line 37).\<close>

definition check_lookup :: "ReplayCache \<Rightarrow> bytes \<Rightarrow> nat \<Rightarrow> bool" where
  "check_lookup c nonce now =
     (case dget (rc_seen c) nonce of Some existing \<Rightarrow> existing > now | None \<Rightarrow> False)"

definition check_store :: "ReplayCache \<Rightarrow> bytes \<Rightarrow> nat \<Rightarrow> ReplayCache" where
  "check_store c nonce now = c\<lparr>rc_seen := dinsert nonce (now + rc_ttl c) (rc_seen c)\<rparr>"

datatype checker = Start | Looked nat | Accepted nat | Rejected

record race_state =
  rs_cache :: ReplayCache
  rs_clock :: nat
  rs_pc :: "nat \<Rightarrow> checker"

inductive race_step :: "bytes \<Rightarrow> race_state \<Rightarrow> race_state \<Rightarrow> bool" for nonce where
  look_hit: "rs_pc s i = Start \<Longrightarrow> check_lookup (rs_cache s) nonce (rs_clock s) \<Longrightarrow>
    race_step nonce s (s\<lparr>rs_pc := (rs_pc s)(i := Rejected)\<rparr>)"
| look_miss: "rs_pc s i = Start \<Longrightarrow> \<not> check_lookup (rs_cache s) nonce (rs_clock s) \<Longrightarrow>
    race_step nonce s (s\<lparr>rs_pc := (rs_pc s)(i := Looked (rs_clock s))\<rparr>)"
| store: "rs_pc s i = Looked now \<Longrightarrow>
    race_step nonce s (s\<lparr>rs_cache := check_store (rs_cache s) nonce now, rs_pc := (rs_pc s)(i := Accepted now)\<rparr>)"
| tick: "race_step nonce s (s\<lparr>rs_clock := rs_clock s + d\<rparr>)"

inductive_cases race_stepE: "race_step nonce s s'"

definition race_init :: "nat \<Rightarrow> race_state" where
  "race_init ttl = \<lparr>rs_cache = rc_new ttl, rs_clock = 0, rs_pc = (\<lambda>_. Start)\<rparr>"

definition race_reach :: "bytes \<Rightarrow> nat \<Rightarrow> race_state \<Rightarrow> bool" where
  "race_reach nonce ttl = reach ((=) (race_init ttl)) (race_step nonce)"

definition race_inv :: "bytes \<Rightarrow> race_state \<Rightarrow> bool" where
  "race_inv nonce s \<longleftrightarrow>
     (dget (rc_seen (rs_cache s)) nonce \<noteq> None \<longrightarrow> (\<exists>i now. rs_pc s i = Accepted now)) \<and>
     ((\<exists>i. rs_pc s i = Rejected) \<longrightarrow> (\<exists>i now. rs_pc s i = Accepted now))"

text \<open>Run back to back, the two accesses are \<^verbatim>\<open>check_and_insert\<close>.\<close>

lemma check_and_insert_split:
  "rc_check_and_insert c nonce now =
     (if check_lookup c nonce now then (False, c) else (True, check_store c nonce now))"
  by (simp add: rc_check_and_insert_def check_lookup_def check_store_def Let_def
      split: option.splits)

lemma race_step_inv: "race_step nonce s s' \<Longrightarrow> race_inv nonce s \<Longrightarrow> race_inv nonce s'"
proof (induction rule: race_step.induct)
  case (look_hit s i)
  then obtain j now where "rs_pc s j = Accepted now"
    by (auto simp: race_inv_def check_lookup_def split: option.splits)
  with look_hit have "rs_pc (s\<lparr>rs_pc := (rs_pc s)(i := Rejected)\<rparr>) j = Accepted now" by auto
  then show ?case unfolding race_inv_def by blast
next
  case (look_miss s i)
  then have "rs_pc s j = Accepted now \<Longrightarrow> j \<noteq> i" for j now by auto
  with look_miss show ?case by (auto simp: race_inv_def split: if_splits)
qed (auto simp: race_inv_def)

lemma race_init_inv: "race_inv nonce (race_init ttl)"
  by (simp add: race_inv_def race_init_def rc_new_def)

interpretation race: invariant_system "(=) (race_init ttl)" "race_step nonce" "race_inv nonce" for ttl nonce
  by unfold_locales (auto simp: race_init_inv intro: race_step_inv)

text \<open>However many threads check the same fresh nonce, they are never all refused.\<close>

lemma race_refusal_has_cause:
  "race_reach nonce ttl s \<Longrightarrow> rs_pc s i = Rejected \<Longrightarrow> \<exists>j now. rs_pc s j = Accepted now"
  using race.reach_inv unfolding race_reach_def race_inv_def by blast

section \<open>Properties\<close>

text \<open>C7. Whatever the interleaving of checks and clean-ups, a nonce cache accepts exactly what a
  reference cache that keeps every nonce for ever accepts: a nonce is refused if and only if it
  was accepted less than its lifetime ago, and cleaning up is unobservable.\<close>

theorem nonce_cache_refines:
  "sorted (map op_time ops) \<Longrightarrow>
     run_guard rc_check_and_insert rc_cleanup (rc_new ttl) ops = ideal_run ttl Map.empty ops"
  using nonce_guard.run_refines [of "rc_new ttl" ops] by simp

theorem nonce_cache_refines_witness:
  "run_guard rc_check_and_insert rc_cleanup (rc_new 10)
     [Check [1] 0, Check [2] 3, Check [1] 9, Cleanup 10, Check [1] 10, Check [2] 12] =
   [([1], 0), ([2], 3), ([1], 10)]"
  by (subst nonce_cache_refines) simp_all

text \<open>A token identifier is never accepted twice within its lifetime: in any run of the
  identifier cache, with any clean-ups in between, two acceptances of the same identifier are at
  least a lifetime apart.\<close>

theorem uuid_cache_no_replay:
  assumes "sorted (map op_time ops)"
  shows "sorted_wrt (\<lambda>(k, s) (k', t). k = k' \<longrightarrow> s + ttl \<le> t)
    (run_guard uc_check_and_insert uc_cleanup (uc_new ttl) ops)"
proof -
  have "run_guard uc_check_and_insert uc_cleanup (uc_new ttl) ops = ideal_run ttl Map.empty ops"
    using uuid_guard.run_refines [of "uc_new ttl" ops] assms by simp
  then show ?thesis
    using ideal_run_spaced [OF assms, of ttl Map.empty] by simp
qed

text \<open>Under concurrency the cache does not deliver that: two threads checking the same nonce
  can both be told that it is new, at the same instant and for every lifetime.\<close>

theorem race_double_accept:
  "\<exists>s. race_reach nonce ttl s \<and> rs_pc s 0 = Accepted 0 \<and> rs_pc s 1 = Accepted 0"
proof -
  let ?s0 = "race_init ttl"
  let ?s1 = "?s0\<lparr>rs_pc := (rs_pc ?s0)(0 := Looked (rs_clock ?s0))\<rparr>"
  let ?s2 = "?s1\<lparr>rs_pc := (rs_pc ?s1)(1 := Looked (rs_clock ?s1))\<rparr>"
  let ?s3 = "?s2\<lparr>rs_cache := check_store (rs_cache ?s2) nonce 0, rs_pc := (rs_pc ?s2)(0 := Accepted 0)\<rparr>"
  let ?s4 = "?s3\<lparr>rs_cache := check_store (rs_cache ?s3) nonce 0, rs_pc := (rs_pc ?s3)(1 := Accepted 0)\<rparr>"
  have miss: "\<not> check_lookup (rc_new ttl) nonce 0"
    by (simp add: check_lookup_def rc_new_def)
  have 1: "race_step nonce ?s0 ?s1"
    by (rule look_miss) (simp_all add: race_init_def miss)
  have 2: "race_step nonce ?s1 ?s2"
    by (rule look_miss) (simp_all add: race_init_def miss)
  have 3: "race_step nonce ?s2 ?s3"
    by (rule store) (simp add: race_init_def)
  have 4: "race_step nonce ?s3 ?s4"
    by (rule store) (simp add: race_init_def)
  note then_step = reach.after_step [where init = "(=) (race_init ttl)" and step = "race_step nonce"]
  have "race_reach nonce ttl ?s4"
    unfolding race_reach_def
    by (rule then_step [OF then_step [OF then_step [OF then_step [OF reach_start 1] 2] 3] 4])
  then show ?thesis by (intro exI [of _ ?s4]) simp
qed

end
