(* ===== verification/Rust_Std.thy ===== *)
theory Rust_Std
  imports Apfsds_Prelude
begin

text \<open>
  The parts of the Rust standard library on text that the sources use: \<^verbatim>\<open>str::from_utf8\<close>,
  \<^verbatim>\<open>str::split\<close> at an ASCII character, \<^verbatim>\<open>parse\<close> on unsigned integers and the decimal
  rendering of \<^verbatim>\<open>format!\<close>. Text is its UTF-8 bytes.
\<close>

section \<open>Addresses and floating-point bit patterns\<close>

datatype IpAddr = IpV4 bytes | IpV6 bytes

datatype SocketAddr = SocketV4 bytes u16 | SocketV6 bytes u16

type_synonym f64 = "64 word"
type_synonym f32 = "32 word"

section \<open>UTF-8\<close>

definition in_range :: "u8 \<Rightarrow> u8 \<Rightarrow> u8 \<Rightarrow> bool" where
  "in_range lo hi b \<longleftrightarrow> lo \<le> b \<and> b \<le> hi"

definition cont :: "u8 \<Rightarrow> bool" where
  "cont b = in_range 0x80 0xBF b"

text \<open>The well-formed byte sequences of RFC 3629: no overlong forms, no surrogates, nothing above
  \<^verbatim>\<open>U+10FFFF\<close>.\<close>

definition utf8_2 :: "u8 \<Rightarrow> u8 \<Rightarrow> bool" where
  "utf8_2 a b \<longleftrightarrow> in_range 0xC2 0xDF a \<and> cont b"

definition utf8_3 :: "u8 \<Rightarrow> u8 \<Rightarrow> u8 \<Rightarrow> bool" where
  "utf8_3 a b c \<longleftrightarrow> cont c \<and>
     (a = 0xE0 \<and> in_range 0xA0 0xBF b \<or> in_range 0xE1 0xEC a \<and> cont b \<or>
      a = 0xED \<and> in_range 0x80 0x9F b \<or> in_range 0xEE 0xEF a \<and> cont b)"

definition utf8_4 :: "u8 \<Rightarrow> u8 \<Rightarrow> u8 \<Rightarrow> u8 \<Rightarrow> bool" where
  "utf8_4 a b c d \<longleftrightarrow> cont c \<and> cont d \<and>
     (a = 0xF0 \<and> in_range 0x90 0xBF b \<or> in_range 0xF1 0xF3 a \<and> cont b \<or>
      a = 0xF4 \<and> in_range 0x80 0x8F b)"

fun utf8_valid :: "bytes \<Rightarrow> bool" where
  "utf8_valid [] = True"
| "utf8_valid (a # bs) =
     (if a < 0x80 then utf8_valid bs
      else case bs of
        [] \<Rightarrow> False
      | b # bs2 \<Rightarrow> if utf8_2 a b then utf8_valid bs2
          else (case bs2 of
            [] \<Rightarrow> False
          | c # bs3 \<Rightarrow> if utf8_3 a b c then utf8_valid bs3
              else (case bs3 of
                [] \<Rightarrow> False
              | d # bs4 \<Rightarrow> utf8_4 a b c d \<and> utf8_valid bs4)))"

lemma utf8_valid_ascii_append [simp]:
  "(\<forall>b\<in>set xs. b < 0x80) \<Longrightarrow> utf8_valid (xs @ ys) = utf8_valid ys"
  by (induction xs) auto

section \<open>Splitting\<close>

text \<open>\<open>split_on c s\<close> is \<^verbatim>\<open>s.split(c).collect()\<close>: never empty, with an empty piece between two
  separators and at either end.\<close>

fun split_on :: "u8 \<Rightarrow> bytes \<Rightarrow> bytes list" where
  "split_on c [] = [[]]"
| "split_on c (b # bs) =
     (if b = c then [] # split_on c bs
      else case split_on c bs of
          [] \<Rightarrow> [[b]]
        | p # ps \<Rightarrow> (b # p) # ps)"

lemma split_on_neq_Nil [simp]: "split_on c s \<noteq> []"
  by (induction s) (auto split: list.splits)

lemma hd_split_on: "hd (split_on c s) = takeWhile (\<lambda>b. b \<noteq> c) s"
  by (induction s) (auto split: list.splits)

lemma hd_split_on_append: "c \<notin> set xs \<Longrightarrow> hd (split_on c (xs @ c # ys)) = xs"
  by (auto simp: hd_split_on takeWhile_append)

section \<open>Decimal numbers\<close>

definition is_digit :: "u8 \<Rightarrow> bool" where
  "is_digit b = in_range 48 57 b"

text \<open>\<open>parse_digits lim\<close> is the checked accumulation of \<^verbatim>\<open>from_str_radix(10)\<close> in a type with
  \<open>lim\<close> values.\<close>

fun parse_digits :: "nat \<Rightarrow> bytes \<Rightarrow> nat \<Rightarrow> nat option" where
  "parse_digits lim [] acc = Some acc"
| "parse_digits lim (b # bs) acc =
     (if is_digit b \<and> acc * 10 + (unat b - 48) < lim
      then parse_digits lim bs (acc * 10 + (unat b - 48)) else None)"

definition parse_uint :: "nat \<Rightarrow> bytes \<Rightarrow> nat option" where
  "parse_uint lim s =
     (case s of
        [] \<Rightarrow> None
      | b # bs \<Rightarrow> if b = 43 then (if bs = [] then None else parse_digits lim bs 0)
          else parse_digits lim s 0)"

definition parse_u64 :: "bytes \<Rightarrow> u64 option" where
  "parse_u64 s = map_option word_of_nat (parse_uint (2 ^ 64) s)"

fun dec :: "nat \<Rightarrow> bytes" where
  "dec n = (if n < 10 then [word_of_nat (48 + n)]
            else dec (n div 10) @ [word_of_nat (48 + n mod 10)])"

declare dec.simps [simp del]

definition dec_str :: "nat \<Rightarrow> string" where
  "dec_str n = map (\<lambda>b. char_of (unat b)) (dec n)"

lemma digit_unat: "d < 10 \<Longrightarrow> unat (word_of_nat (48 + d) :: u8) = 48 + d"
  by (simp add: unat_of_nat del: of_nat_add)

lemma digit_is_digit: "d < 10 \<Longrightarrow> is_digit (word_of_nat (48 + d))"
  by (simp add: is_digit_def in_range_def word_le_nat_alt digit_unat del: of_nat_add)

lemma parse_digits_append:
  "parse_digits lim (xs @ ys) acc =
     (case parse_digits lim xs acc of None \<Rightarrow> None | Some a \<Rightarrow> parse_digits lim ys a)"
  by (induction xs arbitrary: acc) auto

lemma parse_digits_dec: "n < lim \<Longrightarrow> parse_digits lim (dec n) 0 = Some n"
proof (induction n rule: dec.induct)
  case (1 n)
  show ?case
  proof (cases "n < 10")
    case True
    then show ?thesis
      using 1(2) by (subst dec.simps) (simp add: digit_is_digit digit_unat del: of_nat_add)
  next
    case False
    then have "parse_digits lim (dec (n div 10)) 0 = Some (n div 10)"
      using 1 by simp
    then show ?thesis
      using False 1(2)
      by (subst dec.simps) (simp add: parse_digits_append digit_is_digit digit_unat del: of_nat_add)
  qed
qed

lemma dec_digits: "\<forall>b\<in>set (dec n). is_digit b"
  by (induction n rule: dec.induct) (subst dec.simps, auto simp: digit_is_digit simp del: of_nat_add)

lemma dec_nonempty [simp]: "dec n \<noteq> []"
  by (subst dec.simps) simp

lemma not_digit [simp]: "\<not> is_digit 43" "\<not> is_digit 58" "\<not> is_digit 45"
  by (simp_all add: is_digit_def in_range_def)

lemma parse_uint_dec: "n < lim \<Longrightarrow> parse_uint lim (dec n) = Some n"
  using parse_digits_dec [of n lim] dec_digits [of n] not_digit(1)
  by (cases "dec n") (auto simp: parse_uint_def)

lemma parse_u64_dec: "parse_u64 (dec (unat w)) = Some w"
  by (simp add: parse_u64_def parse_uint_dec [OF u64_bound] del: power_numeral)

lemma dec_ascii: "b \<in> set (dec n) \<Longrightarrow> b < 0x80"
  using dec_digits [of n] by (auto simp: is_digit_def in_range_def word_le_nat_alt word_less_nat_alt)

lemma parse_digits_bound: "parse_digits lim s acc = Some n \<Longrightarrow> acc < lim \<Longrightarrow> n < lim"
  by (induction s arbitrary: acc) (auto split: if_splits)

section \<open>Joining and addresses\<close>

fun join :: "bytes \<Rightarrow> bytes list \<Rightarrow> bytes" where
  "join sep [] = []"
| "join sep [x] = x"
| "join sep (x # y # xs) = x @ sep @ join sep (y # xs)"

definition fmt_ipv4 :: "bytes \<Rightarrow> bytes" where
  "fmt_ipv4 addr = join [46] (map (\<lambda>b. dec (unat b)) addr)"

lemma split_on_append: "c \<notin> set xs \<Longrightarrow> split_on c (xs @ c # ys) = xs # split_on c ys"
  by (induction xs) auto

lemma split_on_none: "c \<notin> set xs \<Longrightarrow> split_on c xs = [xs]"
  by (induction xs) auto

lemma split_on_join: "xs \<noteq> [] \<Longrightarrow> \<forall>x\<in>set xs. c \<notin> set x \<Longrightarrow> split_on c (join [c] xs) = xs"
  by (induction "[c]" xs rule: join.induct) (auto simp: split_on_append split_on_none)

lemma set_join: "set (join sep xs) \<subseteq> set sep \<union> (\<Union>x\<in>set xs. set x)"
  by (induction sep xs rule: join.induct) auto

text \<open>An octet of \<^verbatim>\<open>Ipv4Addr::from_str\<close>: one to three digits without a leading zero, at most 255.\<close>

definition parse_octet :: "bytes \<Rightarrow> u8 option" where
  "parse_octet s =
     (if list_all is_digit s \<and> 0 < length s \<and> length s \<le> 3 \<and> \<not> (1 < length s \<and> hd s = 48)
      then map_option word_of_nat (parse_digits 256 s 0) else None)"

definition parse_ipv4 :: "bytes \<Rightarrow> bytes option" where
  "parse_ipv4 s =
     (case split_on 46 s of
        [a, b, c, d] \<Rightarrow>
          (case (parse_octet a, parse_octet b, parse_octet c, parse_octet d) of
             (Some a', Some b', Some c', Some d') \<Rightarrow> Some [a', b', c', d']
           | _ \<Rightarrow> None)
      | _ \<Rightarrow> None)"

lemma length_dec: "0 < k \<Longrightarrow> n < 10 ^ k \<Longrightarrow> length (dec n) \<le> k"
proof (induction k arbitrary: n)
  case (Suc k)
  show ?case
  proof (cases "n < 10")
    case True
    then show ?thesis by (subst dec.simps) simp
  next
    case False
    with Suc.prems have "0 < k" by (cases k) auto
    moreover have "n div 10 < 10 ^ k" using Suc.prems by (simp add: less_mult_imp_div_less mult.commute)
    ultimately have "length (dec (n div 10)) \<le> k" by (rule Suc.IH)
    with False show ?thesis by (subst dec.simps) simp
  qed
qed simp

lemma hd_dec: "0 < n \<Longrightarrow> hd (dec n) \<noteq> 48"
proof (induction n rule: dec.induct)
  case (1 n)
  show ?case
  proof (cases "n < 10")
    case True
    have "unat (word_of_nat (48 + n) :: u8) \<noteq> unat (48 :: u8)" using True 1(2) by (simp add: digit_unat del: of_nat_add)
    then have "(word_of_nat (48 + n) :: u8) \<noteq> 48" by metis
    with True show ?thesis by (subst dec.simps) (simp del: of_nat_add)
  next
    case False
    with 1 show ?thesis by (subst dec.simps) simp
  qed
qed

lemma parse_octet_dec: "parse_octet (dec (unat b)) = Some b"
proof -
  have b: "unat b < 256" using unsigned_less [of b] by simp
  then have "length (dec (unat b)) \<le> 3" using length_dec [of 3 "unat b"] by simp
  moreover have "\<not> (1 < length (dec (unat b)) \<and> hd (dec (unat b)) = 48)"
  proof (cases "unat b = 0")
    case True
    then show ?thesis by (simp add: dec.simps [of 0])
  qed (simp add: hd_dec)
  ultimately show ?thesis
    using dec_digits [of "unat b"] parse_digits_dec [OF b] by (simp add: parse_octet_def list_all_iff)
qed

lemma digit_neq: "is_digit d \<Longrightarrow> d \<noteq> 46" "is_digit d \<Longrightarrow> d \<noteq> 47"
  by (auto simp: is_digit_def in_range_def)

lemma parse_fmt_ipv4: "length a = 4 \<Longrightarrow> parse_ipv4 (fmt_ipv4 a) = Some a"
proof -
  assume "length a = 4"
  then obtain w x y z where a: "a = [w, x, y, z]" by (auto simp: length_Suc_conv eval_nat_numeral)
  have "46 \<notin> set (dec n)" for n using dec_digits [of n] digit_neq(1) by blast
  then have "split_on 46 (fmt_ipv4 a) = map (\<lambda>b. dec (unat b)) a"
    unfolding fmt_ipv4_def by (intro split_on_join) (auto simp: a)
  then show ?thesis by (simp add: parse_ipv4_def a parse_octet_dec)
qed

section \<open>Results\<close>

text \<open>The operator \<^verbatim>\<open>?\<close> of Rust, and collecting an iterator of results.\<close>

definition and_then :: "('a, 'e) result \<Rightarrow> ('a \<Rightarrow> ('b, 'e) result) \<Rightarrow> ('b, 'e) result" where
  "and_then r f = (case r of Err e \<Rightarrow> Err e | Ok x \<Rightarrow> f x)"

fun collect_results :: "('a, 'e) result list \<Rightarrow> ('a list, 'e) result" where
  "collect_results [] = Ok []"
| "collect_results (r # rs) = and_then r (\<lambda>x. and_then (collect_results rs) (\<lambda>xs. Ok (x # xs)))"

lemma and_then_simps [simp]: "and_then (Ok x) f = f x" "and_then (Err e) f = Err e"
  by (simp_all add: and_then_def)

lemma and_then_Ok: "and_then r f = Ok y \<longleftrightarrow> (\<exists>x. r = Ok x \<and> f x = Ok y)"
  by (cases r) simp_all

lemma collect_results_Ok: "collect_results rs = Ok xs \<longleftrightarrow> rs = map Ok xs"
  by (induction rs arbitrary: xs) (auto simp: and_then_Ok)

end
