(* ===== verification/Authenticator.thy ===== *)
theory Authenticator
  imports Protocol_Frames Replay_Cache Crypto Rust_Std "HOL-Library.Sublist"
begin

text \<open>
  Client authentication in the daemon, \<^verbatim>\<open>daemon/src/auth.rs\<close>: the verification of signed
  requests and the one-time tokens. Every operation takes the reading \<open>now\<close> of the system clock
  (milliseconds, \<^verbatim>\<open>u64\<close>) and, where a replay cache is consulted, the reading \<open>inst\<close> of the
  monotonic clock in milliseconds. rkyv, base64, HMAC and ML-DSA are the parameters gathered in
  \<open>auth_ext\<close>.
\<close>

section \<open>State and operations\<close>

record ('k, 's) auth_ext =
  ax_mac :: "bytes \<Rightarrow> bytes \<Rightarrow> bytes"
  ax_dsa :: "('k, 's) mldsa_ext"
  ax_b64_encode :: "bytes \<Rightarrow> bytes"
  ax_b64_decode :: "bytes \<Rightarrow> bytes option"
  ax_to_bytes :: "TokenPayload \<Rightarrow> bytes"
  ax_access :: "bytes \<Rightarrow> (TokenPayload, string) result"
  ax_key_error :: "KeyError \<Rightarrow> string"

definition MLDSA65_SIGNATURE_SIZE :: nat where
  "MLDSA65_SIGNATURE_SIZE = 3293"

datatype AuthError =
    InvalidTimestamp u64
  | NonceReused
  | InvalidHmac
  | TokenExpired
  | TokenAlreadyUsed
  | InvalidSignature
  | CryptoError string

record 'k Authenticator =
  au_keypair :: "'k MlDsa65KeyPair"
  au_hmac :: HmacAuthenticator
  au_nonce_cache :: ReplayCache
  au_token_cache :: UuidReplayCache
  au_max_drift_ms :: int
  au_token_ttl_ms :: u64

text \<open>Durations are in milliseconds.\<close>

definition from_secs :: "u64 \<Rightarrow> nat" where
  "from_secs s = unat s * 1000"

definition auth_new ::
  "('k, 's) auth_ext \<Rightarrow> bytes \<Rightarrow> bytes \<Rightarrow> u64 \<Rightarrow> ('k Authenticator, AuthError) result" where
  "auth_new X server_sk hmac_secret token_ttl_secs =
     (case mldsa_from_secret (ax_dsa X) server_sk of
        Err e \<Rightarrow> Err (CryptoError (ax_key_error X e))
      | Ok keypair \<Rightarrow> Ok
          \<lparr>au_keypair = keypair,
           au_hmac = hmac_new hmac_secret,
           au_nonce_cache = rc_new (from_secs 120),
           au_token_cache = uc_new (from_secs (token_ttl_secs + 60)),
           au_max_drift_ms = 30000,
           au_token_ttl_ms = token_ttl_secs * 1000\<rparr>)"

definition auth_public_key :: "('k, 's) auth_ext \<Rightarrow> 'k Authenticator \<Rightarrow> bytes" where
  "auth_public_key X a = mldsa_public_key (ax_dsa X) (au_keypair a)"

definition extract_user_id :: "bytes \<Rightarrow> (u64, AuthError) result" where
  "extract_user_id hmac_base =
     (if \<not> utf8_valid hmac_base then Err InvalidHmac
      else let parts = split_on 58 hmac_base in
        if parts = [] then Err InvalidHmac
        else case parse_u64 (hd parts) of None \<Rightarrow> Err InvalidHmac | Some n \<Rightarrow> Ok n)"

definition auth_verify ::
  "('k, 's) auth_ext \<Rightarrow> 'k Authenticator \<Rightarrow> AuthRequest \<Rightarrow> u64 \<Rightarrow> nat \<Rightarrow>
     (u64, AuthError) result \<times> 'k Authenticator" where
  "auth_verify X a auth now inst =
     (let drift = now - ar_timestamp auth in
      if i64_gt (i64_abs drift) (au_max_drift_ms a) then (Err (InvalidTimestamp drift), a)
      else let (fresh, cache) = rc_check_and_insert (au_nonce_cache a) (ar_nonce auth) inst;
               a' = a\<lparr>au_nonce_cache := cache\<rparr> in
        if \<not> fresh then (Err NonceReused, a')
        else case verify_with_timestamp (ax_mac X) (au_hmac a) (ar_hmac_base auth)
                    (ar_timestamp auth) (ar_hmac_signature auth) of
            Err _ \<Rightarrow> (Err InvalidHmac, a')
          | Ok _ \<Rightarrow> (extract_user_id (ar_hmac_base auth), a'))"

definition generate_token ::
  "('k, 's) auth_ext \<Rightarrow> 'k Authenticator \<Rightarrow> u64 \<Rightarrow> bytes \<Rightarrow> u64 \<Rightarrow> bytes" where
  "generate_token X a user_id nonce now =
     (let payload = \<lparr>tp_user_id = user_id, tp_nonce = nonce, tp_issued_at = now,
                     tp_valid_until = now + au_token_ttl_ms a\<rparr>;
          bytes = ax_to_bytes X payload;
          signature = mldsa_sign (ax_dsa X) (au_keypair a) bytes
      in ax_b64_encode X (bytes @ signature))"

definition verify_and_consume_token ::
  "('k, 's) auth_ext \<Rightarrow> 'k Authenticator \<Rightarrow> bytes \<Rightarrow> u64 \<Rightarrow> nat \<Rightarrow>
     (u64, AuthError) result \<times> 'k Authenticator" where
  "verify_and_consume_token X a token now inst =
     (case ax_b64_decode X token of
        None \<Rightarrow> (Err InvalidSignature, a)
      | Some decoded \<Rightarrow>
          if length decoded < MLDSA65_SIGNATURE_SIZE then (Err InvalidSignature, a)
          else let payload_bytes = take (length decoded - MLDSA65_SIGNATURE_SIZE) decoded;
                   signature = drop (length decoded - MLDSA65_SIGNATURE_SIZE) decoded in
            case mldsa_verify_with_pk (ax_dsa X) (auth_public_key X a) payload_bytes signature of
              Err _ \<Rightarrow> (Err InvalidSignature, a)
            | Ok _ \<Rightarrow>
                (case ax_access X payload_bytes of
                  Err e \<Rightarrow> (Err (CryptoError e), a)
                | Ok archived \<Rightarrow>
                    if now > tp_valid_until archived then (Err TokenExpired, a)
                    else let nonce = take 16 (tp_nonce archived);
                             (fresh, cache) = uc_check_and_insert (au_token_cache a) nonce inst;
                             a' = a\<lparr>au_token_cache := cache\<rparr> in
                      if \<not> fresh then (Err TokenAlreadyUsed, a')
                      else (Ok (tp_user_id archived), a')))"

definition auth_cleanup :: "'k Authenticator \<Rightarrow> nat \<Rightarrow> 'k Authenticator" where
  "auth_cleanup a inst =
     a\<lparr>au_nonce_cache := rc_cleanup (au_nonce_cache a) inst,
       au_token_cache := uc_cleanup (au_token_cache a) inst\<rparr>"

text \<open>What the parameters document: base64 and rkyv read back what they wrote, ML-DSA and HMAC are
  as in \<open>mldsa_ok\<close> and \<open>mac_ok\<close>.\<close>

definition auth_ext_ok :: "('k, 's) auth_ext \<Rightarrow> bool" where
  "auth_ext_ok X \<longleftrightarrow> mac_ok (ax_mac X) \<and> mldsa_ok (ax_dsa X) \<and>
     (\<forall>d. ax_b64_decode X (ax_b64_encode X d) = Some d) \<and>
     (\<forall>p. ax_access X (ax_to_bytes X p) = Ok p)"

section \<open>The user id of a request\<close>

lemma extract_user_id_dec:
  assumes "utf8_valid rest"
  shows "extract_user_id (dec (unat uid) @ 58 # rest) = Ok uid"
proof -
  have "58 \<notin> set (dec (unat uid))"
    using dec_digits [of "unat uid"] not_digit(2) by blast
  then have "hd (split_on 58 (dec (unat uid) @ 58 # rest)) = dec (unat uid)"
    by (rule hd_split_on_append)
  moreover have "utf8_valid (dec (unat uid) @ 58 # rest)"
    using assms by (simp add: dec_ascii)
  ultimately show ?thesis
    by (simp add: extract_user_id_def Let_def parse_u64_dec)
qed

section \<open>Runs of an authenticator\<close>

text \<open>The requests an authenticator accepts over its lifetime, with the readings of both clocks.\<close>

datatype auth_op = VerifyReq AuthRequest u64 nat | AuthCleanup nat

primrec auth_op_time :: "auth_op \<Rightarrow> nat" where
  "auth_op_time (VerifyReq _ _ inst) = inst"
| "auth_op_time (AuthCleanup inst) = inst"

fun auth_run :: "('k, 's) auth_ext \<Rightarrow> 'k Authenticator \<Rightarrow> auth_op list \<Rightarrow> (AuthRequest \<times> u64 \<times> nat) list" where
  "auth_run X a [] = []"
| "auth_run X a (VerifyReq r now inst # ops) =
     (let (res, a') = auth_verify X a r now inst in
      (if is_ok res then [(r, now, inst)] else []) @ auth_run X a' ops)"
| "auth_run X a (AuthCleanup inst # ops) = auth_run X (auth_cleanup a inst) ops"

text \<open>The operations the run performs on its nonce cache.\<close>

fun nonce_ops :: "int \<Rightarrow> auth_op list \<Rightarrow> replay_op list" where
  "nonce_ops k [] = []"
| "nonce_ops k (VerifyReq r now inst # ops) =
     (if i64_gt (i64_abs (now - ar_timestamp r)) k then nonce_ops k ops
      else Check (ar_nonce r) inst # nonce_ops k ops)"
| "nonce_ops k (AuthCleanup inst # ops) = Cleanup inst # nonce_ops k ops"

lemma set_nonce_ops: "op_time ` set (nonce_ops k ops) \<subseteq> auth_op_time ` set ops"
  by (induction k ops rule: nonce_ops.induct) auto

lemma sorted_nonce_ops: "sorted (map auth_op_time ops) \<Longrightarrow> sorted (map op_time (nonce_ops k ops))"
  by (induction k ops rule: nonce_ops.induct) (use set_nonce_ops in force)+

lemma auth_verify_cache:
  "au_nonce_cache (snd (auth_verify X a r now inst)) =
     (if i64_gt (i64_abs (now - ar_timestamp r)) (au_max_drift_ms a) then au_nonce_cache a
      else snd (rc_check_and_insert (au_nonce_cache a) (ar_nonce r) inst))"
  "au_max_drift_ms (snd (auth_verify X a r now inst)) = au_max_drift_ms a"
  by (auto simp: auth_verify_def Let_def split: prod.splits result.splits if_splits)

lemma auth_verify_ok_fresh:
  "is_ok (fst (auth_verify X a r now inst)) \<Longrightarrow>
     \<not> i64_gt (i64_abs (now - ar_timestamp r)) (au_max_drift_ms a) \<and>
     fst (rc_check_and_insert (au_nonce_cache a) (ar_nonce r) inst)"
  by (auto simp: auth_verify_def Let_def split: prod.splits result.splits if_splits)

lemma auth_run_subseq:
  "subseq (map (\<lambda>(r, now, inst). (ar_nonce r, inst)) (auth_run X a ops))
     (run_guard rc_check_and_insert rc_cleanup (au_nonce_cache a) (nonce_ops (au_max_drift_ms a) ops))"
proof (induction X a ops rule: auth_run.induct)
  case (1 X a)
  then show ?case by simp
next
  case (2 X a r now inst ops)
  obtain res a' where v: "auth_verify X a r now inst = (res, a')" by force
  note IH = "2.IH" [OF v [symmetric] refl]
  note cache = auth_verify_cache [of X a r now inst, unfolded v snd_conv]
  show ?case
  proof (cases "i64_gt (i64_abs (now - ar_timestamp r)) (au_max_drift_ms a)")
    case True
    then have "\<not> is_ok res"
      using auth_verify_ok_fresh [of X a r now inst] v by auto
    with True IH cache v show ?thesis by simp
  next
    case False
    obtain fresh c where c: "rc_check_and_insert (au_nonce_cache a) (ar_nonce r) inst = (fresh, c)"
      by force
    then have "is_ok res \<Longrightarrow> fresh"
      using auth_verify_ok_fresh [of X a r now inst] v by auto
    with False IH cache v c show ?thesis
      by (auto simp: list_emb_Cons)
  qed
next
  case (3 X a inst ops)
  then show ?case by (simp add: auth_cleanup_def)
qed

lemma sorted_wrt_subseq: "subseq xs ys \<Longrightarrow> sorted_wrt R ys \<Longrightarrow> sorted_wrt R xs"
  by (induction rule: list_emb.induct) (auto dest: list_emb_set)

lemma auth_run_window:
  "(r, now, inst) \<in> set (auth_run X a ops) \<Longrightarrow> VerifyReq r now inst \<in> set ops \<and>
     \<not> i64_gt (i64_abs (now - ar_timestamp r)) (au_max_drift_ms a)"
proof (induction X a ops rule: auth_run.induct)
  case (2 X a r' now' inst' ops)
  obtain res a' where v: "auth_verify X a r' now' inst' = (res, a')" by force
  from "2.IH" [OF v [symmetric] refl] "2.prems" v show ?case
    using auth_verify_ok_fresh [of X a r' now' inst'] auth_verify_cache(2) [of X a r' now' inst']
    by (auto split: if_splits)
qed (auto simp: auth_cleanup_def)

lemma auth_new_cache:
  "auth_new X sk secret ttl = Ok a \<Longrightarrow> au_nonce_cache a = rc_new 120000 \<and> au_max_drift_ms a = 30000"
  by (auto simp: auth_new_def from_secs_def split: result.splits)

lemma auth_run_spaced:
  assumes "auth_new X sk secret ttl = Ok a" "sorted (map auth_op_time ops)"
  shows "sorted_wrt (\<lambda>x y. ar_nonce (fst x) = ar_nonce (fst y) \<longrightarrow> snd (snd x) + 120000 \<le> snd (snd y))
    (auth_run X a ops)"
proof -
  let ?nops = "nonce_ops 30000 ops"
  have "run_guard rc_check_and_insert rc_cleanup (rc_new 120000) ?nops = ideal_run 120000 Map.empty ?nops"
    using nonce_guard.run_refines [of "rc_new 120000" ?nops] sorted_nonce_ops [OF assms(2)] by simp
  then have "subseq (map (\<lambda>(r, now, inst). (ar_nonce r, inst)) (auth_run X a ops))
      (ideal_run 120000 Map.empty ?nops)"
    using auth_run_subseq [of X a ops] auth_new_cache [OF assms(1)] by simp
  from sorted_wrt_subseq [OF this ideal_run_spaced [OF sorted_nonce_ops [OF assms(2)]]]
  show ?thesis by (simp add: sorted_wrt_map case_prod_beta)
qed

lemma distinct_sorted_wrt: "distinct xs \<longleftrightarrow> sorted_wrt (\<noteq>) xs"
  by (induction xs) auto

text \<open>The authenticator after a run.\<close>

fun auth_after :: "('k, 's) auth_ext \<Rightarrow> 'k Authenticator \<Rightarrow> auth_op list \<Rightarrow> 'k Authenticator" where
  "auth_after X a [] = a"
| "auth_after X a (VerifyReq r now inst # ops) = auth_after X (snd (auth_verify X a r now inst)) ops"
| "auth_after X a (AuthCleanup inst # ops) = auth_after X (auth_cleanup a inst) ops"

definition auth_ok :: "bytes \<Rightarrow> 'k Authenticator \<Rightarrow> bool" where
  "auth_ok secret a \<longleftrightarrow> au_hmac a = hmac_new secret \<and> au_max_drift_ms a = 30000 \<and>
     rc_ttl (au_nonce_cache a) = 120000 \<and> dwf (rc_seen (au_nonce_cache a))"

lemma auth_new_ok: "auth_new X sk secret ttl = Ok a \<Longrightarrow> auth_ok secret a"
  by (auto simp: auth_new_def auth_ok_def from_secs_def split: result.splits)

lemma auth_verify_state:
  "snd (auth_verify X a r now inst) = a\<lparr>au_nonce_cache := au_nonce_cache (snd (auth_verify X a r now inst))\<rparr>"
  by (auto simp: auth_verify_def Let_def split: prod.splits result.splits if_splits)

lemma auth_verify_keeps: "auth_ok secret a \<Longrightarrow> auth_ok secret (snd (auth_verify X a r now inst))"
  by (subst auth_verify_state)
    (auto simp: auth_ok_def auth_verify_cache nonce_guard.ttl_check nonce_guard.wf_check)

lemma auth_cleanup_keeps: "auth_ok secret a \<Longrightarrow> auth_ok secret (auth_cleanup a inst)"
  by (simp add: auth_ok_def auth_cleanup_def nonce_guard.ttl_cleanup nonce_guard.wf_cleanup)

lemma auth_after_keeps: "auth_ok secret a \<Longrightarrow> auth_ok secret (auth_after X a ops)"
  by (induction X a ops rule: auth_after.induct) (simp_all add: auth_verify_keeps auth_cleanup_keeps)

text \<open>A nonce that is blocked stays so until its lifetime is over.\<close>

lemma rc_blocked_mono: "rc_blocked c t k \<Longrightarrow> t' \<le> t \<Longrightarrow> rc_blocked c t' k"
  by (auto simp: rc_defs split: option.splits)

lemma auth_after_blocked:
  "auth_ok secret a \<Longrightarrow> rc_blocked (au_nonce_cache a) t k \<Longrightarrow> \<forall>op\<in>set ops. auth_op_time op \<le> t \<Longrightarrow>
     rc_blocked (au_nonce_cache (auth_after X a ops)) t k"
proof (induction X a ops rule: auth_after.induct)
  case (2 X a r now inst ops)
  have wf: "dwf (rc_seen (au_nonce_cache a))" using "2.prems"(1) by (simp add: auth_ok_def)
  have "rc_blocked (au_nonce_cache a) inst k" using rc_blocked_mono [OF "2.prems"(2)] "2.prems"(3) by simp
  then have "rc_blocked (au_nonce_cache (snd (auth_verify X a r now inst))) t k"
    using "2.prems"(2) by (auto simp: auth_verify_cache nonce_guard.blocked_check [OF wf])
  from "2.IH" [OF auth_verify_keeps [OF "2.prems"(1)] this] "2.prems"(3) show ?case by simp
next
  case (3 X a inst ops)
  have wf: "dwf (rc_seen (au_nonce_cache a))" using "3.prems"(1) by (simp add: auth_ok_def)
  have "rc_blocked (au_nonce_cache (auth_cleanup a inst)) t k"
    using "3.prems"(2,3) by (simp add: auth_cleanup_def nonce_guard.blocked_cleanup [OF wf])
  from "3.IH" [OF auth_cleanup_keeps [OF "3.prems"(1)] this] "3.prems"(3) show ?case by simp
qed simp

text \<open>Whatever blocks a nonce was presented in the run.\<close>

lemma auth_after_seen:
  "auth_ok secret a \<Longrightarrow> rc_blocked (au_nonce_cache (auth_after X a ops)) t k \<Longrightarrow>
     rc_blocked (au_nonce_cache a) t k \<or> (\<exists>r now inst. VerifyReq r now inst \<in> set ops \<and> ar_nonce r = k \<and> t < inst + 120000)"
proof (induction X a ops rule: auth_after.induct)
  case (2 X a r now inst ops)
  have wf: "dwf (rc_seen (au_nonce_cache a))" "rc_ttl (au_nonce_cache a) = 120000" using "2.prems"(1) by (simp_all add: auth_ok_def)
  have "rc_blocked (au_nonce_cache (snd (auth_verify X a r now inst))) t k \<Longrightarrow>
      rc_blocked (au_nonce_cache a) t k \<or> (ar_nonce r = k \<and> t < inst + 120000)"
    by (auto simp: auth_verify_cache nonce_guard.blocked_check [OF wf(1)] wf(2) split: if_splits)
  with "2.IH" [OF auth_verify_keeps [OF "2.prems"(1)]] "2.prems"(2) show ?case by fastforce
next
  case (3 X a inst ops)
  have "rc_blocked (au_nonce_cache (auth_cleanup a inst)) t k \<Longrightarrow> rc_blocked (au_nonce_cache a) t k"
    using "3.prems"(1) by (auto simp: auth_ok_def auth_cleanup_def rc_defs dget_dretain split: option.splits if_splits)
  with "3.IH" [OF auth_cleanup_keeps [OF "3.prems"(1)]] "3.prems"(2) show ?case by fastforce
qed simp

text \<open>Verification of a request in a state: what the HMAC covers, the window and the nonce decide.\<close>

lemma auth_verify_accepts:
  assumes "auth_ext_ok X" "auth_ok secret a"
    "ar_hmac_signature r = ax_mac X secret (ar_hmac_base r @ u64_to_le (ar_timestamp r))"
    "\<not> i64_gt (i64_abs (now - ar_timestamp r)) 30000" "\<not> rc_blocked (au_nonce_cache a) inst (ar_nonce r)"
  shows "auth_verify X a r now inst =
    (extract_user_id (ar_hmac_base r), a\<lparr>au_nonce_cache := snd (rc_check_and_insert (au_nonce_cache a) (ar_nonce r) inst)\<rparr>)"
proof -
  have "verify_with_timestamp (ax_mac X) (hmac_new secret) (ar_hmac_base r) (ar_timestamp r) (ar_hmac_signature r) = Ok ()"
    using assms(1,3) verify_with_timestamp_iff [of "ax_mac X" "ar_hmac_signature r"]
    by (auto simp: auth_ext_ok_def hmac_new_def mac_length)
  moreover have "fst (rc_check_and_insert (au_nonce_cache a) (ar_nonce r) inst)"
    using assms(2,5) nonce_guard.check_verdict by (simp add: auth_ok_def)
  ultimately show ?thesis
    using assms(2,4) by (simp add: auth_verify_def auth_ok_def Let_def case_prod_beta)
qed

lemma auth_verify_signed:
  assumes "auth_ext_ok X" "auth_ok secret a" "is_ok (fst (auth_verify X a r now inst))" "length (ar_hmac_signature r) = 32"
  shows "ar_hmac_signature r = ax_mac X secret (ar_hmac_base r @ u64_to_le (ar_timestamp r))"
    "fst (auth_verify X a r now inst) = extract_user_id (ar_hmac_base r)"
proof -
  have ok: "verify_with_timestamp (ax_mac X) (hmac_new secret) (ar_hmac_base r) (ar_timestamp r) (ar_hmac_signature r) = Ok ()"
    using assms(2,3) by (auto simp: auth_verify_def auth_ok_def Let_def split: prod.splits result.splits if_splits)
  then show "ar_hmac_signature r = ax_mac X secret (ar_hmac_base r @ u64_to_le (ar_timestamp r))"
    using assms(1) verify_with_timestamp_iff [OF _ assms(4)] by (auto simp: auth_ext_ok_def hmac_new_def)
  show "fst (auth_verify X a r now inst) = extract_user_id (ar_hmac_base r)"
    using assms(3) by (auto simp: auth_verify_def Let_def split: prod.splits result.splits if_splits)
qed

lemma genuine_in_window:
  assumes "unat now < 2 ^ 63" "unat t < 2 ^ 63" "\<bar>int (unat now) - int (unat t)\<bar> \<le> 30000"
  shows "\<not> i64_gt (i64_abs (now - t)) 30000"
  using assms(3) sint_diff_small [OF assms(1,2)] by (simp add: i64_gt_def i64_abs_sint)

section \<open>Tokens\<close>

text \<open>The daemon splits a token at 3293 bytes from its end, while an ML-DSA-65 signature has
  3309: every token is refused as having an invalid signature, the ones the daemon has just
  issued included.\<close>

lemma every_token_rejected:
  assumes "mldsa_ok (ax_dsa X)"
  shows "verify_and_consume_token X a token now inst = (Err InvalidSignature, a)"
proof (cases "ax_b64_decode X token")
  case None
  then show ?thesis by (simp add: verify_and_consume_token_def)
next
  case (Some decoded)
  let ?n = MLDSA65_SIGNATURE_SIZE
  show ?thesis
  proof (cases "length decoded < ?n")
    case False
    then have "length (drop (length decoded - ?n) decoded) \<noteq> 3309" by (simp add: MLDSA65_SIGNATURE_SIZE_def)
    from mldsa_verify_wrong_size [OF assms this] obtain e where
      "mldsa_verify_with_pk (ax_dsa X) (auth_public_key X a) (take (length decoded - ?n) decoded)
         (drop (length decoded - ?n) decoded) = Err e" by blast
    with False Some show ?thesis by (simp add: verify_and_consume_token_def Let_def)
  qed (simp add: verify_and_consume_token_def Some)
qed

section \<open>An instance of the parameters\<close>

text \<open>A concrete implementation of \<open>auth_ext\<close> that meets \<open>auth_ext_ok\<close>, used to evaluate the
  model on examples.\<close>

definition demo_dsa :: "(bytes, unit) mldsa_ext" where
  "demo_dsa = \<lparr>dsa_from_seed = \<lambda>s. s, dsa_to_seed = \<lambda>k. k, dsa_public = \<lambda>k. replicate 1952 0,
     dsa_sign = \<lambda>k m. replicate 3309 0, dsa_decode_sig = \<lambda>s. Some (),
     dsa_verify = \<lambda>pk m s. True, dsa_pk_size = 1952, dsa_sig_size = 3309\<rparr>"

definition demo_auth :: "(bytes, unit) auth_ext" where
  "demo_auth = \<lparr>ax_mac = \<lambda>k d. replicate 32 7, ax_dsa = demo_dsa, ax_b64_encode = \<lambda>d. d,
     ax_b64_decode = Some,
     ax_to_bytes = \<lambda>p. u64_to_le (tp_user_id p) @ u64_to_le (tp_issued_at p) @
       u64_to_le (tp_valid_until p) @ tp_nonce p,
     ax_access = \<lambda>b. Ok \<lparr>tp_user_id = u64_from_le (take 8 b), tp_nonce = drop 24 b,
       tp_issued_at = u64_from_le (take 8 (drop 8 b)), tp_valid_until = u64_from_le (take 8 (drop 16 b))\<rparr>,
     ax_key_error = \<lambda>e. ''''\<rparr>"

definition demo_authenticator :: "bytes Authenticator" where
  "demo_authenticator = \<lparr>au_keypair = \<lparr>ml_keypair = replicate 32 1\<rparr>, au_hmac = hmac_new [],
     au_nonce_cache = rc_new 120000, au_token_cache = uc_new 120000, au_max_drift_ms = 30000,
     au_token_ttl_ms = 60000\<rparr>"

definition demo_request :: AuthRequest where
  "demo_request = \<lparr>ar_hmac_base = dec 42 @ 58 # dec 5, ar_hmac_signature = replicate 32 7,
     ar_client_pk = replicate 32 0, ar_nonce = replicate 32 3, ar_timestamp = 1000000\<rparr>"

lemma demo_dsa_ok: "mldsa_ok demo_dsa"
  by (simp add: mldsa_ok_def demo_dsa_def)

lemma demo_auth_ok: "auth_ext_ok demo_auth"
  using demo_dsa_ok by (simp add: auth_ext_ok_def demo_auth_def mac_ok_def)

lemma demo_new: "auth_new demo_auth (replicate 32 1) [] 60 = Ok demo_authenticator"
  by (simp add: auth_new_def mldsa_from_secret_def demo_auth_def demo_dsa_def demo_authenticator_def
      from_secs_def)

section \<open>Properties\<close>

text \<open>C4. Replays of a nonce: whatever requests, forged or genuine, and clean-ups an authenticator has handled, one after the other, two requests accepted
  with the same nonce are at least two minutes of the monotonic clock apart; and no two of them have the same nonce and
  the same timestamp at all, as long as the system clock, which decides the window of timestamps, has not fallen a minute or more behind the
  monotonic clock between the two, by being set back. The timestamps are the senders' and may be any. Nonces are not signed, so this does
  not keep a recorded request from being used again under another nonce.\<close>

theorem nonce_accepted_once:
  assumes "auth_new X sk secret ttl = Ok a" and "sorted (map auth_op_time ops)"
    and "\<And>r now inst. VerifyReq r now inst \<in> set ops \<Longrightarrow> unat now < 2 ^ 62"
    and "\<And>r now inst r' now' inst'. VerifyReq r now inst \<in> set ops \<Longrightarrow> VerifyReq r' now' inst' \<in> set ops \<Longrightarrow> inst \<le> inst' \<Longrightarrow>
      int inst' - int inst < int (unat now') - int (unat now) + 60000"
  shows "sorted_wrt (\<lambda>(r, now, inst) (r', now', inst'). ar_nonce r = ar_nonce r' \<longrightarrow> inst + 120000 \<le> inst') (auth_run X a ops) \<and>
    distinct (map (\<lambda>(r, now, inst). (ar_nonce r, ar_timestamp r)) (auth_run X a ops))"
proof
  note spaced = auth_run_spaced [OF assms(1,2)]
  then show "sorted_wrt (\<lambda>(r, now, inst) (r', now', inst'). ar_nonce r = ar_nonce r' \<longrightarrow> inst + 120000 \<le> inst') (auth_run X a ops)"
    by (rule sorted_wrt_mono_rel [rotated]) auto
  have "sorted_wrt (\<lambda>x y. (ar_nonce (fst x), ar_timestamp (fst x)) \<noteq> (ar_nonce (fst y), ar_timestamp (fst y))) (auth_run X a ops)"
  proof (rule sorted_wrt_mono_rel [OF _ spaced])
    fix x y assume x: "x \<in> set (auth_run X a ops)" and y: "y \<in> set (auth_run X a ops)"
      and gap: "ar_nonce (fst x) = ar_nonce (fst y) \<longrightarrow> snd (snd x) + 120000 \<le> snd (snd y)"
    obtain r now inst r' now' inst' where xy: "x = (r, now, inst)" "y = (r', now', inst')" by (metis prod_cases3)
    have w: "VerifyReq r now inst \<in> set ops" "\<bar>sint (now - ar_timestamp r)\<bar> \<le> 30000 \<or> now - ar_timestamp r = 2 ^ 63"
      "VerifyReq r' now' inst' \<in> set ops" "\<bar>sint (now' - ar_timestamp r')\<bar> \<le> 30000 \<or> now' - ar_timestamp r' = 2 ^ 63"
      using auth_run_window [OF x [unfolded xy(1)]] auth_run_window [OF y [unfolded xy(2)]] auth_new_cache [OF assms(1)]
      by (simp_all add: i64_gt_def i64_abs_sint split: if_splits)
    have "int (unat now') - int (unat now) \<le> 60000" if "ar_timestamp r = ar_timestamp r'"
      using window_clocks_close [of now now' "ar_timestamp r"] assms(3) [OF w(1)] assms(3) [OF w(3)] w(2,4) that by simp
    moreover have "inst \<le> inst' \<Longrightarrow> int inst' - int inst < int (unat now') - int (unat now) + 60000"
      by (rule assms(4) [OF w(1,3)])
    ultimately show "(ar_nonce (fst x), ar_timestamp (fst x)) \<noteq> (ar_nonce (fst y), ar_timestamp (fst y))"
      using gap by (auto simp: xy)
  qed
  then show "distinct (map (\<lambda>(r, now, inst). (ar_nonce r, ar_timestamp r)) (auth_run X a ops))"
    by (simp add: distinct_sorted_wrt sorted_wrt_map case_prod_unfold)
qed

theorem nonce_accepted_once_witness:
  "distinct (map (\<lambda>(r, now, inst). (ar_nonce r, ar_timestamp r)) (auth_run demo_auth demo_authenticator
     [VerifyReq demo_request 1000000 400000, AuthCleanup 410000, VerifyReq demo_request 990000 420000]))"
  by (rule nonce_accepted_once [OF demo_new, THEN conjunct2]) (auto simp: demo_request_def)

text \<open>C16. A request that a client signed properly authenticates it, in any state an authenticator can be in: with the user id before the
  first colon of the signed text, a timestamp within 30 seconds, a nonce that no request has carried in the last two
  minutes and the HMAC of the text and the timestamp, verification returns that user id. From then on every request with
  that nonce is refused for two minutes of the monotonic clock, whatever it contains and whatever requests and clean-ups come in between.\<close>

theorem signed_request_accepted:
  assumes "auth_ext_ok X" and "auth_new X sk secret ttl = Ok a0" and "a = auth_after X a0 ops"
    and "\<And>r' now' t. VerifyReq r' now' t \<in> set ops \<Longrightarrow> ar_nonce r' = ar_nonce r \<Longrightarrow> t + 120000 \<le> inst"
    and "ar_hmac_base r = dec (unat uid) @ 58 # rest" and "utf8_valid rest"
    and "ar_hmac_signature r = ax_mac X secret (ar_hmac_base r @ u64_to_le (ar_timestamp r))"
    and "unat now < 2 ^ 63" and "unat (ar_timestamp r) < 2 ^ 63"
    and "\<bar>int (unat now) - int (unat (ar_timestamp r))\<bar> \<le> 30000"
    and "auth_verify X a r now inst = (res, b)"
    and "ar_nonce r' = ar_nonce r" and "inst' < inst + 120000" and "\<forall>op\<in>set later. auth_op_time op \<le> inst'"
  shows "res = Ok uid \<and> \<not> is_ok (fst (auth_verify X (auth_after X b later) r' now' inst'))"
proof -
  let ?chk = "rc_check_and_insert (au_nonce_cache a) (ar_nonce r) inst"
  have ok0: "auth_ok secret a0" by (rule auth_new_ok [OF assms(2)])
  have ok: "auth_ok secret a" unfolding assms(3) by (rule auth_after_keeps [OF ok0])
  have fresh: "\<not> rc_blocked (au_nonce_cache a) inst (ar_nonce r)"
    using auth_after_seen [OF ok0, of X ops inst "ar_nonce r"] assms(4) auth_new_cache [OF assms(2)]
    unfolding assms(3) by fastforce
  note v = auth_verify_accepts [OF assms(1) ok assms(7) genuine_in_window [OF assms(8-10)] fresh]
  have res: "res = Ok uid" "b = a\<lparr>au_nonce_cache := snd ?chk\<rparr>"
    using v assms(11) extract_user_id_dec [OF assms(6), of uid] by (simp_all add: assms(5))
  have ok': "auth_ok secret b" using auth_verify_keeps [OF ok, of X r now inst] assms(11) by simp
  have "rc_blocked (au_nonce_cache b) inst' (ar_nonce r)"
    using fresh assms(13) ok by (simp add: res(2) auth_ok_def nonce_guard.blocked_check)
  then have "rc_blocked (au_nonce_cache (auth_after X b later)) inst' (ar_nonce r)"
    by (rule auth_after_blocked [OF ok' _ assms(14)])
  then have "\<not> fst (rc_check_and_insert (au_nonce_cache (auth_after X b later)) (ar_nonce r') inst')"
    using auth_after_keeps [OF ok', of X later] by (simp add: auth_ok_def nonce_guard.check_verdict assms(12))
  then show ?thesis
    using res(1) auth_verify_ok_fresh [of X "auth_after X b later" r' now' inst'] by auto
qed

text \<open>Another request with the same nonce comes first, two minutes earlier.\<close>

theorem signed_request_accepted_witness:
  "fst (auth_verify demo_auth (auth_after demo_auth demo_authenticator [VerifyReq demo_request 900000 0]) demo_request 1010000 120000) = Ok 42"
  using signed_request_accepted [OF demo_auth_ok demo_new refl, of "[VerifyReq demo_request 900000 0]" demo_request 120000 42 "dec 5" 1010000
      "fst (auth_verify demo_auth (auth_after demo_auth demo_authenticator [VerifyReq demo_request 900000 0]) demo_request 1010000 120000)"
      "snd (auth_verify demo_auth (auth_after demo_auth demo_authenticator [VerifyReq demo_request 900000 0]) demo_request 1010000 120000)"
      demo_request 0 "[]" 0]
  by (simp add: demo_request_def demo_auth_def dec.simps)

text \<open>C17. A recorded request can be used again under another nonce: the HMAC covers the text and the timestamp only, so once a request was
  accepted, the same text, timestamp and signature with any nonce that was not seen in the last two minutes and any public key of a client
  are accepted again for the same user, as often as wanted, until the window of the timestamp closes.\<close>

theorem request_replayed_with_new_nonce:
  assumes "auth_ext_ok X" and "auth_new X sk secret ttl = Ok a0" and "a = auth_after X a0 ops"
    and "fst (auth_verify X a r now inst) = Ok uid" and "b = auth_after X a0 (ops @ VerifyReq r now inst # later)"
    and "\<And>r' now' t. VerifyReq r' now' t \<in> set (ops @ VerifyReq r now inst # later) \<Longrightarrow> ar_nonce r' = nonce \<Longrightarrow> t + 120000 \<le> inst'"
    and "unat now' < 2 ^ 63" and "unat (ar_timestamp r) < 2 ^ 63" and "\<bar>int (unat now') - int (unat (ar_timestamp r))\<bar> \<le> 30000"
    and "length (ar_hmac_signature r) = 32"
  shows "fst (auth_verify X b (r\<lparr>ar_nonce := nonce, ar_client_pk := pk\<rparr>) now' inst') = Ok uid"
proof -
  have ok0: "auth_ok secret a0" by (rule auth_new_ok [OF assms(2)])
  have ok: "auth_ok secret a" unfolding assms(3) by (rule auth_after_keeps [OF ok0])
  have ok': "auth_ok secret b" unfolding assms(5) by (rule auth_after_keeps [OF ok0])
  have "is_ok (fst (auth_verify X a r now inst))" by (simp add: assms(4))
  note signed = auth_verify_signed [OF assms(1) ok this assms(10)]
  have "\<not> rc_blocked (au_nonce_cache b) inst' nonce"
    using auth_after_seen [OF ok0, of X "ops @ VerifyReq r now inst # later" inst' nonce] assms(6) auth_new_cache [OF assms(2)]
    unfolding assms(5) by fastforce
  with auth_verify_accepts [OF assms(1) ok', of "r\<lparr>ar_nonce := nonce, ar_client_pk := pk\<rparr>" now' inst']
    genuine_in_window [OF assms(7-9)] signed assms(4)
  show ?thesis by simp
qed

theorem request_replayed_with_new_nonce_witness:
  "fst (auth_verify demo_auth (auth_after demo_auth demo_authenticator [VerifyReq demo_request 1000000 0])
     (demo_request\<lparr>ar_nonce := replicate 32 4, ar_client_pk := replicate 32 9\<rparr>) 1020000 20000) = Ok 42"
proof -
  have "fst (auth_verify demo_auth demo_authenticator demo_request 1000000 0) = extract_user_id (ar_hmac_base demo_request)"
    by (subst auth_verify_accepts [OF demo_auth_ok auth_new_ok [OF demo_new]])
      (simp_all add: demo_request_def demo_auth_def demo_authenticator_def i64_gt_def i64_abs_def)
  also have "\<dots> = Ok 42"
    using extract_user_id_dec [of "dec 5" 42] by (simp add: demo_request_def dec.simps)
  finally have "fst (auth_verify demo_auth (auth_after demo_auth demo_authenticator []) demo_request 1000000 0) = Ok 42" by simp
  from request_replayed_with_new_nonce [OF demo_auth_ok demo_new refl this refl, of "[]" "replicate 32 4" 20000 1020000 "replicate 32 9"]
  show ?thesis by (simp add: demo_request_def)
qed

end
