(* ===== verification/Obfuscation.thy ===== *)
theory Obfuscation
  imports Rust_Std
begin

text \<open>
  The obfuscation crate: the XOR mask (\<^verbatim>\<open>xor_mask.rs\<close>) with its vectorised variants, packet padding
  (\<^verbatim>\<open>padding.rs\<close>) and compression (\<^verbatim>\<open>compression.rs\<close>). The clock is an argument in seconds;
  \<^verbatim>\<open>fastrand\<close> is the parameter \<open>rng\<close>, \<^verbatim>\<open>zstd\<close> the parameter \<open>zstd_ext\<close>. \<open>None\<close> is a panic (a division by
  zero, an empty range). The weights of a size distribution, which no operation here reads, are
  in percent.
\<close>

section \<open>XOR mask\<close>

record XorMask =
  xm_session_key :: u64
  xm_time_step :: u64

definition xm_new :: "u64 \<Rightarrow> XorMask" where
  "xm_new session_key = \<lparr>xm_session_key = session_key, xm_time_step = 60\<rparr>"

definition with_time_step :: "u64 \<Rightarrow> u64 \<Rightarrow> XorMask" where
  "with_time_step session_key time_step = \<lparr>xm_session_key = session_key, xm_time_step = time_step\<rparr>"

definition xm_default :: XorMask where
  "xm_default = xm_new 0xDEADBEEFCAFEBABE"

definition xorshift :: "u64 \<Rightarrow> u64" where
  "xorshift state =
     (let state = state XOR push_bit 13 state;
          state = state XOR drop_bit 7 state;
          state = state XOR push_bit 17 state
      in state)"

fun mask_loop :: "nat \<Rightarrow> u64 \<Rightarrow> bytes" where
  "mask_loop 0 state = []"
| "mask_loop (Suc n) state =
     (let state' = xorshift state in ucast (state' AND 0xFF) # mask_loop n state')"

definition generate_mask :: "XorMask \<Rightarrow> u64 \<Rightarrow> nat \<Rightarrow> bytes option" where
  "generate_mask x now len =
     (if xm_time_step x = 0 then None
      else let seed = (now div xm_time_step x) XOR xm_session_key x in Some (mask_loop len seed))"

definition xor_scalar :: "bytes \<Rightarrow> bytes \<Rightarrow> bytes" where
  "xor_scalar data msk = map2 (XOR) data msk @ drop (length msk) data"

text \<open>The vector loop on \<open>w\<close> lanes of a byte: load, XOR, store at index \<open>i\<close>.\<close>

function simd_loop :: "nat \<Rightarrow> bytes \<Rightarrow> nat \<Rightarrow> bytes \<Rightarrow> nat \<times> bytes" where
  "simd_loop w msk i data =
     (if 0 < w \<and> i + w \<le> length data
      then let vec = map2 (XOR) (take w (drop i data)) (take w (drop i msk)) in
        simd_loop w msk (i + w) (take i data @ vec @ drop (i + length vec) data)
      else (i, data))"
  by pat_completeness auto
termination
  by (relation "measure (\<lambda>(w, msk, i, data). length data - i)") auto

declare simd_loop.simps [simp del]

definition xor_tail :: "bytes \<Rightarrow> nat \<Rightarrow> bytes \<Rightarrow> bytes" where
  "xor_tail msk i data = fold (\<lambda>j d. d[j := d ! j XOR msk ! j]) [i..<length data] data"

definition xor_avx2 :: "bytes \<Rightarrow> bytes \<Rightarrow> bytes" where
  "xor_avx2 data msk = (let (i, data') = simd_loop 32 msk 0 data in xor_tail msk i data')"

definition xor_neon :: "bytes \<Rightarrow> bytes \<Rightarrow> bytes" where
  "xor_neon data msk = (let (i, data') = simd_loop 16 msk 0 data in xor_tail msk i data')"

datatype target = X86_64_avx2 | Aarch64_neon | Portable

definition xor_with_mask :: "target \<Rightarrow> bytes \<Rightarrow> bytes \<Rightarrow> bytes" where
  "xor_with_mask tgt data msk =
     (case tgt of
        X86_64_avx2 \<Rightarrow> xor_avx2 data msk
      | Aarch64_neon \<Rightarrow> xor_neon data msk
      | Portable \<Rightarrow> xor_scalar data msk)"

definition xm_apply :: "target \<Rightarrow> XorMask \<Rightarrow> u64 \<Rightarrow> bytes \<Rightarrow> bytes option" where
  "xm_apply tgt x now data =
     (case generate_mask x now (length data) of
        None \<Rightarrow> None | Some msk \<Rightarrow> Some (xor_with_mask tgt data msk))"

definition apply_inplace :: "target \<Rightarrow> XorMask \<Rightarrow> u64 \<Rightarrow> bytes \<Rightarrow> bytes option" where
  "apply_inplace tgt x now data =
     (case generate_mask x now (length data) of
        None \<Rightarrow> None | Some msk \<Rightarrow> Some (xor_with_mask tgt data msk))"

section \<open>Padding\<close>

definition SIZE_DISTRIBUTION :: "(nat \<times> nat) list" where
  "SIZE_DISTRIBUTION = [(512, 40), (1024, 20), (2048, 15), (4096, 15), (8192, 7), (16384, 3)]"

definition JITTER_PERCENT :: nat where
  "JITTER_PERCENT = 10"

datatype SizeDistribution =
    Fixed "(nat \<times> nat) list"
  | Learned "(nat \<times> nat) list"
  | Random nat nat
  | Normal nat nat

record PaddingStrategy =
  ps_jitter :: bool
  ps_min_size :: nat
  ps_size_distribution :: SizeDistribution

definition padding_default :: PaddingStrategy where
  "padding_default = \<lparr>ps_jitter = True, ps_min_size = 64, ps_size_distribution = Fixed SIZE_DISTRIBUTION\<rparr>"

definition no_jitter :: PaddingStrategy where
  "no_jitter = \<lparr>ps_jitter = False, ps_min_size = 64, ps_size_distribution = Fixed SIZE_DISTRIBUTION\<rparr>"

text \<open>\<^verbatim>\<open>fastrand\<close>: a value in a half-open or closed range, bytes, and the rounded normal sample, whose
  floating-point arithmetic is not modelled.\<close>

record rng =
  rg_range :: "nat \<Rightarrow> nat \<Rightarrow> nat"
  rg_range_incl :: "nat \<Rightarrow> nat \<Rightarrow> nat"
  rg_bytes :: "nat \<Rightarrow> bytes"
  rg_normal :: "nat \<Rightarrow> nat \<Rightarrow> nat"

definition rng_ok :: "rng \<Rightarrow> bool" where
  "rng_ok G \<longleftrightarrow> (\<forall>a b. a < b \<longrightarrow> a \<le> rg_range G a b \<and> rg_range G a b < b) \<and>
     (\<forall>a b. a \<le> b \<longrightarrow> a \<le> rg_range_incl G a b \<and> rg_range_incl G a b \<le> b) \<and>
     (\<forall>n. length (rg_bytes G n) = n)"

definition next_size :: "(nat \<times> nat) list \<Rightarrow> nat \<Rightarrow> nat" where
  "next_size dist payload_len =
     (case List.find (\<lambda>(sz, _). sz > payload_len) dist of Some (sz, _) \<Rightarrow> sz | None \<Rightarrow> 16384)"

definition base_target :: "PaddingStrategy \<Rightarrow> rng \<Rightarrow> nat \<Rightarrow> nat option" where
  "base_target p G payload_len =
     (case ps_size_distribution p of
        Fixed dist \<Rightarrow> Some (next_size dist payload_len)
      | Learned dist \<Rightarrow> Some (next_size dist payload_len)
      | Random mn mx \<Rightarrow>
          if payload_len \<ge> mx then Some mx
          else if max payload_len mn < mx then Some (rg_range G (max payload_len mn) mx)
          else None
      | Normal mean std_dev \<Rightarrow> Some (max (rg_normal G mean std_dev) payload_len))"

definition calculate_target_size :: "PaddingStrategy \<Rightarrow> rng \<Rightarrow> nat \<Rightarrow> nat option" where
  "calculate_target_size p G payload_len =
     (case base_target p G payload_len of
        None \<Rightarrow> None
      | Some base \<Rightarrow>
          let target = max base (ps_min_size p) in
          if ps_jitter p
          then let jitter_range = target div JITTER_PERCENT;
                   jitter = rg_range_incl G 0 (jitter_range * 2) in
            Some (target - jitter_range + jitter)
          else Some target)"

definition calculate_padding_len :: "PaddingStrategy \<Rightarrow> rng \<Rightarrow> nat \<Rightarrow> nat option" where
  "calculate_padding_len p G payload_len =
     map_option (\<lambda>target. target - payload_len) (calculate_target_size p G payload_len)"

definition pad :: "PaddingStrategy \<Rightarrow> rng \<Rightarrow> bytes \<Rightarrow> bytes option" where
  "pad p G data =
     (case calculate_padding_len p G (length data) of
        None \<Rightarrow> None
      | Some padding_len \<Rightarrow>
          Some (u32_to_le (word_of_nat (length data)) @ data @ rg_bytes G padding_len))"

definition unpad :: "bytes \<Rightarrow> bytes option" where
  "unpad data =
     (if length data < 4 then None
      else let original_len = unat (u32_from_le (take 4 data)) in
        if length data < 4 + original_len then None
        else Some (take original_len (drop 4 data)))"

section \<open>Compression\<close>

definition COMPRESSION_THRESHOLD :: nat where
  "COMPRESSION_THRESHOLD = 1024"

definition DEFAULT_COMPRESSION_LEVEL :: int where
  "DEFAULT_COMPRESSION_LEVEL = 3"

datatype CompressionError =
    CompressionFailed string
  | DecompressionFailed string
  | NotCompressed

record 's zstd_ext =
  z_encode_all :: "bytes \<Rightarrow> int \<Rightarrow> (bytes, string) result"
  z_decode_all :: "bytes \<Rightarrow> (bytes, string) result"
  z_decoder :: "bytes \<Rightarrow> ('s, string) result"
  z_read :: "'s \<Rightarrow> (bytes \<times> 's, string) result"

text \<open>The crate: what was encoded decodes to itself.\<close>

definition zstd_ok :: "'s zstd_ext \<Rightarrow> bool" where
  "zstd_ok Z \<longleftrightarrow> (\<forall>d l c. z_encode_all Z d l = Ok c \<longrightarrow> z_decode_all Z c = Ok d)"

definition compress_with_level :: "'s zstd_ext \<Rightarrow> bytes \<Rightarrow> int \<Rightarrow> (bytes, CompressionError) result" where
  "compress_with_level Z data level =
     (case z_encode_all Z data level of Ok c \<Rightarrow> Ok c | Err e \<Rightarrow> Err (CompressionFailed e))"

definition compress :: "'s zstd_ext \<Rightarrow> bytes \<Rightarrow> (bytes, CompressionError) result" where
  "compress Z data = compress_with_level Z data DEFAULT_COMPRESSION_LEVEL"

definition compress_if_needed :: "'s zstd_ext \<Rightarrow> bytes \<Rightarrow> (bytes \<times> bool, CompressionError) result" where
  "compress_if_needed Z data =
     (if length data < COMPRESSION_THRESHOLD then Ok (data, False)
      else case compress Z data of Ok c \<Rightarrow> Ok (c, True) | Err e \<Rightarrow> Err e)"

definition decompress :: "'s zstd_ext \<Rightarrow> bytes \<Rightarrow> (bytes, CompressionError) result" where
  "decompress Z data =
     (case z_decode_all Z data of Ok d \<Rightarrow> Ok d | Err e \<Rightarrow> Err (DecompressionFailed e))"

definition limit_message :: "nat \<Rightarrow> string" where
  "limit_message max_size = ''Decompressed size exceeds limit of '' @ dec_str max_size @ '' bytes''"

lemma shrinks: "length x \<noteq> 0 \<Longrightarrow> \<not> m < length a + length x \<Longrightarrow> m - length (a @ x) < m - length a"
  by (cases x) auto

text \<open>The loop ends because every chunk that is not the last adds a byte below the limit.\<close>

function decompress_loop ::
  "'s zstd_ext \<Rightarrow> nat \<Rightarrow> 's \<Rightarrow> bytes \<Rightarrow> (bytes, CompressionError) result" where
  "decompress_loop Z max_size decoder acc =
     (case z_read Z decoder of
        Err e \<Rightarrow> Err (DecompressionFailed e)
      | Ok (chunk, decoder') \<Rightarrow>
          if length chunk = 0 then Ok acc
          else if length acc + length chunk > max_size
          then Err (DecompressionFailed (limit_message max_size))
          else decompress_loop Z max_size decoder' (acc @ chunk))"
  by pat_completeness auto
termination
  by (relation "measure (\<lambda>(Z, max_size, decoder, acc). max_size - length acc)")
    (simp, simp add: shrinks del: length_append length_0_conv)

declare decompress_loop.simps [simp del]

definition decompress_with_limit ::
  "'s zstd_ext \<Rightarrow> bytes \<Rightarrow> nat \<Rightarrow> (bytes, CompressionError) result" where
  "decompress_with_limit Z data max_size =
     (case z_decoder Z data of
        Err e \<Rightarrow> Err (DecompressionFailed e)
      | Ok decoder \<Rightarrow> decompress_loop Z max_size decoder [])"

definition zstd_is_compressed :: "bytes \<Rightarrow> bool" where
  "zstd_is_compressed data \<longleftrightarrow> length data \<ge> 4 \<and> data ! 0 = 0x28 \<and> data ! 1 = 0xB5 \<and>
     data ! 2 = 0x2F \<and> data ! 3 = 0xFD"

section \<open>The vector loops compute the scalar XOR\<close>

lemma map2_append_take_drop:
  "length xs = length ys \<Longrightarrow> map2 f (take (i + w) xs) (take (i + w) ys) =
     map2 f (take i xs) (take i ys) @ map2 f (take w (drop i xs)) (take w (drop i ys))"
  by (simp add: take_add zip_append)

lemma simd_loop_result:
  assumes "length d0 = length msk" "i \<le> length d0"
    "data = map2 (XOR) (take i d0) (take i msk) @ drop i d0"
  shows "\<exists>i'. i \<le> i' \<and> i' \<le> length d0 \<and>
    simd_loop w msk i data = (i', map2 (XOR) (take i' d0) (take i' msk) @ drop i' d0)"
  using assms
proof (induction w msk i data rule: simd_loop.induct)
  case (1 w msk i data)
  have len: "length data = length d0" using "1.prems" by simp
  show ?case
  proof (cases "0 < w \<and> i + w \<le> length data")
    case True
    let ?vec = "map2 (XOR) (take w (drop i data)) (take w (drop i msk))"
    let ?data' = "take i data @ ?vec @ drop (i + length ?vec) data"
    have "w \<le> length msk - i" using True len "1.prems"(1) by linarith
    then have parts: "take i data = map2 (XOR) (take i d0) (take i msk)" "drop i data = drop i d0"
      "drop (i + w) data = drop (i + w) d0" "length ?vec = w"
      using True len "1.prems" by (simp_all add: add.commute [of w] min_absorb2)
    have data': "?data' = map2 (XOR) (take (i + w) d0) (take (i + w) msk) @ drop (i + w) d0"
      unfolding parts(3,4) unfolding parts(1,2) map2_append_take_drop [OF "1.prems"(1)] by simp
    from "1.IH" [OF True refl] data' True len "1.prems" obtain i' where
      "i + w \<le> i'" "i' \<le> length d0"
      "simd_loop w msk (i + w) ?data' = (i', map2 (XOR) (take i' d0) (take i' msk) @ drop i' d0)"
      by auto
    with True show ?thesis
      by (subst simd_loop.simps) (auto simp: Let_def intro!: exI [of _ i'])
  next
    case False
    with "1.prems" show ?thesis
      by (subst simd_loop.simps) auto
  qed
qed

lemma xor_tail_result:
  assumes "length d0 = length msk" "i \<le> length d0"
  shows "xor_tail msk i (map2 (XOR) (take i d0) (take i msk) @ drop i d0) = map2 (XOR) d0 msk"
proof -
  let ?st = "\<lambda>j. map2 (XOR) (take j d0) (take j msk) @ drop j d0"
  have step: "(?st j)[j := ?st j ! j XOR msk ! j] = ?st (Suc j)" if "j < length d0" for j
  proof -
    have "drop j d0 = d0 ! j # drop (Suc j) d0"
      using that by (simp add: Cons_nth_drop_Suc)
    then show ?thesis
      using that assms(1) by (simp add: take_Suc_conv_app_nth nth_append list_update_append)
  qed
  have "fold (\<lambda>j d. d[j := d ! j XOR msk ! j]) [i..<i + n] (?st i) = ?st (i + n)" if "i + n \<le> length d0" for n
    using that
  proof (induction n)
    case (Suc n)
    then show ?case using step [of "i + n"] by simp
  qed simp
  from this [of "length d0 - i"] assms show ?thesis
    by (simp add: xor_tail_def)
qed

lemma simd_xor:
  assumes "length data = length msk"
  shows "(let (i, data') = simd_loop w msk 0 data in xor_tail msk i data') = xor_scalar data msk"
proof -
  obtain i' where "i' \<le> length data"
    "simd_loop w msk 0 data = (i', map2 (XOR) (take i' data) (take i' msk) @ drop i' data)"
    using simd_loop_result [OF assms, of 0 data w] by auto
  then show ?thesis
    using xor_tail_result [OF assms] assms by (simp add: xor_scalar_def)
qed

lemma xor_with_mask_scalar:
  "length data = length msk \<Longrightarrow> xor_with_mask tgt data msk = map2 (XOR) data msk"
  using simd_xor [of data msk] by (cases tgt) (simp_all add: xor_with_mask_def xor_avx2_def xor_neon_def xor_scalar_def)

section \<open>Masking\<close>

lemma length_mask_loop [simp]: "length (mask_loop n s) = n"
  by (induction n arbitrary: s) (simp_all add: Let_def)

lemma xm_apply_eq:
  "xm_time_step x \<noteq> 0 \<Longrightarrow> xm_apply tgt x now data =
     Some (map2 (XOR) data (mask_loop (length data) ((now div xm_time_step x) XOR xm_session_key x)))"
  by (simp add: xm_apply_def generate_mask_def Let_def xor_with_mask_scalar)

lemma map2_xor_self: "length xs = length ys \<Longrightarrow> map2 (XOR) (map2 (XOR) (xs :: bytes) ys) ys = xs"
  by (induction xs ys rule: list_induct2) (simp_all add: xor.assoc)

lemma xm_apply_apply:
  assumes "xm_time_step x \<noteq> 0" "t1 div xm_time_step x = t2 div xm_time_step x"
    "xm_apply tgt1 x t1 data = Some masked"
  shows "xm_apply tgt2 x t2 masked = Some data"
  using assms by (auto simp: xm_apply_eq map2_xor_self)

lemma length_xm_apply: "xm_apply tgt x t data = Some masked \<Longrightarrow> length masked = length data"
  by (cases "xm_time_step x = 0") (auto simp: xm_apply_eq, simp add: xm_apply_def generate_mask_def)

section \<open>The generator never reaches zero\<close>

lemma xor_zero_eq: "(a :: u64) XOR b = 0 \<longleftrightarrow> a = b"
proof
  assume "a XOR b = 0"
  then have "(a XOR b) XOR b = 0 XOR b" by (rule arg_cong)
  then show "a = b" by (simp only: xor.assoc xor_self_eq xor.right_neutral xor.left_neutral)
qed (simp only: xor_self_eq)

lemma push_bit_fixpoint: "0 < k \<Longrightarrow> (x :: u64) = push_bit k x \<Longrightarrow> x = 0"
proof -
  assume k: "0 < k" and x: "x = push_bit k x"
  have "\<not> bit x n" for n
  proof (induction n rule: less_induct)
    case (less n)
    show ?case
    proof
      assume "bit x n"
      then have "bit (push_bit k x) n" using x by simp
      then have "k \<le> n" "bit x (n - k)" by (simp_all add: bit_simps)
      with less k show False by simp
    qed
  qed
  then show "x = 0" by (simp add: bit_eq_iff)
qed

lemma drop_bit_fixpoint: "0 < k \<Longrightarrow> (x :: u64) = drop_bit k x \<Longrightarrow> x = 0"
proof -
  assume k: "0 < k" and x: "x = drop_bit k x"
  have climb: "bit x n \<Longrightarrow> bit x (n + m * k)" for n m
  proof (induction m)
    case (Suc m)
    then have "bit (drop_bit k x) (n + m * k)" using x by simp
    then show ?case by (simp add: bit_simps add.commute add.left_commute)
  qed simp
  have "\<not> bit x n" for n
  proof
    assume "bit x n"
    from climb [OF this, of 64] have "n + 64 * k < 64"
      using bit_imp_le_length [of x "n + 64 * k"] by simp
    with k show False by simp
  qed
  then show "x = 0" by (simp add: bit_eq_iff)
qed

lemma xor_push_zero: "0 < k \<Longrightarrow> (x :: u64) XOR push_bit k x = 0 \<longleftrightarrow> x = 0"
  using push_bit_fixpoint [of k x] by (auto simp: xor_zero_eq)

lemma xor_drop_zero: "0 < k \<Longrightarrow> (x :: u64) XOR drop_bit k x = 0 \<longleftrightarrow> x = 0"
  using drop_bit_fixpoint [of k x] by (auto simp: xor_zero_eq)

lemma xorshift_zero_iff: "xorshift s = 0 \<longleftrightarrow> s = 0"
  by (simp only: xorshift_def Let_def xor_push_zero [of 17, simplified] xor_push_zero [of 13, simplified]
      xor_drop_zero [of 7, simplified])

lemma xorshift_iterate_nonzero: "s \<noteq> 0 \<Longrightarrow> (xorshift ^^ n) s \<noteq> 0"
  by (induction n) (simp_all add: xorshift_zero_iff)

lemma mask_loop_zero: "mask_loop n 0 = replicate n 0"
  by (induction n) (simp_all add: xorshift_zero_iff [THEN iffD2])

lemma map2_xor_zero: "map2 (XOR) (xs :: bytes) (replicate (length xs) 0) = xs"
  by (induction xs) simp_all

section \<open>Padding\<close>

lemma unpad_pad:
  assumes "pad p G data = Some padded" "length data < 2 ^ 32"
  shows "unpad padded = Some data"
proof -
  have "unat (word_of_nat (length data) :: u32) = length data"
    using assms(2) by (simp add: unat_of_nat)
  with assms(1) show ?thesis
    by (auto simp: pad_def unpad_def Let_def split: option.splits)
qed

lemma unpad_truncated:
  assumes "pad p G data = Some padded" "length data < 2 ^ 32" "n < 4 + length data"
  shows "unpad (take n padded) = None"
proof -
  have "unat (word_of_nat (length data) :: u32) = length data"
    using assms(2) by (simp add: unat_of_nat)
  with assms(1,3) show ?thesis
    by (auto simp: pad_def unpad_def Let_def split: option.splits)
qed

lemma next_size_default: "n < 16384 \<Longrightarrow> n < next_size SIZE_DISTRIBUTION n \<and> next_size SIZE_DISTRIBUTION n \<in> {512, 1024, 2048, 4096, 8192, 16384}"
  by (auto simp: next_size_def SIZE_DISTRIBUTION_def)

text \<open>A size drawn from the distribution: \<open>lt\<close>, \<open>add\<close> and \<open>percent\<close> are the comparison, the sum and the constants of 32-bit
  floats.\<close>

fun select_size ::
  "('f \<Rightarrow> 'f \<Rightarrow> bool) \<Rightarrow> ('f \<Rightarrow> 'f \<Rightarrow> 'f) \<Rightarrow> (nat \<Rightarrow> 'f) \<Rightarrow> 'f \<Rightarrow> 'f \<Rightarrow> (nat \<times> nat) list \<Rightarrow> nat" where
  "select_size lt add percent r cumulative [] = 8192"
| "select_size lt add percent r cumulative ((sz, prob) # rest) =
     (let cumulative = add cumulative (percent prob) in
      if lt r cumulative then sz else select_size lt add percent r cumulative rest)"

definition select_distributed_size ::
  "('f \<Rightarrow> 'f \<Rightarrow> bool) \<Rightarrow> ('f \<Rightarrow> 'f \<Rightarrow> 'f) \<Rightarrow> (nat \<Rightarrow> 'f) \<Rightarrow> 'f \<Rightarrow> nat" where
  "select_distributed_size lt add percent r = select_size lt add percent r (percent 0) SIZE_DISTRIBUTION"

lemma select_distributed_size_listed: "select_distributed_size lt add percent r \<in> fst ` set SIZE_DISTRIBUTION"
  by (simp add: select_distributed_size_def SIZE_DISTRIBUTION_def Let_def)

text \<open>With exact arithmetic every size is drawn for as many of the hundred percentiles as the table says.\<close>

lemma select_distributed_size_share:
  "(sz, prob) \<in> set SIZE_DISTRIBUTION \<Longrightarrow>
     length (filter (\<lambda>r. select_distributed_size (<) (+) id r = sz) [0..<100]) = prob"
  by (auto simp: select_distributed_size_def SIZE_DISTRIBUTION_def Let_def upt_rec)

lemma target_jitter:
  assumes "rng_ok G" "ps_jitter p" "base_target p G n = Some base" "calculate_target_size p G n = Some t"
  shows "max base (ps_min_size p) - max base (ps_min_size p) div 10 \<le> t \<and>
    t \<le> max base (ps_min_size p) + max base (ps_min_size p) div 10"
proof -
  let ?t = "max base (ps_min_size p)"
  have "rg_range_incl G 0 (?t div 10 * 2) \<le> ?t div 10 * 2"
    using assms(1) by (simp add: rng_ok_def)
  moreover have "t = ?t - ?t div 10 + rg_range_incl G 0 (?t div 10 * 2)"
    using assms(2-4) by (simp add: calculate_target_size_def JITTER_PERCENT_def Let_def)
  moreover have "?t div 10 \<le> ?t" by simp
  ultimately show ?thesis by linarith
qed

section \<open>Decompression\<close>

lemma decompress_loop_bound:
  "decompress_loop Z m s acc = Ok out \<Longrightarrow> length acc \<le> m \<Longrightarrow> length out \<le> m"
proof (induction Z m s acc rule: decompress_loop.induct)
  case (1 Z m s acc)
  from "1.prems" show ?case
    by (subst (asm) decompress_loop.simps) (auto split: result.splits if_splits prod.splits intro: "1.IH")
qed

lemma compress_decompress:
  "zstd_ok Z \<Longrightarrow> compress Z data = Ok c \<Longrightarrow> decompress Z c = Ok data"
  by (auto simp: compress_def compress_with_level_def decompress_def zstd_ok_def split: result.splits)

section \<open>Properties\<close>

text \<open>Unmasking undoes masking: two parties with the same session key, on any mix of processors
  with and without vector instructions, recover the data whenever their clocks fall into the same
  rotation window; the vectorised loops compute the bytewise XOR.\<close>

theorem mask_involution:
  assumes "xm_time_step x \<noteq> 0" and "t1 div xm_time_step x = t2 div xm_time_step x"
    and "xm_apply tgt1 x t1 data = Some masked"
  shows "xm_apply tgt2 x t2 masked = Some data \<and> length masked = length data \<and>
    xm_apply tgt2 x t1 data = Some masked"
  using xm_apply_apply [OF assms] length_xm_apply [OF assms(3)] assms(1,3) by (simp add: xm_apply_eq)

text \<open>C25. The vectorised maskings, of 32 bytes at a time with AVX2 and 16 with NEON and a scalar tail, compute
  what the scalar loop does on every length of data: the XOR of each byte with its byte of the mask.\<close>

theorem simd_equals_scalar:
  assumes "length data = length msk"
  shows "xor_with_mask tgt data msk = xor_scalar data msk \<and> length (xor_with_mask tgt data msk) = length data \<and>
    (\<forall>i < length data. xor_with_mask tgt data msk ! i = data ! i XOR msk ! i)"
  using xor_with_mask_scalar [OF assms] assms by (simp add: xor_scalar_def)

theorem simd_equals_scalar_witness:
  "xor_with_mask Aarch64_neon (replicate 33 1) (replicate 33 3) = xor_scalar (replicate 33 1) (replicate 33 3) \<and>
   xor_with_mask Aarch64_neon (replicate 33 1) (replicate 33 3) ! 32 = 2"
proof -
  have "length (replicate 33 1 :: bytes) = length (replicate 33 3 :: bytes)" by simp
  note eq = simd_equals_scalar [OF this, of Aarch64_neon]
  from eq [THEN conjunct2, THEN conjunct2, rule_format, of 32]
  have "xor_with_mask Aarch64_neon (replicate 33 1) (replicate 33 3) ! 32 = 2" by simp
  with eq show ?thesis by blast
qed

text \<open>A session key equal to the number of the current window disables the mask: the generator is
  seeded with zero, stays there, and the data is sent as it is. For every other key the state of
  the generator never becomes zero.\<close>

theorem weak_key_sends_plaintext:
  "xm_apply tgt (xm_new (now div 60)) now data = Some data \<and>
   (key \<noteq> now div 60 \<longrightarrow> (xorshift ^^ n) ((now div 60) XOR key) \<noteq> 0)"
proof
  show "xm_apply tgt (xm_new (now div 60)) now data = Some data"
    by (simp add: xm_apply_eq xm_new_def mask_loop_zero map2_xor_zero)
  show "key \<noteq> now div 60 \<longrightarrow> (xorshift ^^ n) ((now div 60) XOR key) \<noteq> 0"
    by (metis xor_zero_eq xorshift_iterate_nonzero)
qed

text \<open>Padding is removed exactly: for data below 4 GiB, removing the padding gives the data back
  whatever the strategy and the random bytes, and a packet cut before the end of the data is
  refused.\<close>

theorem unpad_inverts_pad:
  assumes "pad p G data = Some padded" and "length data < 2 ^ 32"
  shows "unpad padded = Some data \<and> (\<forall>n < 4 + length data. unpad (take n padded) = None)"
  using unpad_pad [OF assms] unpad_truncated [OF assms] by simp

text \<open>Decompression with a limit always returns, whatever the decoder produces, and what it
  returns is never longer than the limit.\<close>

theorem decompress_limit_respected:
  "decompress_with_limit Z data max_size = Ok out \<Longrightarrow> length out \<le> max_size"
  by (auto simp: decompress_with_limit_def split: result.splits intro: decompress_loop_bound)

definition demo_zstd :: "nat zstd_ext" where
  "demo_zstd = \<lparr>z_encode_all = \<lambda>d l. Ok (1 # d), z_decode_all = \<lambda>c. case c of [] \<Rightarrow> Err ''empty'' | _ # d \<Rightarrow> Ok d,
     z_decoder = \<lambda>d. Ok (length d), z_read = \<lambda>s. Ok (if s = 0 then [] else replicate 3 0, s - 1)\<rparr>"

end
