(* ===== verification/Frame_Codec.thy ===== *)
theory Frame_Codec
  imports Protocol_Frames Obfuscation
begin

text \<open>
  Frames on the wire. \<^verbatim>\<open>transport/src/frame_codec.rs\<close>: serialise, compress, mask, pad. The sessions of
  \<^verbatim>\<open>client/src/wss.rs\<close> and of the WebSocket task in \<^verbatim>\<open>daemon/src/handler.rs\<close>: serialise, pad, mask, the
  same on both sides. The serialisation by rkyv is the parameter \<open>frame_ext\<close>. A WebSocket
  stream is the list of its remaining events, each with the receiver's clock at that moment; the
  end of the list is the end of the stream. As in \<open>Obfuscation\<close>, \<open>None\<close> is a panic.
\<close>

section \<open>The codec\<close>

record frame_ext =
  fx_to_bytes :: "ProxyFrame \<Rightarrow> (bytes, string) result"
  fx_from_bytes :: "bytes \<Rightarrow> (ProxyFrame, string) result"

definition frame_ext_ok :: "frame_ext \<Rightarrow> bool" where
  "frame_ext_ok F \<longleftrightarrow> (\<forall>f b. fx_to_bytes F f = Ok b \<longrightarrow> fx_from_bytes F b = Ok f)"

datatype CodecError =
    SerializationFailed string
  | DeserializationFailed string
  | CodecCompressionFailed CompressionError
  | CodecDecompressionFailed CompressionError
  | InvalidFrameFormat

record FrameCodec =
  fc_xor_mask :: XorMask
  fc_padding :: PaddingStrategy
  fc_compression_enabled :: bool

definition fc_new :: "u64 \<Rightarrow> FrameCodec" where
  "fc_new session_key = \<lparr>fc_xor_mask = xm_new session_key, fc_padding = padding_default,
     fc_compression_enabled = True\<rparr>"

definition without_compression :: "u64 \<Rightarrow> FrameCodec" where
  "without_compression session_key = \<lparr>fc_xor_mask = xm_new session_key, fc_padding = padding_default,
     fc_compression_enabled = False\<rparr>"

definition fc_encode ::
  "frame_ext \<Rightarrow> 's zstd_ext \<Rightarrow> target \<Rightarrow> rng \<Rightarrow> FrameCodec \<Rightarrow> u64 \<Rightarrow> ProxyFrame \<Rightarrow>
     (bytes, CodecError) result option" where
  "fc_encode F Z tgt G c now frame =
     (case fx_to_bytes F frame of
        Err e \<Rightarrow> Some (Err (SerializationFailed e))
      | Ok bytes \<Rightarrow>
          (case (if fc_compression_enabled c then compress_if_needed Z bytes else Ok (bytes, False)) of
             Err e \<Rightarrow> Some (Err (CodecCompressionFailed e))
           | Ok (data, compressed) \<Rightarrow>
               (case xm_apply tgt (fc_xor_mask c) now data of
                  None \<Rightarrow> None
                | Some masked \<Rightarrow>
                    (case pad (fc_padding c) G masked of
                       None \<Rightarrow> None
                     | Some padded \<Rightarrow> Some (Ok ((if compressed then 0x01 else 0x00) # padded))))))"

definition fc_decode ::
  "frame_ext \<Rightarrow> 's zstd_ext \<Rightarrow> target \<Rightarrow> FrameCodec \<Rightarrow> u64 \<Rightarrow> bytes \<Rightarrow>
     (ProxyFrame, CodecError) result option" where
  "fc_decode F Z tgt c now data =
     (case data of
        [] \<Rightarrow> Some (Err InvalidFrameFormat)
      | flags # remaining \<Rightarrow>
          let compressed = (flags AND 0x01 \<noteq> 0) in
          case unpad remaining of
            None \<Rightarrow> Some (Err InvalidFrameFormat)
          | Some unpadded \<Rightarrow>
              (case xm_apply tgt (fc_xor_mask c) now unpadded of
                 None \<Rightarrow> None
               | Some unmasked \<Rightarrow>
                   (case (if compressed then decompress Z unmasked else Ok unmasked) of
                      Err e \<Rightarrow> Some (Err (CodecDecompressionFailed e))
                    | Ok bytes \<Rightarrow>
                        (case fx_from_bytes F bytes of
                           Err e \<Rightarrow> Some (Err (DeserializationFailed e))
                         | Ok frame \<Rightarrow> Some (Ok frame)))))"

section \<open>Sessions\<close>

text \<open>\<^verbatim>\<open>WssSession::send_frame\<close>, \<^verbatim>\<open>WssSender::send_frame\<close> and the sending task of the daemon: the
  message put on the stream.\<close>

definition send_frame ::
  "frame_ext \<Rightarrow> target \<Rightarrow> rng \<Rightarrow> u64 \<Rightarrow> u64 \<Rightarrow> ProxyFrame \<Rightarrow> (bytes, string) result option" where
  "send_frame F tgt G session_key now frame =
     (case fx_to_bytes F frame of
        Err e \<Rightarrow> Some (Err e)
      | Ok frame_bytes \<Rightarrow>
          (case pad padding_default G frame_bytes of
             None \<Rightarrow> None
           | Some padded \<Rightarrow>
               (case xm_apply tgt (xm_new session_key) now padded of
                  None \<Rightarrow> None | Some masked \<Rightarrow> Some (Ok masked))))"

datatype ws_event = WsBinary bytes | WsClose | WsOther | WsErr string

definition encode_to_message ::
  "frame_ext \<Rightarrow> 's zstd_ext \<Rightarrow> target \<Rightarrow> rng \<Rightarrow> FrameCodec \<Rightarrow> u64 \<Rightarrow> ProxyFrame \<Rightarrow>
     (ws_event, CodecError) result option" where
  "encode_to_message F Z tgt G c now frame =
     (case fc_encode F Z tgt G c now frame of
        None \<Rightarrow> None | Some (Err e) \<Rightarrow> Some (Err e) | Some (Ok bytes) \<Rightarrow> Some (Ok (WsBinary bytes)))"

text \<open>\<^verbatim>\<open>WssSession::recv_frame\<close> and \<^verbatim>\<open>WssReceiver::recv_frame\<close>: the frame, the end of the connection
  or an error, with the events not yet consumed.\<close>

fun recv_frame ::
  "frame_ext \<Rightarrow> target \<Rightarrow> u64 \<Rightarrow> (u64 \<times> ws_event) list \<Rightarrow>
     (ProxyFrame option, string) result option \<times> (u64 \<times> ws_event) list" where
  "recv_frame F tgt session_key [] = (Some (Ok None), [])"
| "recv_frame F tgt session_key ((now, msg) # rx) =
     (case msg of
        WsErr e \<Rightarrow> (Some (Err e), rx)
      | WsClose \<Rightarrow> (Some (Ok None), rx)
      | WsOther \<Rightarrow> recv_frame F tgt session_key rx
      | WsBinary data \<Rightarrow>
          (case xm_apply tgt (xm_new session_key) now data of
             None \<Rightarrow> (None, rx)
           | Some unmasked \<Rightarrow>
               (case unpad unmasked of
                  None \<Rightarrow> recv_frame F tgt session_key rx
                | Some unpadded \<Rightarrow>
                    (case fx_from_bytes F unpadded of
                       Err e \<Rightarrow> (Some (Err e), rx)
                     | Ok frame \<Rightarrow> (Some (Ok (Some frame)), rx)))))"

text \<open>The receiving loop of the daemon: the frames it processes until the stream ends. Messages
  that do not unpad or parse are skipped.\<close>

fun handler_recv :: "frame_ext \<Rightarrow> target \<Rightarrow> u64 \<Rightarrow> (u64 \<times> ws_event) list \<Rightarrow> ProxyFrame list" where
  "handler_recv F tgt session_key [] = []"
| "handler_recv F tgt session_key ((now, msg) # rx) =
     (case msg of
        WsErr _ \<Rightarrow> []
      | WsClose \<Rightarrow> []
      | WsOther \<Rightarrow> handler_recv F tgt session_key rx
      | WsBinary data \<Rightarrow>
          (case Option.bind (xm_apply tgt (xm_new session_key) now data) unpad of
             None \<Rightarrow> handler_recv F tgt session_key rx
           | Some unpadded \<Rightarrow>
               (case fx_from_bytes F unpadded of
                  Err _ \<Rightarrow> handler_recv F tgt session_key rx
                | Ok frame \<Rightarrow> frame # handler_recv F tgt session_key rx)))"

text \<open>The client's handshake: the first message carries the connection id, which is also the
  session key.\<close>

definition wss_handshake :: "(u64 \<times> ws_event) list \<Rightarrow> (u64, string) result" where
  "wss_handshake rx =
     (case rx of
        [] \<Rightarrow> Err ''Connection closed before handshake''
      | (_, WsErr e) # _ \<Rightarrow> Err e
      | (_, WsBinary data) # _ \<Rightarrow>
          if length data \<noteq> 8 then Err (''Invalid handshake length: '' @ dec_str (length data)) else Ok (u64_from_le (take 8 data))
      | _ \<Rightarrow> Err ''Invalid handshake message type'')"

section \<open>Lemmas\<close>

lemma xm_new_step [simp]: "xm_time_step (xm_new k) = 60"
  by (simp add: xm_new_def)

lemma xm_apply_new: "\<exists>m. xm_apply tgt (xm_new k) now d = Some m"
  by (simp add: xm_apply_eq)

lemma pad_default: "\<exists>p. pad padding_default G d = Some p"
  by (simp add: pad_def calculate_padding_len_def calculate_target_size_def base_target_def padding_default_def Let_def)

lemma xm_apply_back:
  "t1 div 60 = t2 div 60 \<Longrightarrow> xm_apply tgt1 (xm_new k) t1 d = Some m \<Longrightarrow> xm_apply tgt2 (xm_new k) t2 m = Some d"
  by (rule xm_apply_apply) simp_all

lemma fc_xor_mask_simps [simp]:
  "fc_xor_mask (fc_new k) = xm_new k" "fc_xor_mask (without_compression k) = xm_new k"
  "fc_padding (fc_new k) = padding_default" "fc_padding (without_compression k) = padding_default"
  by (simp_all add: fc_new_def without_compression_def)

lemma send_frame_cases:
  "(\<exists>e. fx_to_bytes F f = Err e \<and> send_frame F tgt G k now f = Some (Err e)) \<or>
   (\<exists>b p m. fx_to_bytes F f = Ok b \<and> pad padding_default G b = Some p \<and>
      xm_apply tgt (xm_new k) now p = Some m \<and> send_frame F tgt G k now f = Some (Ok m))"
proof (cases "fx_to_bytes F f")
  case (Ok b)
  obtain p where p: "pad padding_default G b = Some p" using pad_default by blast
  obtain m where "xm_apply tgt (xm_new k) now p = Some m" using xm_apply_new by blast
  with Ok p show ?thesis by (simp add: send_frame_def)
qed (simp add: send_frame_def)

lemma send_frame_decodes:
  assumes "frame_ext_ok F" "send_frame F tgt1 G k t1 f = Some (Ok m)" "t1 div 60 = t2 div 60"
    "length m < 2 ^ 32"
  shows "\<exists>p b. xm_apply tgt2 (xm_new k) t2 m = Some p \<and> unpad p = Some b \<and> fx_from_bytes F b = Ok f"
proof -
  obtain b p where s: "fx_to_bytes F f = Ok b" "pad padding_default G b = Some p"
    "xm_apply tgt1 (xm_new k) t1 p = Some m"
    using send_frame_cases [of F f tgt1 G k t1] assms(2) by auto
  then have "length p = length m" using length_xm_apply by fastforce
  moreover have "length b \<le> length p" using s(2) by (auto simp: pad_def split: option.splits)
  ultimately have "unpad p = Some b" using unpad_pad [OF s(2)] assms(4) by simp
  with s xm_apply_back [OF assms(3) s(3)] assms(1) show ?thesis
    by (auto simp: frame_ext_ok_def)
qed

text \<open>A sender's stream: each frame with the moment it was sent and the moment it arrives.\<close>

fun ws_stream ::
  "frame_ext \<Rightarrow> target \<Rightarrow> rng \<Rightarrow> u64 \<Rightarrow> (u64 \<times> u64 \<times> ProxyFrame) list \<Rightarrow> (u64 \<times> ws_event) list option" where
  "ws_stream F tgt G k [] = Some []"
| "ws_stream F tgt G k ((sent, arrives, f) # fs) =
     (case send_frame F tgt G k sent f of
        Some (Ok m) \<Rightarrow> map_option ((#) (arrives, WsBinary m)) (ws_stream F tgt G k fs)
      | _ \<Rightarrow> None)"

definition same_window :: "u64 \<times> u64 \<times> ProxyFrame \<Rightarrow> bool" where
  "same_window e \<longleftrightarrow> fst e div 60 = fst (snd e) div 60"

definition short_events :: "(u64 \<times> ws_event) list \<Rightarrow> bool" where
  "short_events rx \<longleftrightarrow> (\<forall>t m. (t, WsBinary m) \<in> set rx \<longrightarrow> length m < 2 ^ 32)"

lemma ws_stream_Cons:
  assumes "ws_stream F tgt G k ((sent, arrives, f) # fs) = Some rx"
  obtains m rx' where "send_frame F tgt G k sent f = Some (Ok m)" "ws_stream F tgt G k fs = Some rx'"
    "rx = (arrives, WsBinary m) # rx'"
  using assms by (auto split: option.splits result.splits)

lemma handler_recv_stream:
  assumes "frame_ext_ok F" "ws_stream F tgt1 G k fs = Some rx" "\<forall>e\<in>set fs. same_window e" "short_events rx"
  shows "handler_recv F tgt2 k rx = map (snd \<circ> snd) fs"
  using assms(2-4)
proof (induction fs arbitrary: rx)
  case (Cons e fs)
  obtain sent arrives f where e: "e = (sent, arrives, f)" by (cases e)
  from Cons.prems(1) [unfolded e] obtain m rx' where
    s: "send_frame F tgt1 G k sent f = Some (Ok m)" "ws_stream F tgt1 G k fs = Some rx'"
    "rx = (arrives, WsBinary m) # rx'" by (rule ws_stream_Cons)
  have w: "sent div 60 = arrives div 60" "length m < 2 ^ 32" "short_events rx'"
    using Cons.prems(2,3) e s(3) by (auto simp: same_window_def short_events_def)
  from send_frame_decodes [OF assms(1) s(1) w(1,2), of tgt2] Cons.IH [OF s(2) _ w(3)] Cons.prems(2) s(3) e
  show ?case by auto
qed simp

lemma recv_frame_stream:
  assumes "frame_ext_ok F" "ws_stream F tgt1 G k ((sent, arrives, f) # fs) = Some rx"
    "sent div 60 = arrives div 60" "short_events rx"
  shows "\<exists>rx'. recv_frame F tgt2 k rx = (Some (Ok (Some f)), rx') \<and> ws_stream F tgt1 G k fs = Some rx'"
proof -
  obtain m rx' where
    s: "send_frame F tgt1 G k sent f = Some (Ok m)" "ws_stream F tgt1 G k fs = Some rx'"
    "rx = (arrives, WsBinary m) # rx'" by (rule ws_stream_Cons [OF assms(2)])
  have "length m < 2 ^ 32" using assms(4) s(3) by (auto simp: short_events_def)
  from send_frame_decodes [OF assms(1) s(1) assms(3) this, of tgt2] s show ?thesis by auto
qed

text \<open>The client calling \<^verbatim>\<open>recv_frame\<close> until it has seen \<open>n\<close> frames.\<close>

fun recv_n :: "frame_ext \<Rightarrow> target \<Rightarrow> u64 \<Rightarrow> nat \<Rightarrow> (u64 \<times> ws_event) list \<Rightarrow> ProxyFrame list" where
  "recv_n F tgt k 0 rx = []"
| "recv_n F tgt k (Suc n) rx =
     (case recv_frame F tgt k rx of
        (Some (Ok (Some f)), rx') \<Rightarrow> f # recv_n F tgt k n rx'
      | _ \<Rightarrow> [])"

lemma recv_n_stream:
  assumes "frame_ext_ok F" "ws_stream F tgt1 G k fs = Some rx" "\<forall>e\<in>set fs. same_window e" "short_events rx"
  shows "recv_n F tgt2 k (length fs) rx = map (snd \<circ> snd) fs"
  using assms(2-4)
proof (induction fs arbitrary: rx)
  case (Cons e fs)
  obtain sent arrives f where e: "e = (sent, arrives, f)" by (cases e)
  from Cons.prems(1) [unfolded e] obtain m rx' where
    s: "ws_stream F tgt1 G k fs = Some rx'" "rx = (arrives, WsBinary m) # rx'" by (rule ws_stream_Cons)
  have "short_events rx'" "sent div 60 = arrives div 60"
    using Cons.prems(2,3) s(2) e by (auto simp: short_events_def same_window_def)
  with recv_frame_stream [OF assms(1) Cons.prems(1) [unfolded e] _ Cons.prems(3), of tgt2]
    Cons.IH [OF s(1)] Cons.prems(2) s e show ?case by auto
qed simp

section \<open>Masks of different windows\<close>

lemma xorshift_linear: "xorshift (a XOR b) = xorshift a XOR xorshift b"
  by (simp add: xorshift_def Let_def push_bit_xor drop_bit_xor ac_simps)

lemma byte_linear: "(ucast ((a XOR b) AND 0xFF :: u64) :: u8) = ucast (a AND 0xFF) XOR ucast (b AND 0xFF)"
  by (rule bit_word_eqI) (auto simp: bit_simps)

lemma mask_loop_linear: "map2 (XOR) (mask_loop n a) (mask_loop n b) = mask_loop n (a XOR b)"
  by (induction n arbitrary: a b) (simp_all add: Let_def xorshift_linear byte_linear)

lemma take_mask_loop: "m \<le> n \<Longrightarrow> take m (mask_loop n s) = mask_loop m s"
proof (induction n arbitrary: m s)
  case (Suc n)
  then show ?case by (cases m) (simp_all add: Let_def)
qed simp

lemma map2_assoc:
  "length xs = length ys \<Longrightarrow> length ys = length zs \<Longrightarrow>
     map2 (XOR) (map2 (XOR) (xs :: bytes) ys) zs = map2 (XOR) xs (map2 (XOR) ys zs)"
  by (induction xs ys zs rule: list_induct3) (simp_all add: xor.assoc)

text \<open>Unmasking in the window after an even one adds the mask of seed 1, whatever the key.\<close>

lemma xm_apply_next_window:
  assumes "xm_apply tgt1 (xm_new k) t1 p = Some m" "even (t1 div 60)" "t2 div 60 = t1 div 60 + 1"
  shows "xm_apply tgt2 (xm_new k) t2 m = Some (map2 (XOR) p (mask_loop (length p) 1))"
proof -
  let ?a = "(t1 div 60) XOR k"
  have "t2 div 60 = (t1 div 60) XOR 1"
    using assms(2,3) by (simp add: xor_one_eq)
  then have "(t2 div 60) XOR k = ?a XOR 1"
    by (simp add: ac_simps)
  moreover have "m = map2 (XOR) p (mask_loop (length p) ?a)"
    using assms(1) by (simp add: xm_apply_eq xm_new_def)
  ultimately show ?thesis
    by (simp add: xm_apply_eq map2_assoc mask_loop_linear xm_new_def)
qed

lemma mask_one: "mask_loop 4 1 = [0x41, 0x41, 0x29, 0x25]"
proof -
  have "mask_loop 4 1 = mask_loop (Suc (Suc (Suc (Suc 0)))) 1"
    by (simp add: numeral_eq_Suc)
  also have "\<dots> = [0x41, 0x41, 0x29, 0x25]"
    by (simp add: xorshift_def push_bit_eq_mult drop_bit_eq_div)
  finally show ?thesis .
qed

lemma u32_to_le_expand:
  "u32_to_le w = [word_of_nat (unat w mod 256), word_of_nat (unat w div 256 mod 256),
     word_of_nat (unat w div 256 div 256 mod 256), word_of_nat (unat w div 256 div 256 div 256 mod 256)]"
proof -
  have four: "(4 :: nat) = Suc (Suc (Suc (Suc 0)))" by simp
  show ?thesis by (simp only: u32_to_le_def four le_bytes.simps)
qed

lemma list4: "length xs = 4 \<Longrightarrow> \<exists>a b c d. xs = [a, b, c, d]"
  by (auto simp: length_Suc_conv eval_nat_numeral)

lemma next_window_unpad:
  assumes "pad st G b = Some p" "length p < 2 ^ 24"
  shows "unpad (map2 (XOR) p (mask_loop (length p) 1)) = None"
proof -
  let ?w = "word_of_nat (length b) :: u32" and ?q = "map2 (XOR) p (mask_loop (length p) 1)"
  obtain fill where p: "p = u32_to_le ?w @ b @ fill"
    using assms(1) by (auto simp: pad_def split: option.splits)
  then have lens: "4 \<le> length p" "length b < 2 ^ 24" using assms(2) by simp_all
  then have w: "unat ?w div 256 div 256 div 256 mod 256 = 0" by (simp add: unat_of_nat)
  have "take 4 ?q = map2 (XOR) (u32_to_le ?w) (mask_loop 4 1)"
    using lens p by (simp add: take_map take_zip take_mask_loop)
  then have "take 4 ?q ! 3 = 0x25"
    by (simp add: mask_one u32_to_le_expand w)
  moreover have len4: "length (take 4 ?q) = 4" using lens by simp
  then obtain x0 x1 x2 x3 where q4: "take 4 ?q = [x0, x1, x2, x3]"
    using list4 by blast
  ultimately have "x3 = 0x25" by simp
  then have "37 * 2 ^ 24 \<le> unat (u32_from_le (take 4 ?q))"
    unfolding unat_u32_from_le [OF len4] unfolding q4 by simp
  with lens assms(2) show ?thesis by (simp add: unpad_def Let_def)
qed

section \<open>An instance of the parameters\<close>

definition demo_rng :: rng where
  "demo_rng = \<lparr>rg_range = \<lambda>a b. a, rg_range_incl = \<lambda>a b. a, rg_bytes = \<lambda>n. replicate n 7, rg_normal = \<lambda>a b. a\<rparr>"

text \<open>Frames that differ from a fixed one in the connection id only, in eight bytes.\<close>

definition demo_frame :: "u64 \<Rightarrow> ProxyFrame" where
  "demo_frame c = new_data (\<lambda>_. 0) c (replicate 16 0) 443 [1, 2, 3] (replicate 16 9) 1000"

definition demo_frames :: frame_ext where
  "demo_frames = \<lparr>fx_to_bytes = \<lambda>f. if f = demo_frame (pf_conn_id f) then Ok (u64_to_le (pf_conn_id f)) else Err ''other'',
     fx_from_bytes = \<lambda>b. Ok (demo_frame (u64_from_le b))\<rparr>"

lemma demo_frames_ok: "frame_ext_ok demo_frames"
  by (auto simp: frame_ext_ok_def demo_frames_def split: if_splits)

lemma demo_to_bytes: "fx_to_bytes demo_frames (demo_frame c) = Ok (u64_to_le c)"
  by (simp add: demo_frames_def demo_frame_def new_data_def)

lemma demo_rng_ok: "rng_ok demo_rng"
  by (simp add: rng_ok_def demo_rng_def)

lemma demo_pad: "length d = 8 \<Longrightarrow> pad padding_default demo_rng d = Some p \<Longrightarrow> length p < 1000"
  by (auto simp: pad_def calculate_padding_len_def calculate_target_size_def base_target_def
      padding_default_def next_size_def SIZE_DISTRIBUTION_def demo_rng_def JITTER_PERCENT_def Let_def)

lemma demo_send:
  "\<exists>m. send_frame demo_frames tgt demo_rng k t (demo_frame c) = Some (Ok m) \<and> length m < 1000"
proof -
  obtain p m where "pad padding_default demo_rng (u64_to_le c) = Some p" "xm_apply tgt (xm_new k) t p = Some m"
    "send_frame demo_frames tgt demo_rng k t (demo_frame c) = Some (Ok m)"
    using send_frame_cases [of demo_frames "demo_frame c" tgt demo_rng k t] by (auto simp: demo_to_bytes)
  then show ?thesis using demo_pad [of "u64_to_le c" p] length_xm_apply [of tgt "xm_new k" t p m] by auto
qed

lemma demo_zstd_ok: "zstd_ok demo_zstd"
  by (simp add: zstd_ok_def demo_zstd_def)

section \<open>Properties\<close>

text \<open>C24. The codec round trip: a frame encoded by one codec is decoded by any codec with the same
  session key, whether or not either of them compresses, as long as both look at their clocks in
  the same minute.\<close>

theorem codec_roundtrip:
  assumes "frame_ext_ok F" and "zstd_ok Z" and "t1 div 60 = t2 div 60"
    and "c \<in> {fc_new k, without_compression k}" and "c' \<in> {fc_new k, without_compression k}"
    and "fc_encode F Z tgt1 G c t1 frame = Some (Ok data)" and "length data < 2 ^ 32"
  shows "fc_decode F Z tgt2 c' t2 data = Some (Ok frame)"
proof -
  have xm: "fc_xor_mask c = xm_new k" "fc_xor_mask c' = xm_new k" "fc_padding c = padding_default"
    using assms(4,5) by auto
  obtain b where b: "fx_to_bytes F frame = Ok b"
    using assms(6) by (cases "fx_to_bytes F frame") (auto simp: fc_encode_def)
  obtain d z where z: "(if fc_compression_enabled c then compress_if_needed Z b else Ok (b, False)) = Ok (d, z)"
    using assms(6) b
    by (cases "if fc_compression_enabled c then compress_if_needed Z b else Ok (b, False)") (auto simp: fc_encode_def)
  obtain m where m: "xm_apply tgt1 (xm_new k) t1 d = Some m" using xm_apply_new by blast
  obtain p where p: "pad padding_default G m = Some p" using pad_default by blast
  have data: "data = (if z then 1 else 0) # p"
    using assms(6) b z m p xm by (simp add: fc_encode_def split: if_splits)
  have "length m \<le> length p" using p by (auto simp: pad_def split: option.splits)
  then have up: "unpad p = Some m" using unpad_pad [OF p] assms(7) data by simp
  have "(if z then decompress Z d else Ok d) = Ok b"
    using z assms(2) by (auto simp: compress_if_needed_def split: if_splits result.splits dest: compress_decompress)
  with data up xm_apply_back [OF assms(3) m] xm assms(1) b show ?thesis
    by (auto simp: fc_decode_def frame_ext_ok_def split: if_splits)
qed

theorem codec_roundtrip_witness:
  "fc_decode demo_frames demo_zstd Portable (without_compression 5) 119
     (case fc_encode demo_frames demo_zstd Aarch64_neon demo_rng (fc_new 5) 60 (demo_frame 77) of
        Some (Ok d) \<Rightarrow> d | _ \<Rightarrow> []) = Some (Ok (demo_frame 77))"
proof -
  obtain m where m: "xm_apply Aarch64_neon (xm_new 5) 60 (u64_to_le 77) = Some m" using xm_apply_new by blast
  have lm: "length m = 8" using length_xm_apply [OF m] by simp
  obtain p where p: "pad padding_default demo_rng m = Some p" using pad_default by blast
  have "length p < 1000" using demo_pad [OF lm p] .
  moreover have e: "fc_encode demo_frames demo_zstd Aarch64_neon demo_rng (fc_new 5) 60 (demo_frame 77) = Some (Ok (0 # p))"
    by (simp add: fc_encode_def demo_to_bytes compress_if_needed_def COMPRESSION_THRESHOLD_def m p)
  ultimately show ?thesis
    using codec_roundtrip [OF demo_frames_ok demo_zstd_ok _ _ _ e, of 119 5 "without_compression 5" Portable]
    by (simp add: e)
qed

text \<open>C9. A session delivers in both directions: frames sent by one side, padded at random and masked,
  are received by the other exactly once and in order, by the daemon's loop and by the client's
  receiving function alike, as long as no frame is under way when the minute changes.\<close>

theorem session_delivers:
  assumes "frame_ext_ok F" and "ws_stream F tgt1 G k fs = Some rx"
    and "\<forall>e\<in>set fs. same_window e" and "short_events rx"
  shows "handler_recv F tgt2 k rx = map (snd \<circ> snd) fs \<and>
    recv_n F tgt2 k (length fs) rx = map (snd \<circ> snd) fs"
  using handler_recv_stream [OF assms] recv_n_stream [OF assms] by simp

theorem session_delivers_witness:
  "\<exists>rx. ws_stream demo_frames Portable demo_rng 5 [(60, 61, demo_frame 1), (62, 119, demo_frame 2)] = Some rx \<and>
     handler_recv demo_frames Portable 5 rx = [demo_frame 1, demo_frame 2]"
proof -
  obtain m1 m2 where m: "send_frame demo_frames Portable demo_rng 5 60 (demo_frame 1) = Some (Ok m1)" "length m1 < 1000"
    "send_frame demo_frames Portable demo_rng 5 62 (demo_frame 2) = Some (Ok m2)" "length m2 < 1000"
    using demo_send by metis
  let ?fs = "[(60, 61, demo_frame 1), (62, 119, demo_frame 2)]"
  have s: "ws_stream demo_frames Portable demo_rng 5 ?fs = Some [(61, WsBinary m1), (119, WsBinary m2)]"
    by (simp add: m)
  have "short_events [(61, WsBinary m1), (119, WsBinary m2)]"
    using m by (auto simp: short_events_def)
  from s session_delivers [OF demo_frames_ok s _ this, of Portable] show ?thesis
    by (simp add: same_window_def)
qed

text \<open>A frame under way when an even minute ends is lost: whatever the key, the padding and the
  frame, up to 16 MiB, the receiver unmasks it with the next mask, reads a length of more than 600
  MB, and skips the message.\<close>

theorem rollover_drops_frame:
  assumes "send_frame F tgt1 G k t1 f = Some (Ok m)" and "length m < 2 ^ 24"
    and "even (t1 div 60)" and "t2 div 60 = t1 div 60 + 1"
  shows "handler_recv F tgt2 k ((t2, WsBinary m) # rx) = handler_recv F tgt2 k rx \<and>
    recv_frame F tgt2 k ((t2, WsBinary m) # rx) = recv_frame F tgt2 k rx"
proof -
  obtain b p where s: "pad padding_default G b = Some p" "xm_apply tgt1 (xm_new k) t1 p = Some m"
    using send_frame_cases [of F f tgt1 G k t1] assms(1) by auto
  have "length p < 2 ^ 24" using length_xm_apply [OF s(2)] assms(2) by simp
  from next_window_unpad [OF s(1) this] xm_apply_next_window [OF s(2) assms(3,4), of tgt2]
  show ?thesis by simp
qed

end
