(* ===== verification/Exit_Client.thy ===== *)
theory Exit_Client
  imports Protocol_Frames Rust_Std
begin

text \<open>
  The daemon's side of an exit node, \<^verbatim>\<open>transport/src/exit_client.rs\<close>: forwarding packets, health, and
  the stream of return traffic, a sequence of length-prefixed packets cut into arbitrary chunks.
  HTTP is the parameter \<open>http_ext\<close> on a world \<open>'w\<close>, giving a status or an error; the serialisation
  of packets is \<open>pkt_ext\<close>. Reading an archive depends on the address of its bytes, so the buffer of the stream has one.
  The interface the stream delivers to is the trait \<^verbatim>\<open>PacketDispatcher\<close>, here the locale
  \<open>packet_dispatcher\<close>: dispatching appends to the queue of one connection and leaves the others
  alone. Against it, the packets of a stream that can be read where they lie reach each connection in order.
\<close>

section \<open>Configuration and state\<close>

datatype ExitClientError =
    ExitConnectionFailed string
  | RequestFailed string
  | ExitSerializationError string
  | Timeout
  | Unhealthy

record ExitClientConfig =
  ec_base_url :: string
  ec_timeout :: nat
  ec_http2 :: bool

definition exit_client_config_default :: ExitClientConfig where
  "exit_client_config_default = \<lparr>ec_base_url = ''http://127.0.0.1:8081'', ec_timeout = 10000, ec_http2 = True\<rparr>"

record ExitClient =
  ex_config :: ExitClientConfig
  ex_healthy :: bool

record 'w http_ext =
  hx_post :: "string \<Rightarrow> bytes \<Rightarrow> 'w \<Rightarrow> (nat, string) result \<times> 'w"
  hx_get :: "string \<Rightarrow> 'w \<Rightarrow> (nat, string) result \<times> 'w"
  hx_build :: "ExitClientConfig \<Rightarrow> (unit, string) result"

record pkt_ext =
  px_to_bytes :: "PlainPacket \<Rightarrow> (bytes, string) result"
  px_from_bytes :: "nat \<Rightarrow> bytes \<Rightarrow> (PlainPacket, string) result"

text \<open>Reading an archive checks the bytes and their address: the archive of a packet has alignment 8. At an aligned
  address the packet comes back; at another one it does or there is an error.\<close>

definition pkt_ext_ok :: "pkt_ext \<Rightarrow> bool" where
  "pkt_ext_ok P \<longleftrightarrow> (\<forall>p b a. px_to_bytes P p = Ok b \<longrightarrow>
     px_from_bytes P a b = Ok p \<or> \<not> 8 dvd a \<and> \<not> is_ok (px_from_bytes P a b))"

text \<open>What the check of the address amounts to, and the length of an archive, a multiple of its alignment.\<close>

definition pkt_ext_aligned :: "pkt_ext \<Rightarrow> bool" where
  "pkt_ext_aligned P \<longleftrightarrow> (\<forall>a b. \<not> 8 dvd a \<longrightarrow> \<not> is_ok (px_from_bytes P a b)) \<and>
     (\<forall>p b. px_to_bytes P p = Ok b \<longrightarrow> 8 dvd length b)"

definition http_success :: "nat \<Rightarrow> bool" where
  "http_success status \<longleftrightarrow> 200 \<le> status \<and> status < 300"

section \<open>Operations\<close>

definition ex_new :: "'w http_ext \<Rightarrow> ExitClientConfig \<Rightarrow> (ExitClient, ExitClientError) result" where
  "ex_new H config =
     (case hx_build H config of
        Err e \<Rightarrow> Err (ExitConnectionFailed e)
      | Ok _ \<Rightarrow> Ok \<lparr>ex_config = config, ex_healthy = True\<rparr>)"

definition ex_is_healthy :: "ExitClient \<Rightarrow> bool" where
  "ex_is_healthy c = ex_healthy c"

definition mark_unhealthy :: "ExitClient \<Rightarrow> ExitClient" where
  "mark_unhealthy c = c\<lparr>ex_healthy := False\<rparr>"

definition ex_base_url :: "ExitClient \<Rightarrow> string" where
  "ex_base_url c = ec_base_url (ex_config c)"

definition ex_forward ::
  "'w http_ext \<Rightarrow> pkt_ext \<Rightarrow> ExitClient \<Rightarrow> PlainPacket \<Rightarrow> 'w \<Rightarrow>
     (unit, ExitClientError) result \<times> ExitClient \<times> 'w" where
  "ex_forward H P c packet w =
     (if \<not> ex_is_healthy c then (Err Unhealthy, c, w)
      else case px_to_bytes P packet of
          Err e \<Rightarrow> (Err (ExitSerializationError e), c, w)
        | Ok bytes \<Rightarrow>
            (case hx_post H (ex_base_url c @ ''/forward'') bytes w of
               (Err e, w') \<Rightarrow> (Err (RequestFailed e), mark_unhealthy c, w')
             | (Ok status, w') \<Rightarrow>
                 if \<not> http_success status
                 then (Err (RequestFailed (''HTTP '' @ dec_str status)), c, w')
                 else (Ok (), c, w')))"

definition ex_health_check :: "'w http_ext \<Rightarrow> ExitClient \<Rightarrow> 'w \<Rightarrow> bool \<times> ExitClient \<times> 'w" where
  "ex_health_check H c w =
     (case hx_get H (ex_base_url c @ ''/health'') w of
        (Ok status, w') \<Rightarrow>
          if http_success status then (True, c\<lparr>ex_healthy := True\<rparr>, w')
          else (False, c\<lparr>ex_healthy := False\<rparr>, w')
      | (Err _, w') \<Rightarrow> (False, c\<lparr>ex_healthy := False\<rparr>, w'))"

section \<open>Return traffic\<close>

text \<open>The inner loop of \<^verbatim>\<open>subscribe\<close>: the payloads complete in the buffer, each with the address at which \<^verbatim>\<open>split_to\<close> leaves
  it, and what is left of the buffer. \<open>at\<close> is the address of the buffer's first byte, which \<^verbatim>\<open>advance\<close> and
  \<^verbatim>\<open>split_to\<close> move on.\<close>

function split_frames :: "nat \<Rightarrow> bytes \<Rightarrow> (nat \<times> bytes) list \<times> bytes" where
  "split_frames at buffer =
     (if length buffer < 4 then ([], buffer)
      else let len = unat (u32_from_le (take 4 buffer)) in
        if length buffer < 4 + len then ([], buffer)
        else let rest = drop 4 buffer; payload = take len rest in
          (case split_frames (at + 4 + len) (drop len rest) of (ps, left) \<Rightarrow> ((at + 4, payload) # ps, left)))"
  by pat_completeness auto
termination
  by (relation "measure (\<lambda>(at, buffer). length buffer)") auto

declare split_frames.simps [simp del]

fun dispatch_payloads ::
  "pkt_ext \<Rightarrow> ('s \<Rightarrow> PlainPacket \<Rightarrow> 's) \<Rightarrow> (nat \<times> bytes) list \<Rightarrow> 's \<Rightarrow> 's" where
  "dispatch_payloads P dispatch [] s = s"
| "dispatch_payloads P dispatch ((at, payload) # ps) s =
     (case px_from_bytes P at payload of
        Ok packet \<Rightarrow> dispatch_payloads P dispatch ps (dispatch s packet)
      | Err _ \<Rightarrow> dispatch_payloads P dispatch ps s)"

text \<open>The loop over the chunks of one connection of the stream. A chunk comes with the address the buffer has once it was
  appended: \<^verbatim>\<open>extend_from_slice\<close> may leave the buffer where it is or move it.\<close>

fun read_stream ::
  "pkt_ext \<Rightarrow> ('s \<Rightarrow> PlainPacket \<Rightarrow> 's) \<Rightarrow> (nat \<times> bytes) list \<Rightarrow> bytes \<Rightarrow> 's \<Rightarrow> 's" where
  "read_stream P dispatch [] buffer s = s"
| "read_stream P dispatch ((at, chunk) # chunks) buffer s =
     (case split_frames at (buffer @ chunk) of
        (ps, left) \<Rightarrow> read_stream P dispatch chunks left (dispatch_payloads P dispatch ps s))"

text \<open>One turn of the endless loop of \<^verbatim>\<open>subscribe\<close>: the outcome of the request for the stream is a failure to
  connect, or a status with the chunks read until the stream ends or fails. The result is the delay
  before the next turn, in seconds, the next back-off, the client and the dispatcher.\<close>

datatype stream_response = StreamRefused | StreamHttp nat "(nat \<times> bytes) list"

definition subscribe_turn ::
  "pkt_ext \<Rightarrow> ('s \<Rightarrow> PlainPacket \<Rightarrow> 's) \<Rightarrow> stream_response \<Rightarrow> ExitClient \<Rightarrow> nat \<Rightarrow> 's \<Rightarrow>
     nat \<times> nat \<times> ExitClient \<times> 's" where
  "subscribe_turn P dispatch resp c backoff s =
     (case resp of
        StreamHttp status chunks \<Rightarrow>
          if \<not> http_success status then (backoff, backoff, c, s)
          else let backoff' = 1 in
            (backoff', min (backoff' * 2) 30, c\<lparr>ex_healthy := True\<rparr>, read_stream P dispatch chunks [] s)
      | StreamRefused \<Rightarrow> (backoff, min (backoff * 2) 30, mark_unhealthy c, s))"

definition stream_url :: "ExitClient \<Rightarrow> u64 \<Rightarrow> string" where
  "stream_url c handler_id = ec_base_url (ex_config c) @ ''/stream?handler_id='' @ dec_str (unat handler_id)"

fun subscribe_turns ::
  "pkt_ext \<Rightarrow> ('s \<Rightarrow> PlainPacket \<Rightarrow> 's) \<Rightarrow> stream_response list \<Rightarrow> ExitClient \<Rightarrow> nat \<Rightarrow> 's \<Rightarrow>
     nat list \<times> nat \<times> ExitClient \<times> 's" where
  "subscribe_turns P dispatch [] c backoff s = ([], backoff, c, s)"
| "subscribe_turns P dispatch (r # rs) c backoff s =
     (case subscribe_turn P dispatch r c backoff s of
        (d, backoff', c', s') \<Rightarrow> (case subscribe_turns P dispatch rs c' backoff' s' of
            (ds, b, c'', s'') \<Rightarrow> (d # ds, b, c'', s'')))"

definition subscribe ::
  "pkt_ext \<Rightarrow> ('s \<Rightarrow> PlainPacket \<Rightarrow> 's) \<Rightarrow> stream_response list \<Rightarrow> ExitClient \<Rightarrow> 's \<Rightarrow>
     nat list \<times> nat \<times> ExitClient \<times> 's" where
  "subscribe P dispatch rs c s = subscribe_turns P dispatch rs c 1 s"

lemma subscribe_turns_delays:
  "1 \<le> backoff \<Longrightarrow> backoff \<le> 30 \<Longrightarrow> subscribe_turns P dispatch rs c backoff s = (ds, b, c', s') \<Longrightarrow>
     (\<forall>d\<in>set ds. 1 \<le> d \<and> d \<le> 30) \<and> 1 \<le> b \<and> b \<le> 30"
proof (induction rs arbitrary: backoff c s ds)
  case (Cons r rs)
  obtain d backoff' c1 s1 where t: "subscribe_turn P dispatch r c backoff s = (d, backoff', c1, s1)"
    by (metis prod_cases4)
  then have "1 \<le> d \<and> d \<le> 30" "1 \<le> backoff' \<and> backoff' \<le> 30"
    using Cons.prems(1,2) by (auto simp: subscribe_turn_def Let_def split: stream_response.splits if_splits)
  with Cons.IH [of backoff' c1 s1] Cons.prems(3) t show ?case by (auto split: prod.splits)
qed simp

text \<open>The delays between two attempts to open the stream stay between 1 and 30 seconds.\<close>

lemma subscribe_delays:
  "subscribe P dispatch rs c s = (ds, b, c', s') \<Longrightarrow> \<forall>d\<in>set ds. 1 \<le> d \<and> d \<le> 30"
  using subscribe_turns_delays [of 1 P dispatch rs c s ds b c' s'] by (simp add: subscribe_def)

section \<open>Payloads do not depend on the chunks\<close>

text \<open>The payloads of a stream with their addresses. The payloads are those of the bytes, however they are cut into chunks;
  the addresses are not.\<close>

fun stream_payloads :: "(nat \<times> bytes) list \<Rightarrow> bytes \<Rightarrow> (nat \<times> bytes) list" where
  "stream_payloads [] buffer = []"
| "stream_payloads ((at, chunk) # chunks) buffer =
     (case split_frames at (buffer @ chunk) of (ps, left) \<Rightarrow> ps @ stream_payloads chunks left)"

lemma dispatch_payloads_append:
  "dispatch_payloads P d (xs @ ys) s = dispatch_payloads P d ys (dispatch_payloads P d xs s)"
  by (induction P d xs s rule: dispatch_payloads.induct) (auto split: result.splits)

lemma read_stream_payloads:
  "read_stream P d chunks buffer s = dispatch_payloads P d (stream_payloads chunks buffer) s"
  by (induction chunks buffer arbitrary: s rule: stream_payloads.induct)
    (auto simp: dispatch_payloads_append split: prod.splits)

text \<open>The payloads of a buffer, without addresses.\<close>

function plain_frames :: "bytes \<Rightarrow> bytes list \<times> bytes" where
  "plain_frames buffer =
     (if length buffer < 4 then ([], buffer)
      else let len = unat (u32_from_le (take 4 buffer)) in
        if length buffer < 4 + len then ([], buffer)
        else (case plain_frames (drop len (drop 4 buffer)) of (ps, left) \<Rightarrow> (take len (drop 4 buffer) # ps, left)))"
  by pat_completeness auto
termination
  by (relation "measure length") auto

declare plain_frames.simps [simp del]

lemma split_frames_plain: "map_prod (map snd) id (split_frames a buffer) = plain_frames buffer"
proof (induction buffer arbitrary: a rule: plain_frames.induct)
  case (1 buffer)
  let ?len = "unat (u32_from_le (take 4 buffer))"
  show ?case
  proof (cases "length buffer < 4 \<or> length buffer < 4 + ?len")
    case True
    then show ?thesis by (subst split_frames.simps, subst plain_frames.simps) (auto simp: Let_def)
  next
    case False
    then have "map_prod (map snd) id (split_frames (a + 4 + ?len) (drop ?len (drop 4 buffer))) = plain_frames (drop ?len (drop 4 buffer))"
      by (intro "1.IH" [OF _ refl]) auto
    with False show ?thesis
      by (subst split_frames.simps, subst plain_frames.simps) (auto simp: Let_def split: prod.splits)
  qed
qed

lemma split_framesE:
  assumes "split_frames a buffer = (aps, left)"
  shows "plain_frames buffer = (map snd aps, left)"
  using split_frames_plain [of a buffer] assms by simp

lemma plain_frames_append:
  "plain_frames a = (ps, left) \<Longrightarrow>
     plain_frames (a @ b) = (case plain_frames (left @ b) of (qs, left') \<Rightarrow> (ps @ qs, left'))"
proof (induction a arbitrary: ps left rule: plain_frames.induct)
  case (1 a)
  let ?len = "unat (u32_from_le (take 4 a))"
  show ?case
  proof (cases "length a < 4 \<or> length a < 4 + ?len")
    case True
    then have "ps = [] \<and> left = a"
      using "1.prems" by (subst (asm) plain_frames.simps) (auto simp: Let_def split: if_splits)
    then show ?thesis by (simp split: prod.splits)
  next
    case False
    obtain ps' where r: "plain_frames (drop ?len (drop 4 a)) = (ps', left)" "ps = take ?len (drop 4 a) # ps'"
      using "1.prems" False by (subst (asm) plain_frames.simps) (auto simp: Let_def split: prod.splits)
    have "plain_frames (drop ?len (drop 4 a) @ b) = (case plain_frames (left @ b) of (qs, left') \<Rightarrow> (ps' @ qs, left'))"
      using False by (intro "1.IH" [OF _ refl _ r(1)]) auto
    then show ?thesis
      using False r(2) by (subst plain_frames.simps) (auto simp: Let_def split: prod.splits)
  qed
qed

lemma stream_payloads_plain:
  "fst (plain_frames buffer) = [] \<Longrightarrow>
   map snd (stream_payloads chunks buffer) = fst (plain_frames (buffer @ concat (map snd chunks)))"
proof (induction chunks arbitrary: buffer)
  case (Cons c chunks)
  obtain at chunk where c: "c = (at, chunk)" by (cases c)
  obtain aps left where sp: "split_frames at (buffer @ chunk) = (aps, left)" by force
  note pl = split_framesE [OF sp]
  have "plain_frames (left @ []) = ([], left)"
    using plain_frames_append [OF pl, of "[]"] pl by (auto split: prod.splits)
  then have "map snd (stream_payloads chunks left) = fst (plain_frames (left @ concat (map snd chunks)))"
    using Cons.IH [of left] by simp
  then show ?case
    using c sp plain_frames_append [OF pl, of "concat (map snd chunks)"] by (simp split: prod.splits)
qed simp

definition length_prefixed :: "bytes \<Rightarrow> bytes" where
  "length_prefixed payload = u32_to_le (word_of_nat (length payload)) @ payload"

lemma split_frames_prefixed:
  assumes "length payload < 2 ^ 32"
  shows "split_frames a (length_prefixed payload @ rest) =
    (case split_frames (a + 4 + length payload) rest of (ps, left) \<Rightarrow> ((a + 4, payload) # ps, left))"
proof -
  have "unat (word_of_nat (length payload) :: u32) = length payload"
    using assms by (simp add: unat_of_nat)
  then show ?thesis
    by (subst split_frames.simps) (simp add: length_prefixed_def)
qed

text \<open>Where the payloads of a buffer lie.\<close>

fun payloads_from :: "nat \<Rightarrow> bytes list \<Rightarrow> (nat \<times> bytes) list" where
  "payloads_from a [] = []"
| "payloads_from a (b # bs) = (a + 4, b) # payloads_from (a + 4 + length b) bs"

lemma payloads_from_snd [simp]: "map snd (payloads_from a bs) = bs"
  by (induction a bs rule: payloads_from.induct) simp_all

lemma split_frames_stream:
  "\<forall>p\<in>set payloads. length p < 2 ^ 32 \<Longrightarrow>
     split_frames a (concat (map length_prefixed payloads)) = (payloads_from a payloads, [])"
  by (induction payloads arbitrary: a) (simp_all add: split_frames_prefixed split_frames.simps [of _ "[]"])

text \<open>The payloads of a stream are those sent, whatever chunks the network cuts it into.\<close>

lemma stream_payloads_sent:
  assumes "\<forall>b\<in>set bs. length b < 2 ^ 32" "concat (map snd chunks) = concat (map length_prefixed bs)"
  shows "map snd (stream_payloads chunks []) = bs"
proof -
  have "plain_frames (concat (map length_prefixed bs)) = (bs, [])"
    using split_framesE [OF split_frames_stream [OF assms(1), of 0]] by simp
  then show ?thesis
    using stream_payloads_plain [of "[]" chunks] assms(2) by (simp add: plain_frames.simps [of "[]"])
qed

section \<open>Packets that can be read\<close>

text \<open>The packets of a stream whose payload is read without an error at the address where it lies.\<close>

definition readable_packets :: "pkt_ext \<Rightarrow> PlainPacket list \<Rightarrow> (nat \<times> bytes) list \<Rightarrow> PlainPacket list" where
  "readable_packets P ps aps = map fst (filter (\<lambda>(p, a, b). is_ok (px_from_bytes P a b)) (zip ps aps))"

lemma readable_aligned:
  assumes "pkt_ext_ok P" "list_all2 (\<lambda>p b. px_to_bytes P p = Ok b) ps (map snd aps)" "\<forall>x\<in>set aps. 8 dvd fst x"
  shows "readable_packets P ps aps = ps"
  using assms(2,3) unfolding list_all2_map2
proof (induction rule: list_all2_induct)
  case (Cons p ps x aps)
  then have "px_from_bytes P (fst x) (snd x) = Ok p" using assms(1) unfolding pkt_ext_ok_def by auto
  with Cons show ?case by (simp add: readable_packets_def split_beta)
qed (simp add: readable_packets_def)

fun every_second :: "'a list \<Rightarrow> 'a list" where
  "every_second (x # y # zs) = y # every_second zs"
| "every_second [x] = []"
| "every_second [] = []"

text \<open>In a buffer at an aligned address every other payload lies four bytes off: it is the second, fourth, \<dots> packet
  that can be read.\<close>

lemma readable_every_second:
  assumes "pkt_ext_ok P" "pkt_ext_aligned P"
  shows "list_all2 (\<lambda>p b. px_to_bytes P p = Ok b) ps bs \<Longrightarrow> 8 dvd a \<Longrightarrow>
    readable_packets P ps (payloads_from a bs) = every_second ps"
proof (induction ps arbitrary: a bs rule: every_second.induct)
  case (1 p q ps)
  obtain b c cs where bs: "bs = b # c # cs" "px_to_bytes P p = Ok b" "px_to_bytes P q = Ok c"
    "list_all2 (\<lambda>p b. px_to_bytes P p = Ok b) ps cs"
    using "1.prems"(1) by (auto simp: list_all2_Cons1)
  have len: "8 dvd length b" "8 dvd length c" using assms(2) bs(2,3) unfolding pkt_ext_aligned_def by blast+
  then have al: "\<not> 8 dvd a + 4" "8 dvd a + 4 + length b + 4" "8 dvd a + 4 + length b + 4 + length c"
    using "1.prems"(2) by presburger+
  have "\<not> is_ok (px_from_bytes P (a + 4) b)" using al(1) assms(2) unfolding pkt_ext_aligned_def by blast
  moreover have "px_from_bytes P (a + 4 + length b + 4) c = Ok q" using al(2) assms(1) bs(3) unfolding pkt_ext_ok_def by blast
  moreover have "readable_packets P ps (payloads_from (a + 4 + length b + 4 + length c) cs) = every_second ps"
    by (rule "1.IH" [OF bs(4) al(3)])
  ultimately show ?case unfolding bs(1) by (simp add: readable_packets_def)
next
  case (2 p)
  then obtain b where b: "bs = [b]" by (auto simp: list_all2_Cons1)
  have "\<not> 8 dvd a + 4" using "2.prems"(2) by presburger
  then have "\<not> is_ok (px_from_bytes P (a + 4) b)" using assms(2) unfolding pkt_ext_aligned_def by blast
  then show ?case by (simp add: readable_packets_def b)
qed (simp add: readable_packets_def)

section \<open>Dispatchers\<close>

text \<open>\<open>received s c\<close> is what has been delivered to connection \<open>c\<close>; \<open>frame_for p\<close> is what a packet is
  turned into; \<open>listening\<close> says whether the connection takes part.\<close>

locale packet_dispatcher =
  fixes dispatch :: "'s \<Rightarrow> PlainPacket \<Rightarrow> 's"
    and received :: "'s \<Rightarrow> u64 \<Rightarrow> 'f list"
    and listening :: "'s \<Rightarrow> u64 \<Rightarrow> bool"
    and frame_for :: "PlainPacket \<Rightarrow> 'f"
    and ok :: "'s \<Rightarrow> bool"
  assumes dispatch_received: "ok s \<Longrightarrow> received (dispatch s p) c =
      received s c @ (if pp_conn_id p = c \<and> listening s c then [frame_for p] else [])"
    and dispatch_listening: "ok s \<Longrightarrow> listening (dispatch s p) c = listening s c"
    and dispatch_ok: "ok s \<Longrightarrow> ok (dispatch s p)"
begin

lemma dispatch_packets:
  assumes "pkt_ext_ok P" "ok s" "list_all2 (\<lambda>p b. px_to_bytes P p = Ok b) ps (map snd aps)"
  shows "received (dispatch_payloads P dispatch aps s) c =
    received s c @ (if listening s c then map frame_for (filter (\<lambda>p. pp_conn_id p = c) (readable_packets P ps aps)) else [])"
  using assms(3,2) unfolding list_all2_map2
proof (induction arbitrary: s rule: list_all2_induct)
  case (Cons p ps x aps)
  obtain a b where x: "x = (a, b)" by (cases x)
  have "px_from_bytes P a b = Ok p \<or> \<not> is_ok (px_from_bytes P a b)"
    using assms(1) Cons.hyps x unfolding pkt_ext_ok_def by auto
  with Cons show ?case
    by (cases "px_from_bytes P a b")
      (auto simp: x readable_packets_def dispatch_received dispatch_listening dispatch_ok)
qed (simp add: readable_packets_def)

lemma stream_delivers:
  assumes "pkt_ext_ok P" "ok s" "list_all2 (\<lambda>p b. px_to_bytes P p = Ok b) ps bs"
    "\<forall>b\<in>set bs. length b < 2 ^ 32" "concat (map snd chunks) = concat (map length_prefixed bs)"
  shows "received (read_stream P dispatch chunks [] s) c =
    received s c @ (if listening s c
      then map frame_for (filter (\<lambda>p. pp_conn_id p = c) (readable_packets P ps (stream_payloads chunks []))) else [])"
proof -
  have "list_all2 (\<lambda>p b. px_to_bytes P p = Ok b) ps (map snd (stream_payloads chunks []))"
    using assms(3) stream_payloads_sent [OF assms(4,5)] by simp
  then show ?thesis unfolding read_stream_payloads by (rule dispatch_packets [OF assms(1,2)])
qed

end

end
