(* ===== verification/Exit_Pool.thy ===== *)
theory Exit_Pool
  imports Exit_Client
begin

text \<open>
  Load balancing over exit nodes, \<^verbatim>\<open>transport/src/exit_pool.rs\<close>, and the forwarder of the daemon,
  \<^verbatim>\<open>daemon/src/exit_forwarder.rs\<close>. The groups are a finite map; \<^verbatim>\<open>next_index\<close> is the 64-bit counter it
  is, so that the rotation continues after it wraps around. The subscriptions a pool starts are the
  streams of \<open>Exit_Client\<close>. The network is the parameter \<open>http_ext\<close>.
\<close>

section \<open>State\<close>

record ExitNodeDefinition =
  nd_url :: string
  nd_group_id :: i32

record ExitPoolConfig =
  pc_exit_nodes :: "ExitNodeDefinition list"
  pc_health_check_interval :: nat
  pc_client_timeout :: nat
  pc_http2 :: bool

definition exit_pool_config_default :: ExitPoolConfig where
  "exit_pool_config_default = \<lparr>pc_exit_nodes = [\<lparr>nd_url = ''http://127.0.0.1:8081'', nd_group_id = 0\<rparr>],
     pc_health_check_interval = 10000, pc_client_timeout = 10000, pc_http2 = True\<rparr>"

record GroupPool =
  gp_clients :: "ExitClient list"
  gp_next_index :: u64

record ExitPool =
  xp_groups :: "(i32, GroupPool) dmap"
  xp_config :: ExitPoolConfig
  xp_handler_id :: u64

section \<open>Operations\<close>

definition client_config :: "ExitPoolConfig \<Rightarrow> string \<Rightarrow> ExitClientConfig" where
  "client_config config url =
     \<lparr>ec_base_url = url, ec_timeout = pc_client_timeout config, ec_http2 = pc_http2 config\<rparr>"

definition or_default_push :: "i32 \<Rightarrow> 'a \<Rightarrow> (i32, 'a list) dmap \<Rightarrow> (i32, 'a list) dmap" where
  "or_default_push k x m = dinsert k ((case dget m k of None \<Rightarrow> [] | Some xs \<Rightarrow> xs) @ [x]) m"

fun group_clients ::
  "'w http_ext \<Rightarrow> ExitPoolConfig \<Rightarrow> ExitNodeDefinition list \<Rightarrow> (i32, ExitClient list) dmap \<Rightarrow>
     ((i32, ExitClient list) dmap, ExitClientError) result" where
  "group_clients H config [] groups_map = Ok groups_map"
| "group_clients H config (node_def # defs) groups_map =
     (case ex_new H (client_config config (nd_url node_def)) of
        Err e \<Rightarrow> Err e
      | Ok client \<Rightarrow> group_clients H config defs (or_default_push (nd_group_id node_def) client groups_map))"

definition xp_new :: "'w http_ext \<Rightarrow> ExitPoolConfig \<Rightarrow> u64 \<Rightarrow> (ExitPool, ExitClientError) result" where
  "xp_new H config handler_id =
     (case group_clients H config (pc_exit_nodes config) dempty of
        Err e \<Rightarrow> Err e
      | Ok groups_map \<Rightarrow> Ok
          \<lparr>xp_groups = map (\<lambda>(k, clients). (k, \<lparr>gp_clients = clients, gp_next_index = 0\<rparr>)) groups_map,
           xp_config = config, xp_handler_id = handler_id\<rparr>)"

text \<open>The attempts of \<^verbatim>\<open>forward\<close>, from the \<open>attempts\<close>-th on.\<close>

function forward_attempts ::
  "'w http_ext \<Rightarrow> pkt_ext \<Rightarrow> PlainPacket \<Rightarrow> nat \<Rightarrow> nat \<Rightarrow> ExitClient list \<Rightarrow> 'w \<Rightarrow>
     (unit, ExitClientError) result \<times> ExitClient list \<times> 'w" where
  "forward_attempts H P packet start_index attempts clients w =
     (if attempts < length clients
      then let index = (start_index + attempts) mod length clients; client = clients ! index in
        if ex_is_healthy client
        then (case ex_forward H P client packet w of
                (Ok _, client', w') \<Rightarrow> (Ok (), clients[index := client'], w')
              | (Err _, client', w') \<Rightarrow>
                  forward_attempts H P packet start_index (attempts + 1) (clients[index := client']) w')
        else forward_attempts H P packet start_index (attempts + 1) clients w
      else (Err (ExitConnectionFailed ''All exit nodes failed''), clients, w))"
  by pat_completeness auto
termination
  by (relation "measure (\<lambda>(H, P, packet, start_index, attempts, clients, w). length clients - attempts)") auto

declare forward_attempts.simps [simp del]

text \<open>Decimal text of a signed 32-bit integer.\<close>

definition i32_str :: "i32 \<Rightarrow> string" where
  "i32_str x = (if sint x < 0 then ''-'' @ dec_str (nat (- sint x)) else dec_str (nat (sint x)))"

definition xp_forward ::
  "'w http_ext \<Rightarrow> pkt_ext \<Rightarrow> ExitPool \<Rightarrow> PlainPacket \<Rightarrow> i32 \<Rightarrow> 'w \<Rightarrow>
     (unit, ExitClientError) result \<times> ExitPool \<times> 'w" where
  "xp_forward H P p packet group_id w =
     (let gid = (if dget (xp_groups p) group_id \<noteq> None then group_id else 0) in
      case dget (xp_groups p) gid of
        None \<Rightarrow> (Err (ExitConnectionFailed
                   (''Group '' @ i32_str group_id @ '' not found and no default group'')), p, w)
      | Some grp \<Rightarrow>
          if gp_clients grp = []
          then (Err (ExitConnectionFailed ''No exit nodes available in group''), p, w)
          else
            let start_index = unat (gp_next_index grp) mod length (gp_clients grp);
                (res, clients, w') = forward_attempts H P packet start_index 0 (gp_clients grp) w in
            (res, p\<lparr>xp_groups := dinsert gid \<lparr>gp_clients = clients, gp_next_index = gp_next_index grp + 1\<rparr>
                      (xp_groups p)\<rparr>, w'))"

fun check_clients :: "'w http_ext \<Rightarrow> ExitClient list \<Rightarrow> 'w \<Rightarrow> ExitClient list \<times> 'w" where
  "check_clients H [] w = ([], w)"
| "check_clients H (c # cs) w =
     (case ex_health_check H c w of
        (_, c', w') \<Rightarrow> (case check_clients H cs w' of (cs', w'') \<Rightarrow> (c' # cs', w'')))"

fun check_groups :: "'w http_ext \<Rightarrow> (i32, GroupPool) dmap \<Rightarrow> 'w \<Rightarrow> (i32, GroupPool) dmap \<times> 'w" where
  "check_groups H [] w = ([], w)"
| "check_groups H ((k, g) # gs) w =
     (case check_clients H (gp_clients g) w of
        (cs, w') \<Rightarrow> (case check_groups H gs w' of
            (gs', w'') \<Rightarrow> ((k, g\<lparr>gp_clients := cs\<rparr>) # gs', w'')))"

definition health_check_all :: "'w http_ext \<Rightarrow> ExitPool \<Rightarrow> 'w \<Rightarrow> ExitPool \<times> 'w" where
  "health_check_all H p w =
     (case check_groups H (xp_groups p) w of (gs, w') \<Rightarrow> (p\<lparr>xp_groups := gs\<rparr>, w'))"

definition healthy_count :: "ExitPool \<Rightarrow> nat" where
  "healthy_count p = sum_list (map (\<lambda>(_, g). length (filter ex_is_healthy (gp_clients g))) (xp_groups p))"

definition total_count :: "ExitPool \<Rightarrow> nat" where
  "total_count p = sum_list (map (\<lambda>(_, g). length (gp_clients g)) (xp_groups p))"

definition add_node ::
  "'w http_ext \<Rightarrow> ExitPool \<Rightarrow> string \<Rightarrow> i32 \<Rightarrow> (unit, ExitClientError) result \<times> ExitPool" where
  "add_node H p url group_id =
     (case ex_new H (client_config (xp_config p) url) of
        Err e \<Rightarrow> (Err e, p)
      | Ok client \<Rightarrow>
          let grp = (case dget (xp_groups p) group_id of
                         Some g \<Rightarrow> g | None \<Rightarrow> \<lparr>gp_clients = [], gp_next_index = 0\<rparr>) in
          (Ok (), p\<lparr>xp_groups := dinsert group_id (grp\<lparr>gp_clients := gp_clients grp @ [client]\<rparr>)
                      (xp_groups p)\<rparr>))"

section \<open>The forwarder\<close>

record ExitForwarder =
  ef_pool :: ExitPool
  ef_node_id :: u64

definition ef_new :: "ExitPool \<Rightarrow> u64 \<Rightarrow> ExitForwarder" where
  "ef_new pool node_id = \<lparr>ef_pool = pool, ef_node_id = node_id\<rparr>"

definition ef_forward ::
  "'w http_ext \<Rightarrow> pkt_ext \<Rightarrow> ExitForwarder \<Rightarrow> ProxyFrame \<Rightarrow> i32 \<Rightarrow> 'w \<Rightarrow>
     (unit, ExitClientError) result \<times> ExitForwarder \<times> 'w" where
  "ef_forward H P f frame group_id w =
     (if is_control (pf_flags frame) then (Ok (), f, w)
      else let packet = from_frame frame (ef_node_id f) in
        case xp_forward H P (ef_pool f) packet group_id w of
          (Err e, pool, w') \<Rightarrow> (Err e, f\<lparr>ef_pool := pool\<rparr>, w')
        | (Ok _, pool, w') \<Rightarrow> (Ok (), f\<lparr>ef_pool := pool\<rparr>, w'))"

section \<open>Forwarding finds a node that works\<close>

lemma ex_forward_config:
  "ex_forward H P c packet w = (res, c', w') \<Longrightarrow> ex_config c' = ex_config c"
  by (auto simp: ex_forward_def mark_unhealthy_def split: if_splits result.splits prod.splits)

text \<open>A node that takes every packet.\<close>

definition accepts :: "'w http_ext \<Rightarrow> ExitClient \<Rightarrow> bool" where
  "accepts H c \<longleftrightarrow> (\<forall>b w. \<exists>status w'. hx_post H (ex_base_url c @ ''/forward'') b w = (Ok status, w') \<and> http_success status)"

lemma ex_forward_accepts:
  assumes "ex_is_healthy c" "accepts H c" "px_to_bytes P packet = Ok b"
  shows "\<exists>w'. ex_forward H P c packet w = (Ok (), c, w')"
proof -
  obtain status w' where "hx_post H (ex_base_url c @ ''/forward'') b w = (Ok status, w')" "http_success status"
    using assms(2) unfolding accepts_def by blast
  with assms(1,3) show ?thesis by (simp add: ex_forward_def)
qed

lemma rotation_distinct:
  assumes "a < k" "k < (n :: nat)"
  shows "(s + a) mod n \<noteq> (s + k) mod n"
proof
  assume "(s + a) mod n = (s + k) mod n"
  then have "n dvd (s + k) - (s + a)"
    using assms by (subst mod_eq_dvd_iff_nat [symmetric]) simp_all
  then have "n dvd k - a" by simp
  with assms show False by (auto dest: dvd_imp_le)
qed

lemma forward_attempts_succeeds:
  assumes "px_to_bytes P packet = Ok b"
  shows "attempts \<le> k \<Longrightarrow> k < length clients \<Longrightarrow>
    ex_is_healthy (clients ! ((start + k) mod length clients)) \<Longrightarrow>
    accepts H (clients ! ((start + k) mod length clients)) \<Longrightarrow>
    fst (forward_attempts H P packet start attempts clients w) = Ok ()"
proof (induction "k - attempts" arbitrary: attempts clients w)
  case 0
  then have "attempts = k" by simp
  with 0 ex_forward_accepts [OF _ _ assms, of "clients ! ((start + k) mod length clients)" H w] show ?case
    by (subst forward_attempts.simps) auto
next
  case (Suc d)
  let ?i = "(start + attempts) mod length clients"
  have lt: "attempts < k" "attempts < length clients" using Suc.hyps(2) Suc.prems by simp_all
  have IH: "fst (forward_attempts H P packet start (Suc attempts) (clients[?i := c]) w') = Ok ()" for c w'
    using rotation_distinct [OF lt(1) Suc.prems(2), of start] Suc.hyps Suc.prems lt
    by (intro Suc.hyps(1)) simp_all
  show ?case
    using lt IH [of "clients ! ?i" w] IH
    by (subst forward_attempts.simps) (simp add: Let_def split: prod.splits result.splits)
qed

lemma forward_attempts_any:
  assumes "px_to_bytes P packet = Ok b" "c \<in> set clients" "ex_is_healthy c" "accepts H c"
  shows "fst (forward_attempts H P packet start 0 clients w) = Ok ()"
proof -
  obtain i where i: "i < length clients" "clients ! i = c" using assms(2) by (auto simp: in_set_conv_nth)
  define n where "n = length clients"
  define k where "k = (i + (n - start mod n)) mod n"
  have n: "0 < n" "i < n" using i by (auto simp: n_def)
  then have lt: "start mod n < n" by simp
  have "(start + k) mod n = (start mod n + (i + (n - start mod n))) mod n"
    unfolding k_def by (simp only: mod_add_left_eq mod_add_right_eq)
  also have "start mod n + (i + (n - start mod n)) = i + n"
    using lt by simp
  also have "(i + n) mod n = i" using n by simp
  finally have "(start + k) mod n = i" .
  moreover have "k < n" unfolding k_def using n(1) by simp
  ultimately show ?thesis
    using forward_attempts_succeeds [OF assms(1), of 0 k clients start H w] i assms(3,4) by (simp add: n_def)
qed

section \<open>One request for a packet is accepted\<close>

text \<open>\<open>requests w\<close> is the log of the requests that carried a packet, each with the answer: whether it was a success. A request
  answered with success was received and accepted. One that failed, by an error, the time-out of the client or
  another status, may have been taken by the node or not.\<close>

definition accepted_answer :: "(nat, string) result \<Rightarrow> bool" where
  "accepted_answer res = (case res of Ok status \<Rightarrow> http_success status | Err _ \<Rightarrow> False)"

definition http_logs :: "'w http_ext \<Rightarrow> ('w \<Rightarrow> (bytes \<times> bool) list) \<Rightarrow> bool" where
  "http_logs H requests \<longleftrightarrow> (\<forall>url b w res w'. hx_post H url b w = (res, w') \<longrightarrow>
     requests w' = requests w @ [(b, accepted_answer res)])"

text \<open>The requests for one packet: some that failed, then the one that was accepted.\<close>

definition tries :: "nat \<Rightarrow> bytes \<Rightarrow> (bytes \<times> bool) list" where
  "tries n b = replicate n (b, False) @ [(b, True)]"

lemma ex_forward_logs:
  assumes "http_logs H requests" "px_to_bytes P packet = Ok b" "ex_forward H P c packet w = (res, c', w')"
    "ex_is_healthy c"
  shows "requests w' = requests w @ [(b, is_ok res)]"
proof -
  obtain r w1 where p: "hx_post H (ex_base_url c @ ''/forward'') b w = (r, w1)" by force
  with assms(1) have "requests w1 = requests w @ [(b, accepted_answer r)]"
    unfolding http_logs_def by blast
  with assms(2-4) p show ?thesis
    by (auto simp: ex_forward_def accepted_answer_def split: result.splits if_splits)
qed

lemma forward_attempts_logs:
  assumes "http_logs H requests" "px_to_bytes P packet = Ok b"
  shows "forward_attempts H P packet start attempts clients w = (res, cs, w') \<Longrightarrow>
    \<exists>n. requests w' = requests w @ (if is_ok res then tries n b else replicate n (b, False)) \<and>
      n + (if is_ok res then 1 else 0) \<le> length clients - attempts"
proof (induction "length clients - attempts" arbitrary: attempts clients w)
  case 0
  then show ?case by (subst (asm) forward_attempts.simps) (auto intro!: exI [of _ 0])
next
  case (Suc d)
  let ?i = "(start + attempts) mod length clients"
  obtain r c' w1 where f: "ex_forward H P (clients ! ?i) packet w = (r, c', w1)" by (metis prod_cases3)
  have lt: "attempts < length clients" using Suc.hyps(2) by simp
  have IH: "\<exists>n. requests w' = requests w0 @ (if is_ok res then tries n b else replicate n (b, False)) \<and>
      n + (if is_ok res then 1 else 0) \<le> length clients - Suc attempts"
    if "length cl = length clients" "forward_attempts H P packet start (Suc attempts) cl w0 = (res, cs, w')" for cl w0
    using Suc.hyps(1) [OF _ that(2)] Suc.hyps(2) that(1) by simp
  show ?case
  proof (cases "ex_is_healthy (clients ! ?i)")
    case False
    then have "forward_attempts H P packet start (Suc attempts) clients w = (res, cs, w')"
      using Suc.prems lt by (subst (asm) forward_attempts.simps) (simp add: Let_def)
    from IH [OF refl this] lt show ?thesis by (elim exE conjE) (rule exI, rule conjI, assumption, linarith)
  next
    case True
    note log = ex_forward_logs [OF assms f True]
    show ?thesis
    proof (cases "is_ok r")
      case ok: True
      then have "res = Ok () \<and> w' = w1"
        using Suc.prems lt True f by (subst (asm) forward_attempts.simps) (auto simp: Let_def split: result.split_asm)
      with log ok lt show ?thesis by (intro exI [of _ 0]) (simp add: tries_def)
    next
      case err: False
      then have "forward_attempts H P packet start (Suc attempts) (clients[?i := c']) w1 = (res, cs, w')"
        using Suc.prems lt True f by (subst (asm) forward_attempts.simps) (auto simp: Let_def split: result.split_asm)
      from IH [OF _ this] obtain n where n: "requests w' = requests w1 @ (if is_ok res then tries n b else replicate n (b, False))"
          "n + (if is_ok res then 1 else 0) \<le> length clients - Suc attempts" by auto
      with log err lt show ?thesis by (intro exI [of _ "Suc n"]) (auto simp: tries_def split: if_splits)
    qed
  qed
qed

lemma ex_forward_keeps:
  assumes "accepts H c" "ex_is_healthy c" "px_to_bytes P packet = Ok b" "ex_forward H P c packet w = (res, c', w')"
  shows "c' = c"
  using ex_forward_accepts [OF assms(2,1,3), of w] assms(4) by auto

lemma forward_attempts_keeps:
  assumes "accepts H c" "ex_is_healthy c" "px_to_bytes P packet = Ok b"
  shows "forward_attempts H P packet start attempts clients w = (res, cs, w') \<Longrightarrow> c \<in> set clients \<Longrightarrow> c \<in> set cs"
proof (induction "length clients - attempts" arbitrary: attempts clients w)
  case 0
  then show ?case by (subst (asm) forward_attempts.simps) auto
next
  case (Suc d)
  let ?i = "(start + attempts) mod length clients"
  obtain r c' w1 where f: "ex_forward H P (clients ! ?i) packet w = (r, c', w1)" by (metis prod_cases3)
  have lt: "attempts < length clients" using Suc.hyps(2) by simp
  then have i: "?i < length clients" by (intro mod_less_divisor) linarith
  have "c \<in> set (clients[?i := c'])"
  proof -
    obtain j where j: "j < length clients" "clients ! j = c" using Suc.prems(2) by (auto simp: in_set_conv_nth)
    have "clients[?i := c'] ! j = c"
      using j i f ex_forward_keeps [OF assms, of w r c' w1] by (cases "j = ?i") auto
    then show ?thesis using j(1) by (metis length_list_update nth_mem)
  qed
  moreover have IH: "c \<in> set cs"
    if "length cl = length clients" "forward_attempts H P packet start (Suc attempts) cl w0 = (res, cs, w')" "c \<in> set cl" for cl w0
    using Suc.hyps(1) [OF _ that(2,3)] Suc.hyps(2) that(1) by simp
  ultimately show ?case
    using Suc.prems(2) Suc.prems(1) [unfolded forward_attempts.simps [of H P packet start attempts]] lt f
      IH [of "clients[?i := c']" w1]
    by (auto simp: Let_def split: if_split_asm result.split_asm)
qed

text \<open>A forwarder with a working node in the default group.\<close>

definition has_working_node :: "'w http_ext \<Rightarrow> ExitForwarder \<Rightarrow> bool" where
  "has_working_node H f \<longleftrightarrow> (\<exists>g c. dget (xp_groups (ef_pool f)) 0 = Some g \<and> c \<in> set (gp_clients g) \<and>
     ex_is_healthy c \<and> accepts H c)"

text \<open>The nodes of the default group.\<close>

definition default_nodes :: "ExitForwarder \<Rightarrow> nat" where
  "default_nodes f = (case dget (xp_groups (ef_pool f)) 0 of None \<Rightarrow> 0 | Some g \<Rightarrow> length (gp_clients g))"

lemma forward_attempts_length:
  "forward_attempts H P packet start attempts clients w = (res, cs, w') \<Longrightarrow> length cs = length clients"
proof (induction "length clients - attempts" arbitrary: attempts clients w)
  case 0
  then show ?case by (subst (asm) forward_attempts.simps) auto
next
  case (Suc d)
  let ?i = "(start + attempts) mod length clients"
  obtain r c' w1 where f: "ex_forward H P (clients ! ?i) packet w = (r, c', w1)" by (metis prod_cases3)
  have "attempts < length clients" using Suc.hyps(2) by simp
  moreover have IH: "length cs = length clients"
    if "length cl = length clients" "forward_attempts H P packet start (Suc attempts) cl w0 = (res, cs, w')" for cl w0
    using Suc.hyps(1) [OF _ that(2)] Suc.hyps(2) that(1) by simp
  ultimately show ?case
    using Suc.prems [unfolded forward_attempts.simps [of H P packet start attempts]] f IH [of "clients[?i := c']" w1]
    by (auto simp: Let_def split: if_split_asm result.split_asm)
qed

text \<open>Forwarding with a working node: after fewer failed requests than there are nodes, one is accepted.\<close>

lemma ef_forward_once:
  assumes "has_working_node H f" "http_logs H requests"
    "px_to_bytes P (from_frame frame (ef_node_id f)) = Ok b" "\<not> is_control (pf_flags frame)"
  shows "\<exists>f' w' n. ef_forward H P f frame 0 w = (Ok (), f', w') \<and> has_working_node H f' \<and>
    ef_node_id f' = ef_node_id f \<and> default_nodes f' = default_nodes f \<and>
    requests w' = requests w @ tries n b \<and> n < default_nodes f"
proof -
  obtain g c where g: "dget (xp_groups (ef_pool f)) 0 = Some g" "c \<in> set (gp_clients g)" "ex_is_healthy c" "accepts H c"
    using assms(1) unfolding has_working_node_def by blast
  let ?start = "unat (gp_next_index g) mod length (gp_clients g)"
  obtain res cs w' where a: "forward_attempts H P (from_frame frame (ef_node_id f)) ?start 0 (gp_clients g) w = (res, cs, w')"
    by (metis prod_cases3)
  have res: "res = Ok ()" using forward_attempts_any [OF assms(3) g(2-4)] a by (metis fst_conv)
  have keep: "c \<in> set cs" by (rule forward_attempts_keeps [OF g(4,3) assms(3) a g(2)])
  obtain n where log: "requests w' = requests w @ tries n b" "n < length (gp_clients g)"
    using forward_attempts_logs [OF assms(2,3) a] res by auto
  have ne: "gp_clients g \<noteq> []" using g(2) by auto
  let ?p = "(ef_pool f)\<lparr>xp_groups := dinsert 0 \<lparr>gp_clients = cs, gp_next_index = gp_next_index g + 1\<rparr> (xp_groups (ef_pool f))\<rparr>"
  have "ef_forward H P f frame 0 w = (Ok (), f\<lparr>ef_pool := ?p\<rparr>, w')"
    using assms(4) a res g(1) ne by (simp add: ef_forward_def xp_forward_def Let_def)
  moreover have "has_working_node H (f\<lparr>ef_pool := ?p\<rparr>)"
    unfolding has_working_node_def using g keep by (intro exI [of _ "\<lparr>gp_clients = cs, gp_next_index = gp_next_index g + 1\<rparr>"] exI [of _ c]) simp
  moreover have "default_nodes (f\<lparr>ef_pool := ?p\<rparr>) = default_nodes f" "n < default_nodes f"
    using g(1) forward_attempts_length [OF a] log(2) by (simp_all add: default_nodes_def)
  ultimately show ?thesis using log(1) by (intro exI [of _ "f\<lparr>ef_pool := ?p\<rparr>"] exI [of _ w'] exI [of _ n]) simp
qed

section \<open>Health checks\<close>

definition health_fails :: "'w http_ext \<Rightarrow> ExitClient \<Rightarrow> bool" where
  "health_fails H c \<longleftrightarrow> (\<forall>w status w'. hx_get H (ex_base_url c @ ''/health'') w = (Ok status, w') \<longrightarrow> \<not> http_success status)"

lemma check_clients_fail:
  "\<forall>c\<in>set cs. health_fails H c \<Longrightarrow> \<forall>c\<in>set (fst (check_clients H cs w)). \<not> ex_is_healthy c"
proof (induction cs arbitrary: w)
  case (Cons c cs)
  obtain r c' w' where h: "ex_health_check H c w = (r, c', w')" by (metis prod_cases3)
  have "\<not> ex_is_healthy c'"
    using h Cons.prems
    by (auto simp: ex_health_check_def health_fails_def ex_is_healthy_def split: prod.splits result.splits if_splits)
  with Cons.IH [of w'] Cons.prems h show ?case by (auto split: prod.splits)
qed simp

lemma check_groups_fail:
  "\<forall>(k, g)\<in>set gs. \<forall>c\<in>set (gp_clients g). health_fails H c \<Longrightarrow>
     \<forall>(k, g)\<in>set (fst (check_groups H gs w)). \<forall>c\<in>set (gp_clients g). \<not> ex_is_healthy c"
proof (induction gs arbitrary: w)
  case (Cons kg gs)
  obtain k g where kg: "kg = (k, g)" by (cases kg)
  obtain cs w' where c: "check_clients H (gp_clients g) w = (cs, w')" by force
  have "\<forall>c\<in>set cs. \<not> ex_is_healthy c"
    using check_clients_fail [of "gp_clients g" H w] Cons.prems kg c by auto
  with Cons.IH [of w'] Cons.prems kg c show ?case by (auto split: prod.splits)
qed simp

lemma forward_attempts_unhealthy:
  "\<forall>c\<in>set clients. \<not> ex_is_healthy c \<Longrightarrow>
     forward_attempts H P packet start attempts clients w =
       (Err (ExitConnectionFailed ''All exit nodes failed''), clients, w)"
proof (induction "length clients - attempts" arbitrary: attempts)
  case 0
  then show ?case by (subst forward_attempts.simps) simp
next
  case (Suc d)
  then have "attempts < length clients" by simp
  moreover from this have "\<not> ex_is_healthy (clients ! ((start + attempts) mod length clients))"
    using Suc.prems by (metis gr_implies_not0 mod_less_divisor neq0_conv nth_mem)
  ultimately show ?case
    using Suc by (subst forward_attempts.simps) (simp add: Let_def)
qed

lemma healthy_count_zero:
  "\<forall>(k, g)\<in>set gs. \<forall>c\<in>set (gp_clients g). \<not> ex_is_healthy c \<Longrightarrow>
     healthy_count (p\<lparr>xp_groups := gs\<rparr>) = 0"
  by (induction gs) (auto simp: healthy_count_def filter_empty_conv)

section \<open>Properties\<close>

text \<open>C13. A packet gets through while one exit node works: if the group requested, or the default
  group when there is none, has a healthy node that takes packets, forwarding succeeds, wherever
  the rotation stands and however many other nodes fail on the way.\<close>

theorem forward_reaches_working_node:
  assumes "px_to_bytes P packet = Ok b"
    and "dget (xp_groups p) (if dget (xp_groups p) group_id \<noteq> None then group_id else 0) = Some g"
    and "c \<in> set (gp_clients g)" and "ex_is_healthy c" and "accepts H c"
  shows "fst (xp_forward H P p packet group_id w) = Ok ()"
proof -
  let ?n = "length (gp_clients g)"
  obtain res cs w' where f: "forward_attempts H P packet (unat (gp_next_index g) mod ?n) 0 (gp_clients g) w = (res, cs, w')"
    by (metis prod_cases3)
  then have "res = Ok ()" using forward_attempts_any [OF assms(1,3-5)] by (metis fst_conv)
  with f assms(2,3) show ?thesis by (auto simp: xp_forward_def Let_def)
qed

text \<open>A network in which node \<open>b\<close> takes packets and every other request fails.\<close>

definition demo_http :: "unit http_ext" where
  "demo_http = \<lparr>hx_post = \<lambda>url b w. (if url = ''b/forward'' then Ok 200 else Err ''refused'', w),
     hx_get = \<lambda>url w. (Err ''refused'', w), hx_build = \<lambda>c. Ok ()\<rparr>"

definition demo_client :: "string \<Rightarrow> ExitClient" where
  "demo_client url = \<lparr>ex_config = \<lparr>ec_base_url = url, ec_timeout = 10000, ec_http2 = True\<rparr>, ex_healthy = True\<rparr>"

definition demo_pool :: ExitPool where
  "demo_pool = \<lparr>xp_groups = [(0, \<lparr>gp_clients = [demo_client ''a'', demo_client ''b''], gp_next_index = 4\<rparr>)],
     xp_config = exit_pool_config_default, xp_handler_id = 1\<rparr>"

theorem forward_reaches_working_node_witness:
  "fst (xp_forward demo_http \<lparr>px_to_bytes = \<lambda>p. Ok [], px_from_bytes = \<lambda>a b. Err ''''\<rparr> demo_pool
     (response (\<lambda>_. 0) 1 2 []) 5 ()) = Ok ()"
  by (rule forward_reaches_working_node [of _ _ "[]" _ _
        "\<lparr>gp_clients = [demo_client ''a'', demo_client ''b''], gp_next_index = 4\<rparr>" "demo_client ''b''"])
    (simp_all add: demo_pool_def dget_def demo_client_def ex_is_healthy_def accepts_def demo_http_def
      ex_base_url_def http_success_def)

end
