(* ===== verification/Connection_Registry.thy ===== *)
theory Connection_Registry
  imports Exit_Client
begin

text \<open>
  The registry of client connections, \<^verbatim>\<open>daemon/src/connection_registry.rs\<close>. An unbounded channel is a
  queue with a flag that says whether its receiver is alive; senders are indices into the heap of
  channels, so that a sender and its clones share the queue. The interpretation
  \<open>registry_dispatch\<close> shows that the registry is a packet dispatcher.
\<close>

section \<open>Channels and registry\<close>

record 'a channel =
  ch_queue :: "'a list"
  ch_open :: bool

definition chan_send :: "(nat \<Rightarrow> 'a channel) \<Rightarrow> nat \<Rightarrow> 'a \<Rightarrow> (unit, 'a) result \<times> (nat \<Rightarrow> 'a channel)" where
  "chan_send chans tx x =
     (if ch_open (chans tx)
      then (Ok (), chans(tx := (chans tx)\<lparr>ch_queue := ch_queue (chans tx) @ [x]\<rparr>))
      else (Err x, chans))"

record ConnectionRegistry =
  rg_connections :: "(u64, nat) dmap"
  rg_channels :: "nat \<Rightarrow> ProxyFrame channel"

definition registry_new :: "(nat \<Rightarrow> ProxyFrame channel) \<Rightarrow> ConnectionRegistry" where
  "registry_new chans = \<lparr>rg_connections = dempty, rg_channels = chans\<rparr>"

definition rg_register :: "ConnectionRegistry \<Rightarrow> u64 \<Rightarrow> nat \<Rightarrow> ConnectionRegistry" where
  "rg_register r conn_id sender = r\<lparr>rg_connections := dinsert conn_id sender (rg_connections r)\<rparr>"

definition rg_unregister :: "ConnectionRegistry \<Rightarrow> u64 \<Rightarrow> ConnectionRegistry" where
  "rg_unregister r conn_id = r\<lparr>rg_connections := dremove conn_id (rg_connections r)\<rparr>"

definition rg_count :: "ConnectionRegistry \<Rightarrow> nat" where
  "rg_count r = dlen (rg_connections r)"

text \<open>The identifier and the clock reading of the frame made are those of \<^verbatim>\<open>new_data\<close>.\<close>

definition rg_dispatch ::
  "(bytes \<Rightarrow> u32) \<Rightarrow> bytes \<Rightarrow> u64 \<Rightarrow> ConnectionRegistry \<Rightarrow> PlainPacket \<Rightarrow> ConnectionRegistry" where
  "rg_dispatch crc uuid now r packet =
     (case dget (rg_connections r) (pp_conn_id packet) of
        None \<Rightarrow> r
      | Some sender \<Rightarrow>
          let frame = new_data crc (pp_conn_id packet) (pp_rip packet) (pp_rport packet)
                        (pp_payload packet) uuid now in
          (case chan_send (rg_channels r) sender frame of
             (_, chans) \<Rightarrow> r\<lparr>rg_channels := chans\<rparr>))"

section \<open>The registry is a dispatcher\<close>

text \<open>Every registered connection has a channel of its own: the sender is fresh when the daemon
  registers it.\<close>

definition registry_ok :: "ConnectionRegistry \<Rightarrow> bool" where
  "registry_ok r \<longleftrightarrow> dwf (rg_connections r) \<and> inj_on (dget (rg_connections r)) (dom (dget (rg_connections r)))"

definition rg_received :: "ConnectionRegistry \<Rightarrow> u64 \<Rightarrow> ProxyFrame list" where
  "rg_received r c = (case dget (rg_connections r) c of None \<Rightarrow> [] | Some tx \<Rightarrow> ch_queue (rg_channels r tx))"

definition rg_listening :: "ConnectionRegistry \<Rightarrow> u64 \<Rightarrow> bool" where
  "rg_listening r c \<longleftrightarrow> (case dget (rg_connections r) c of None \<Rightarrow> False | Some tx \<Rightarrow> ch_open (rg_channels r tx))"

definition frame_of :: "(bytes \<Rightarrow> u32) \<Rightarrow> bytes \<Rightarrow> u64 \<Rightarrow> PlainPacket \<Rightarrow> ProxyFrame" where
  "frame_of crc uuid now p = new_data crc (pp_conn_id p) (pp_rip p) (pp_rport p) (pp_payload p) uuid now"

lemma registry_ok_new: "registry_ok (registry_new chans)"
  by (simp add: registry_ok_def registry_new_def inj_on_def dom_def)

lemma registry_ok_register:
  assumes "registry_ok r" "sender \<notin> ran (dget (rg_connections r))"
  shows "registry_ok (rg_register r conn_id sender)"
proof -
  have "dget (rg_connections r) k \<noteq> Some sender" for k
    using assms(2) by (auto simp: ran_def)
  then show ?thesis
    using assms(1) by (auto simp: registry_ok_def rg_register_def inj_on_def dom_def)
qed

lemma registry_ok_unregister: "registry_ok r \<Longrightarrow> registry_ok (rg_unregister r conn_id)"
  by (auto simp: registry_ok_def rg_unregister_def inj_on_def dom_def)

lemma rg_dispatch_connections: "rg_connections (rg_dispatch crc uuid now r p) = rg_connections r"
  by (simp add: rg_dispatch_def Let_def split: option.splits prod.splits)

lemma rg_dispatch_received:
  assumes "registry_ok r"
  shows "rg_received (rg_dispatch crc uuid now r p) c =
    rg_received r c @ (if pp_conn_id p = c \<and> rg_listening r c then [frame_of crc uuid now p] else [])"
proof (cases "dget (rg_connections r) (pp_conn_id p)")
  case None
  then show ?thesis by (auto simp: rg_dispatch_def rg_received_def rg_listening_def)
next
  case (Some tx)
  have "tx' \<noteq> tx" if "dget (rg_connections r) c = Some tx'" "c \<noteq> pp_conn_id p" for tx'
    using assms Some that by (auto simp: registry_ok_def inj_on_def dom_def)
  with Some show ?thesis
    by (auto simp: rg_dispatch_def rg_received_def rg_listening_def chan_send_def frame_of_def Let_def
        split: option.splits)
qed

lemma rg_dispatch_listening:
  "rg_listening (rg_dispatch crc uuid now r p) c = rg_listening r c"
  by (auto simp: rg_listening_def rg_dispatch_def chan_send_def Let_def split: option.splits)

text \<open>Every packet gets an identifier and a clock reading of its own; \<open>unstamped\<close> is a frame without them.\<close>

definition dispatch_next ::
  "(bytes \<Rightarrow> u32) \<Rightarrow> ConnectionRegistry \<times> (nat \<Rightarrow> bytes \<times> u64) \<Rightarrow> PlainPacket \<Rightarrow> ConnectionRegistry \<times> (nat \<Rightarrow> bytes \<times> u64)" where
  "dispatch_next crc s packet =
     (case s of (r, stamps) \<Rightarrow> (rg_dispatch crc (fst (stamps 0)) (snd (stamps 0)) r packet, \<lambda>n. stamps (Suc n)))"

definition unstamped :: "ProxyFrame \<Rightarrow> ProxyFrame" where
  "unstamped f = f\<lparr>pf_uuid := [], pf_timestamp := 0\<rparr>"

lemma unstamped_frame_of [simp]: "unstamped (frame_of crc uuid now p) = frame_of crc [] 0 p"
  by (simp add: unstamped_def frame_of_def new_data_def)

interpretation registry_dispatch: packet_dispatcher "dispatch_next crc" "\<lambda>(r, stamps) c. map unstamped (rg_received r c)"
  "\<lambda>(r, stamps). rg_listening r" "frame_of crc [] 0" "\<lambda>(r, stamps). registry_ok r" for crc
  by unfold_locales
    (auto simp: dispatch_next_def rg_dispatch_received rg_dispatch_listening registry_ok_def rg_dispatch_connections
      split: prod.splits)

section \<open>Properties\<close>

text \<open>C10. Return traffic reaches its connection: however the stream of an exit node is cut into chunks and wherever the
  buffer lies after each of them, the packets for a registered connection that can be read at their address
  are queued for it exactly once, in the order they were sent and as data frames with their contents, and no other connection sees them;
  a packet that cannot be read there is dropped alone. All packets are delivered when every payload lies at an address aligned to 8 bytes.\<close>

theorem return_traffic_delivered:
  assumes "pkt_ext_ok P" and "registry_ok r" and "list_all2 (\<lambda>p b. px_to_bytes P p = Ok b) ps bs"
    and "\<forall>b\<in>set bs. length b < 2 ^ 32" and "concat (map snd chunks) = concat (map length_prefixed bs)"
    and "rg_listening r c" and "read_stream P (dispatch_next crc) chunks [] (r, stamps) = (r', stamps')"
  shows "map unstamped (rg_received r' c) = map unstamped (rg_received r c) @
      map (frame_of crc [] 0) (filter (\<lambda>p. pp_conn_id p = c) (readable_packets P ps (stream_payloads chunks []))) \<and>
    ((\<forall>x\<in>set (stream_payloads chunks []). 8 dvd fst x) \<longrightarrow> readable_packets P ps (stream_payloads chunks []) = ps)"
proof
  show "map unstamped (rg_received r' c) = map unstamped (rg_received r c) @
      map (frame_of crc [] 0) (filter (\<lambda>p. pp_conn_id p = c) (readable_packets P ps (stream_payloads chunks [])))"
    using registry_dispatch.stream_delivers [OF assms(1) _ assms(3-5), of "(r, stamps)" crc c] assms(2,6,7) by simp
  show "(\<forall>x\<in>set (stream_payloads chunks []). 8 dvd fst x) \<longrightarrow> readable_packets P ps (stream_payloads chunks []) = ps"
    using readable_aligned [OF assms(1)] assms(3) stream_payloads_sent [OF assms(4,5)] by simp
qed

text \<open>C11. Every other packet of a burst is lost: the length in front of a payload has four bytes, and the payload is read where it
  lies behind it. When the reader has a buffer at an aligned address that holds several packets, the first, third, fifth, \<dots>
  lie at addresses that are not aligned, so they are refused and dropped, and a connection gets only those at even places.\<close>

theorem every_other_packet_lost:
  assumes "pkt_ext_ok P" and "pkt_ext_aligned P" and "registry_ok r" and "list_all2 (\<lambda>p b. px_to_bytes P p = Ok b) ps bs"
    and "\<forall>b\<in>set bs. length b < 2 ^ 32" and "8 dvd a" and "rg_listening r c"
    and "read_stream P (dispatch_next crc) [(a, concat (map length_prefixed bs))] [] (r, stamps) = (r', stamps')"
  shows "map unstamped (rg_received r' c) =
    map unstamped (rg_received r c) @ map (frame_of crc [] 0) (filter (\<lambda>p. pp_conn_id p = c) (every_second ps))"
proof -
  have "stream_payloads [(a, concat (map length_prefixed bs))] [] = payloads_from a bs"
    by (simp add: split_frames_stream [OF assms(5)])
  then have "readable_packets P ps (stream_payloads [(a, concat (map length_prefixed bs))] []) = every_second ps"
    using readable_every_second [OF assms(1,2,4,6)] by simp
  then show ?thesis
    using registry_dispatch.stream_delivers [OF assms(1) _ assms(4,5), of "(r, stamps)" "[(a, concat (map length_prefixed bs))]" crc c] assms(3,7,8)
    by simp
qed

text \<open>An instance: packets with one byte of payload, in archives of 16 bytes that are read at aligned addresses.\<close>

definition demo_packet :: "u64 \<Rightarrow> u8 \<Rightarrow> PlainPacket" where
  "demo_packet c x = response (\<lambda>_. 0) c 7 [x]"

definition demo_archive :: "u64 \<Rightarrow> u8 \<Rightarrow> bytes" where
  "demo_archive c x = u64_to_le c @ replicate 8 x"

definition demo_pkts :: pkt_ext where
  "demo_pkts = \<lparr>px_to_bytes = \<lambda>p. case pp_payload p of [x] \<Rightarrow> if p = demo_packet (pp_conn_id p) x
       then Ok (demo_archive (pp_conn_id p) x) else Err ''other'' | _ \<Rightarrow> Err ''other'',
     px_from_bytes = \<lambda>a b. if 8 dvd a then Ok (demo_packet (u64_from_le (take 8 b)) (b ! 8)) else Err ''unaligned''\<rparr>"

lemma demo_pkts_ok: "pkt_ext_ok demo_pkts" "pkt_ext_aligned demo_pkts"
  by (auto simp: pkt_ext_ok_def pkt_ext_aligned_def demo_pkts_def demo_archive_def nth_append split: list.splits if_splits)

lemma demo_pkts_bytes: "px_to_bytes demo_pkts (demo_packet c x) = Ok (demo_archive c x)"
  by (simp add: demo_pkts_def demo_packet_def response_def)

lemma demo_archive_length: "length (demo_archive c x) = 16" by (simp add: demo_archive_def)

definition demo_registry :: ConnectionRegistry where
  "demo_registry = rg_register (rg_register (registry_new (\<lambda>_. \<lparr>ch_queue = [], ch_open = True\<rparr>)) 1 10) 2 20"

lemma demo_registry_ok: "registry_ok demo_registry"
  unfolding demo_registry_def
  by (intro registry_ok_register registry_ok_new) (auto simp: registry_new_def rg_register_def ran_def)

lemma demo_registry_listens: "rg_listening demo_registry 1" "rg_received demo_registry 1 = []"
  by (simp_all add: rg_listening_def rg_received_def demo_registry_def rg_register_def registry_new_def)

text \<open>Three packets that arrive one by one in a buffer that is four bytes off.\<close>

definition demo_chunks :: "(nat \<times> bytes) list" where
  "demo_chunks = map (\<lambda>b. (12, length_prefixed b)) [demo_archive 1 4, demo_archive 2 5, demo_archive 1 6]"

lemma demo_chunks_payloads:
  "stream_payloads demo_chunks [] = [(16, demo_archive 1 4), (16, demo_archive 2 5), (16, demo_archive 1 6)]"
proof -
  have "split_frames 12 (length_prefixed (demo_archive c x)) = ([(16, demo_archive c x)], [])" for c x
    using split_frames_stream [of "[demo_archive c x]" 12] by (simp add: demo_archive_length)
  then show ?thesis by (simp add: demo_chunks_def)
qed

theorem return_traffic_delivered_witness:
  "map unstamped (rg_received (fst (read_stream demo_pkts (dispatch_next (\<lambda>_. 0)) demo_chunks []
     (demo_registry, \<lambda>n. ([word_of_nat n], 5)))) 1) =
   [frame_of (\<lambda>_. 0) [] 0 (demo_packet 1 4), frame_of (\<lambda>_. 0) [] 0 (demo_packet 1 6)]"
proof -
  let ?ps = "[demo_packet 1 4, demo_packet 2 5, demo_packet 1 6]"
  have bytes: "list_all2 (\<lambda>p b. px_to_bytes demo_pkts p = Ok b) ?ps [demo_archive 1 4, demo_archive 2 5, demo_archive 1 6]"
    by (simp add: demo_pkts_bytes)
  note d = return_traffic_delivered [OF demo_pkts_ok(1) demo_registry_ok bytes _ _ demo_registry_listens(1) prod.collapse [symmetric],
      of demo_chunks "\<lambda>_. 0" "\<lambda>n. ([word_of_nat n], 5)"]
  have "\<forall>x\<in>set (stream_payloads demo_chunks []). 8 dvd fst x" by (simp add: demo_chunks_payloads)
  with d show ?thesis
    by (simp add: demo_registry_listens demo_archive_length demo_chunks_def) (simp add: demo_packet_def response_def)
qed

theorem every_other_packet_lost_witness:
  "map unstamped (rg_received (fst (read_stream demo_pkts (dispatch_next (\<lambda>_. 0))
     [(64, concat (map length_prefixed [demo_archive 1 4, demo_archive 1 5, demo_archive 1 6]))] []
     (demo_registry, \<lambda>n. ([word_of_nat n], 5)))) 1) = [frame_of (\<lambda>_. 0) [] 0 (demo_packet 1 5)]"
proof -
  have bytes: "list_all2 (\<lambda>p b. px_to_bytes demo_pkts p = Ok b) [demo_packet 1 4, demo_packet 1 5, demo_packet 1 6]
      [demo_archive 1 4, demo_archive 1 5, demo_archive 1 6]"
    by (simp add: demo_pkts_bytes)
  show ?thesis
    using every_other_packet_lost [OF demo_pkts_ok demo_registry_ok bytes _ _ demo_registry_listens(1) prod.collapse [symmetric],
        of 64 "\<lambda>_. 0" "\<lambda>n. ([word_of_nat n], 5)"]
    by (simp add: demo_registry_listens demo_archive_length) (simp add: demo_packet_def response_def)
qed

end
