(* ===== verification/Exit_Node.thy ===== *)
theory Exit_Node
  imports Connection_Registry
begin

text \<open>
  The exit node, \<^verbatim>\<open>daemon/src/exit_node.rs\<close>: address translation between the packets of the daemons
  and the TUN device, the return streams, the HTTP interface and the negotiation of a group. The
  device is the list of the packets written to it and a flag that makes writes fail; each packet
  read from it is one call of \<open>tun_packet\<close>. The header parser of \<^verbatim>\<open>etherparse\<close>, rkyv and the address at which the
  body of a request or message lies are the parameter \<open>exit_ext\<close>. Return streams are channels of body frames, as in \<open>Connection_Registry\<close>.
\<close>

section \<open>State\<close>

record RouteEntry =
  re_handler_id :: u64
  re_conn_id :: u64

record ExitService =
  es_tun_written :: "bytes list"
  es_tun_broken :: bool
  es_route_map :: "(bytes, RouteEntry) dmap"
  es_handler_streams :: "(u64, nat) dmap"
  es_ip_pool :: u16
  es_channels :: "nat \<Rightarrow> bytes channel"
  es_next_channel :: nat

record exit_ext =
  xe_packets :: pkt_ext
  xe_body_at :: "bytes \<Rightarrow> nat"
  xe_crc :: "bytes \<Rightarrow> u32"
  xe_ipv4_ok :: "bytes \<Rightarrow> bool"
  xe_ipv4_dst :: "bytes \<Rightarrow> bytes option"
  xe_control :: "bytes \<Rightarrow> ControlMessage option"
  xe_control_bytes :: "ControlMessage \<Rightarrow> bytes option"

definition es_new :: ExitService where
  "es_new = \<lparr>es_tun_written = [], es_tun_broken = False, es_route_map = dempty, es_handler_streams = dempty,
     es_ip_pool = 2, es_channels = (\<lambda>_. \<lparr>ch_queue = [], ch_open = True\<rparr>), es_next_channel = 0\<rparr>"

section \<open>Operations\<close>

definition alloc_ip :: "ExitService \<Rightarrow> bytes \<times> ExitService" where
  "alloc_ip s =
     (let ident = es_ip_pool s in
      ([10, 200, ucast (drop_bit 8 ident), ucast (ident AND 0xFF)], s\<lparr>es_ip_pool := ident + 1\<rparr>))"

definition rewrite_source :: "exit_ext \<Rightarrow> bytes \<Rightarrow> bytes \<Rightarrow> bytes" where
  "rewrite_source X virtual_ip payload =
     (if xe_ipv4_ok X payload \<and> length payload \<ge> 20
      then take 12 payload @ virtual_ip @ drop 16 payload else payload)"

definition handle_forward ::
  "exit_ext \<Rightarrow> ExitService \<Rightarrow> PlainPacket \<Rightarrow> (unit, string) result \<times> ExitService" where
  "handle_forward X s packet =
     (let (virtual_ip, s1) = alloc_ip s;
          payload = rewrite_source X virtual_ip (pp_payload packet);
          s2 = s1\<lparr>es_route_map := dinsert virtual_ip
                    \<lparr>re_handler_id = pp_handler_id packet, re_conn_id = pp_conn_id packet\<rparr> (es_route_map s1)\<rparr> in
      if es_tun_broken s2 then (Err ''TUN write failed'', s2)
      else (Ok (), s2\<lparr>es_tun_written := es_tun_written s2 @ [payload]\<rparr>))"

definition return_packet :: "exit_ext \<Rightarrow> RouteEntry \<Rightarrow> bytes \<Rightarrow> PlainPacket" where
  "return_packet X route packet =
     \<lparr>pp_magic = MAGIC, pp_conn_id = re_conn_id route, pp_handler_id = re_handler_id route,
      pp_rip = replicate 16 0, pp_rport = 0, pp_payload = packet, pp_checksum = xe_crc X packet,
      pp_is_response = True\<rparr>"

text \<open>One turn of the TUN reader.\<close>

definition tun_packet :: "exit_ext \<Rightarrow> ExitService \<Rightarrow> bytes \<Rightarrow> ExitService" where
  "tun_packet X s packet =
     (case xe_ipv4_dst X packet of
        None \<Rightarrow> s
      | Some dst_addr \<Rightarrow>
          (case dget (es_route_map s) dst_addr of
             None \<Rightarrow> s
           | Some route \<Rightarrow>
               (case dget (es_handler_streams s) (re_handler_id route) of
                  None \<Rightarrow> s
                | Some sender \<Rightarrow>
                    (case px_to_bytes (xe_packets X) (return_packet X route packet) of
                       Err _ \<Rightarrow> s
                     | Ok bytes \<Rightarrow>
                         (case chan_send (es_channels s) sender
                                 (u32_to_le (word_of_nat (length bytes)) @ bytes) of
                            (_, chans) \<Rightarrow> s\<lparr>es_channels := chans\<rparr>)))))"

definition register_stream :: "ExitService \<Rightarrow> u64 \<Rightarrow> nat \<times> ExitService" where
  "register_stream s handler_id =
     (let rx = es_next_channel s in
      (rx, s\<lparr>es_channels := (es_channels s)(rx := \<lparr>ch_queue = [], ch_open = True\<rparr>),
             es_next_channel := rx + 1,
             es_handler_streams := dinsert handler_id rx (es_handler_streams s)\<rparr>))"

datatype http_method = GET | POST | OtherMethod

record http_response =
  hr_status :: nat
  hr_body :: string
  hr_stream :: "nat option"

text \<open>The path is without the query, as \<^verbatim>\<open>uri().path()\<close> gives it.\<close>

definition handle_http_request ::
  "exit_ext \<Rightarrow> ExitService \<Rightarrow> http_method \<Rightarrow> string \<Rightarrow> bytes \<Rightarrow> http_response \<times> ExitService" where
  "handle_http_request X s meth path body =
     (if meth = POST \<and> path = ''/forward''
      then (case px_from_bytes (xe_packets X) (xe_body_at X body) body of
              Ok packet \<Rightarrow> (\<lparr>hr_status = 200, hr_body = '''', hr_stream = None\<rparr>, snd (handle_forward X s packet))
            | Err _ \<Rightarrow> (\<lparr>hr_status = 400, hr_body = ''Invalid Data'', hr_stream = None\<rparr>, s))
      else if meth = GET \<and> path = ''/stream''
      then (let handler_id = 1; (rx, s') = register_stream s handler_id in
            (\<lparr>hr_status = 200, hr_body = '''', hr_stream = Some rx\<rparr>, s'))
      else (\<lparr>hr_status = 404, hr_body = ''Not Found'', hr_stream = None\<rparr>, s))"

section \<open>Reverse mode\<close>

text \<open>\<^verbatim>\<open>min_by_key\<close> returns the first element with the least key.\<close>

fun min_load :: "GroupInfo list \<Rightarrow> GroupInfo option" where
  "min_load [] = None"
| "min_load (g # gs) =
     (case min_load gs of None \<Rightarrow> Some g | Some h \<Rightarrow> if gi_load h < gi_load g then Some h else Some g)"

definition select_group :: "i32 option \<Rightarrow> GroupInfo list \<Rightarrow> (i32, string) result" where
  "select_group preferred groups =
     (case preferred of
        Some group_id \<Rightarrow>
          if list_ex (\<lambda>g. gi_group_id g = group_id) groups then Ok group_id
          else (case min_load groups of
                  None \<Rightarrow> Err ''No groups available'' | Some g \<Rightarrow> Ok (gi_group_id g))
      | None \<Rightarrow>
          (case min_load groups of
             None \<Rightarrow> Err ''No groups available'' | Some g \<Rightarrow> Ok (gi_group_id g)))"

datatype ws_msg = MsgBinary bytes | MsgPing bytes | MsgPong bytes | MsgClose | MsgOther | MsgErr string

fun wait_for_groups :: "exit_ext \<Rightarrow> i32 option \<Rightarrow> ws_msg list \<Rightarrow> (i32, string) result \<times> ws_msg list" where
  "wait_for_groups X preferred [] = (Err ''Connection closed before receiving groups'', [])"
| "wait_for_groups X preferred (msg # rx) =
     (case msg of
        MsgBinary data \<Rightarrow>
          (case xe_control X data of
             Some (GroupList groups) \<Rightarrow> (select_group preferred groups, rx)
           | _ \<Rightarrow> wait_for_groups X preferred rx)
      | MsgClose \<Rightarrow> (Err ''Handler closed connection before sending groups'', rx)
      | MsgErr e \<Rightarrow> (Err (''WebSocket error: '' @ e), rx)
      | _ \<Rightarrow> wait_for_groups X preferred rx)"

text \<open>The loop after the negotiation: packets are forwarded, pings answered.\<close>

fun reverse_loop :: "exit_ext \<Rightarrow> ws_msg list \<Rightarrow> ExitService \<Rightarrow> ws_msg list \<Rightarrow> ExitService \<times> ws_msg list" where
  "reverse_loop X [] s sent = (s, sent)"
| "reverse_loop X (msg # rx) s sent =
     (case msg of
        MsgBinary data \<Rightarrow>
          (case px_from_bytes (xe_packets X) (xe_body_at X data) data of
             Ok packet \<Rightarrow> reverse_loop X rx (snd (handle_forward X s packet)) sent
           | Err _ \<Rightarrow> reverse_loop X rx s sent)
      | MsgPing data \<Rightarrow> reverse_loop X rx s (sent @ [MsgPong data])
      | MsgClose \<Rightarrow> (s, sent)
      | MsgErr _ \<Rightarrow> (s, sent)
      | _ \<Rightarrow> reverse_loop X rx s sent)"

definition connect_to_handler ::
  "exit_ext \<Rightarrow> i32 option \<Rightarrow> ws_msg list \<Rightarrow> ExitService \<Rightarrow> (unit, string) result \<times> ExitService \<times> ws_msg list" where
  "connect_to_handler X preferred rx s =
     (case wait_for_groups X preferred rx of
        (Err e, _) \<Rightarrow> (Err e, s, [])
      | (Ok group_id, rx') \<Rightarrow>
          (case xe_control_bytes X (GroupSelect group_id) of
             None \<Rightarrow> (Err ''Failed to serialize group selection'', s, [])
           | Some msg_bytes \<Rightarrow>
               (case reverse_loop X rx' s [MsgBinary msg_bytes] of (s', sent) \<Rightarrow> (Ok (), s', sent))))"

section \<open>Addresses\<close>

definition ip_of :: "u16 \<Rightarrow> bytes" where
  "ip_of ident = [10, 200, ucast (drop_bit 8 ident), ucast (ident AND 0xFF)]"

lemma alloc_ip_eq: "alloc_ip s = (ip_of (es_ip_pool s), s\<lparr>es_ip_pool := es_ip_pool s + 1\<rparr>)"
  by (simp add: alloc_ip_def ip_of_def Let_def)

lemma ip_of_inject: "ip_of a = ip_of b \<longleftrightarrow> a = b"
proof
  assume eq: "ip_of a = ip_of b"
  then have hi: "(ucast (drop_bit 8 a) :: u8) = ucast (drop_bit 8 b)"
    and lo: "(ucast (a AND 0xFF) :: u8) = ucast (b AND 0xFF)"
    by (simp_all add: ip_of_def)
  have ff: "bit (0xFF :: u16) n = (n < 8)" for n
    using bit_mask_iff [of 8 n, where ?'a = u16] by (auto simp: mask_eq_exp_minus_1)
  show "a = b"
  proof (rule bit_word_eqI)
    fix n assume n: "n < LENGTH(16)"
    show "bit a n = bit b n"
    proof (cases "n < 8")
      case True
      have "bit (ucast (a AND 0xFF) :: u8) n = bit (ucast (b AND 0xFF) :: u8) n" by (simp only: lo)
      with True ff [of n] show ?thesis by (simp add: bit_simps)
    next
      case False
      have "bit (ucast (drop_bit 8 a) :: u8) (n - 8) = bit (ucast (drop_bit 8 b) :: u8) (n - 8)" by (simp only: hi)
      moreover have "n - 8 < 8" using False n by simp
      ultimately show ?thesis using False n by (simp add: bit_simps)
    qed
  qed
qed simp

text \<open>The source addresses given to a sequence of packets.\<close>

fun forward_sources :: "exit_ext \<Rightarrow> ExitService \<Rightarrow> PlainPacket list \<Rightarrow> bytes list" where
  "forward_sources X s [] = []"
| "forward_sources X s (p # ps) = fst (alloc_ip s) # forward_sources X (snd (handle_forward X s p)) ps"

lemma handle_forward_pool: "es_ip_pool (snd (handle_forward X s p)) = es_ip_pool s + 1"
  by (simp add: handle_forward_def alloc_ip_eq Let_def)

lemma forward_sources_eq:
  "forward_sources X s ps = map (\<lambda>i. ip_of (es_ip_pool s + word_of_nat i)) [0..<length ps]"
proof (induction X s ps rule: forward_sources.induct)
  case (2 X s p ps)
  have "[0..<length (p # ps)] = 0 # map Suc [0..<length ps]"
    by (simp only: length_Cons map_Suc_upt upt_conv_Cons [OF zero_less_Suc])
  with 2 show ?case
    by (simp add: alloc_ip_eq handle_forward_pool comp_def add.assoc)
qed simp

section \<open>Runs of an exit node\<close>

datatype exit_op = HttpReq http_method string bytes | TunRead bytes

fun exit_step :: "exit_ext \<Rightarrow> ExitService \<Rightarrow> exit_op \<Rightarrow> ExitService" where
  "exit_step X s (HttpReq m path body) = snd (handle_http_request X s m path body)"
| "exit_step X s (TunRead packet) = tun_packet X s packet"

lemma handle_forward_streams: "es_handler_streams (snd (handle_forward X s p)) = es_handler_streams s"
  by (simp add: handle_forward_def alloc_ip_eq Let_def)

lemma tun_packet_streams: "es_handler_streams (tun_packet X s packet) = es_handler_streams s"
  by (auto simp: tun_packet_def split: option.splits result.splits prod.splits)

lemma exit_step_streams:
  "dom (dget (es_handler_streams s)) \<subseteq> {1} \<Longrightarrow> dom (dget (es_handler_streams (exit_step X s op))) \<subseteq> {1}"
  by (cases op)
    (auto simp: handle_http_request_def handle_forward_streams tun_packet_streams register_stream_def Let_def
      dom_def split: if_splits result.splits)

lemma exit_run_streams:
  "dom (dget (es_handler_streams s)) \<subseteq> {1} \<Longrightarrow> dom (dget (es_handler_streams (foldl (exit_step X) s ops))) \<subseteq> {1}"
  by (induction ops arbitrary: s) (simp_all add: exit_step_streams del: exit_step.simps)

text \<open>The requests of a run that are forwarded, and what the run keeps of the routes: an address stays with its route until
  the counter comes back to it.\<close>

fun forwards :: "exit_ext \<Rightarrow> exit_op \<Rightarrow> bool" where
  "forwards X (HttpReq m path body) \<longleftrightarrow>
     m = POST \<and> path = ''/forward'' \<and> is_ok (px_from_bytes (xe_packets X) (xe_body_at X body) body)"
| "forwards X (TunRead packet) \<longleftrightarrow> False"

definition forward_count :: "exit_ext \<Rightarrow> exit_op list \<Rightarrow> nat" where
  "forward_count X ops = length (filter (forwards X) ops)"

definition route_of :: "PlainPacket \<Rightarrow> RouteEntry" where
  "route_of p = \<lparr>re_handler_id = pp_handler_id p, re_conn_id = pp_conn_id p\<rparr>"

lemma handle_forward_routes:
  "es_route_map (snd (handle_forward X s p)) = dinsert (ip_of (es_ip_pool s)) (route_of p) (es_route_map s)"
  by (simp add: handle_forward_def alloc_ip_eq route_of_def Let_def)

lemma tun_packet_pool: "es_ip_pool (tun_packet X s p) = es_ip_pool s" "es_route_map (tun_packet X s p) = es_route_map s"
  by (auto simp: tun_packet_def split: option.splits result.splits prod.splits)

lemma exit_step_route:
  "if forwards X op
   then es_ip_pool (exit_step X s op) = es_ip_pool s + 1 \<and>
     (\<exists>p. es_route_map (exit_step X s op) = dinsert (ip_of (es_ip_pool s)) (route_of p) (es_route_map s))
   else es_ip_pool (exit_step X s op) = es_ip_pool s \<and> es_route_map (exit_step X s op) = es_route_map s"
  by (cases op)
    (auto simp: handle_http_request_def handle_forward_pool handle_forward_routes tun_packet_pool register_stream_def Let_def
      split: if_splits result.splits)

lemma exit_run_route:
  "dget (es_route_map s) (ip_of a) = Some r \<Longrightarrow> \<forall>i<forward_count X ops. a \<noteq> es_ip_pool s + word_of_nat i \<Longrightarrow>
     dget (es_route_map (foldl (exit_step X) s ops)) (ip_of a) = Some r \<and>
     es_ip_pool (foldl (exit_step X) s ops) = es_ip_pool s + word_of_nat (forward_count X ops)"
proof (induction ops arbitrary: s)
  case (Cons op ops)
  let ?s = "exit_step X s op"
  show ?case
  proof (cases "forwards X op")
    case True
    then have count: "forward_count X (op # ops) = Suc (forward_count X ops)" by (simp add: forward_count_def)
    have step: "es_ip_pool ?s = es_ip_pool s + 1" "\<exists>p. es_route_map ?s = dinsert (ip_of (es_ip_pool s)) (route_of p) (es_route_map s)"
      using exit_step_route [of X op s] True by auto
    have "a \<noteq> es_ip_pool s" using Cons.prems(2) [unfolded count, rule_format, of 0] by simp
    then have "dget (es_route_map ?s) (ip_of a) = Some r" using step(2) Cons.prems(1) by (auto simp: ip_of_inject)
    moreover have "a \<noteq> es_ip_pool ?s + word_of_nat i" if "i < forward_count X ops" for i
    proof -
      have "a \<noteq> es_ip_pool s + word_of_nat (Suc i)" using Cons.prems(2) [unfolded count, rule_format, of "Suc i"] that by simp
      then show ?thesis by (simp add: step(1) add.assoc)
    qed
    ultimately show ?thesis using Cons.IH [of ?s] by (simp add: count step(1) del: exit_step.simps)
  next
    case False
    then have count: "forward_count X (op # ops) = forward_count X ops" by (simp add: forward_count_def)
    have "es_ip_pool ?s = es_ip_pool s" "es_route_map ?s = es_route_map s" using exit_step_route [of X op s] False by simp_all
    with Cons.IH [of ?s] Cons.prems show ?thesis by (simp add: count del: exit_step.simps)
  qed
qed (simp add: forward_count_def)

lemma counter_distinct:
  assumes "i < 65535"
  shows "(a :: u16) \<noteq> a + 1 + word_of_nat i"
proof
  assume "a = a + 1 + word_of_nat i"
  then have "(word_of_nat (Suc i) :: u16) = 0" by (simp add: add.assoc)
  then have "unat (word_of_nat (Suc i) :: u16) = 0" by (simp only: unsigned_0)
  moreover have "unat (word_of_nat (Suc i) :: u16) = Suc i" using assms by (subst unat_of_nat) simp
  ultimately show False by simp
qed

lemma counter_wraps: "(a :: u16) + 1 + word_of_nat 65535 = a"
proof -
  have "(65536 :: u16) = 0" by transfer simp
  then show ?thesis by (simp add: add.assoc)
qed

text \<open>The routes after a packet was forwarded and more requests have come.\<close>

lemma forwarded_route:
  assumes "s' = foldl (exit_step X) (snd (handle_forward X s p)) ops" "forward_count X ops \<le> 65535"
  shows "dget (es_route_map s') (fst (alloc_ip s)) = Some (route_of p)"
    "es_ip_pool s' = es_ip_pool s + 1 + word_of_nat (forward_count X ops)"
proof -
  have "\<forall>i<forward_count X ops. es_ip_pool s \<noteq> es_ip_pool (snd (handle_forward X s p)) + word_of_nat i"
    unfolding handle_forward_pool using counter_distinct assms(2) by (meson less_le_trans)
  then have "dget (es_route_map s') (ip_of (es_ip_pool s)) = Some (route_of p) \<and>
      es_ip_pool s' = es_ip_pool (snd (handle_forward X s p)) + word_of_nat (forward_count X ops)"
    unfolding assms(1) by (intro exit_run_route) (simp add: handle_forward_routes)
  then show "dget (es_route_map s') (fst (alloc_ip s)) = Some (route_of p)"
    "es_ip_pool s' = es_ip_pool s + 1 + word_of_nat (forward_count X ops)"
    by (simp_all add: alloc_ip_eq handle_forward_pool)
qed

text \<open>A run of the reader: what it puts on the stream of a daemon are the packets for the routes of that daemon, framed
  and in the order of the device.\<close>

definition returned_to :: "exit_ext \<Rightarrow> ExitService \<Rightarrow> u64 \<Rightarrow> bytes list \<Rightarrow> PlainPacket list" where
  "returned_to X s handler_id packets =
     concat (map (\<lambda>packet. case Option.bind (xe_ipv4_dst X packet) (dget (es_route_map s)) of
         None \<Rightarrow> []
       | Some route \<Rightarrow> if re_handler_id route = handler_id then [return_packet X route packet] else []) packets)"

lemma tun_packet_maps:
  "es_route_map (tun_packet X s p) = es_route_map s" "es_handler_streams (tun_packet X s p) = es_handler_streams s"
  "ch_open (es_channels (tun_packet X s p) tx) = ch_open (es_channels s tx)"
  by (auto simp: tun_packet_def chan_send_def split: option.splits result.splits)

lemma returned_to_tun: "returned_to X (tun_packet X s p) h ps = returned_to X s h ps"
  by (simp add: returned_to_def tun_packet_maps)

lemma tun_packet_queue:
  assumes "dget (es_handler_streams s) h = Some tx" "ch_open (es_channels s tx)"
    "\<And>h'. dget (es_handler_streams s) h' = Some tx \<Longrightarrow> h' = h"
    "list_all2 (\<lambda>p b. px_to_bytes (xe_packets X) p = Ok b) (returned_to X s h [packet]) bs"
  shows "ch_queue (es_channels (tun_packet X s packet) tx) = ch_queue (es_channels s tx) @ map length_prefixed bs"
proof (cases "Option.bind (xe_ipv4_dst X packet) (dget (es_route_map s))")
  case None
  then have "bs = []" using assms(4) by (simp add: returned_to_def)
  with None show ?thesis by (auto simp: tun_packet_def split: option.splits)
next
  case (Some route)
  then obtain dst where dst: "xe_ipv4_dst X packet = Some dst" "dget (es_route_map s) dst = Some route"
    by (auto simp: bind_eq_Some_conv)
  show ?thesis
  proof (cases "re_handler_id route = h")
    case True
    then obtain b where "bs = [b]" "px_to_bytes (xe_packets X) (return_packet X route packet) = Ok b"
      using assms(4) Some by (auto simp: returned_to_def list_all2_Cons1)
    with True dst assms(1,2) show ?thesis by (simp add: tun_packet_def chan_send_def length_prefixed_def)
  next
    case False
    then have "bs = []" "dget (es_handler_streams s) (re_handler_id route) \<noteq> Some tx"
      using assms(3,4) Some by (auto simp: returned_to_def)
    with dst show ?thesis
      by (auto simp: tun_packet_def chan_send_def split: option.splits result.splits)
  qed
qed

lemma tun_packets_queue:
  "dget (es_handler_streams s) h = Some tx \<Longrightarrow> ch_open (es_channels s tx) \<Longrightarrow>
   (\<And>h'. dget (es_handler_streams s) h' = Some tx \<Longrightarrow> h' = h) \<Longrightarrow>
   list_all2 (\<lambda>p b. px_to_bytes (xe_packets X) p = Ok b) (returned_to X s h packets) bs \<Longrightarrow>
   ch_queue (es_channels (foldl (tun_packet X) s packets) tx) = ch_queue (es_channels s tx) @ map length_prefixed bs"
proof (induction packets arbitrary: s bs)
  case Nil
  from Nil.prems(4) have "bs = []" by (simp add: returned_to_def)
  then show ?case by simp
next
  case (Cons packet packets)
  have split: "returned_to X s h (packet # packets) = returned_to X s h [packet] @ returned_to X s h packets"
    by (simp add: returned_to_def)
  obtain bs1 bs2 where bs: "bs = bs1 @ bs2"
    "list_all2 (\<lambda>p b. px_to_bytes (xe_packets X) p = Ok b) (returned_to X s h [packet]) bs1"
    "list_all2 (\<lambda>p b. px_to_bytes (xe_packets X) p = Ok b) (returned_to X s h packets) bs2"
    using Cons.prems(4) unfolding split list_all2_append1 by (elim exE conjE) (rule that; assumption)
  have "ch_queue (es_channels (foldl (tun_packet X) (tun_packet X s packet) packets) tx) =
      ch_queue (es_channels (tun_packet X s packet) tx) @ map length_prefixed bs2"
    by (rule Cons.IH; unfold tun_packet_maps returned_to_tun)
      (rule Cons.prems(1), rule Cons.prems(2), erule Cons.prems(3), rule bs(3))
  with tun_packet_queue [OF Cons.prems(1-3) bs(2)] bs(1) show ?case by simp
qed

section \<open>Group selection\<close>

lemma min_load_least: "min_load gs = Some g \<Longrightarrow> g \<in> set gs \<and> (\<forall>h\<in>set gs. gi_load g \<le> gi_load h)"
proof (induction gs arbitrary: g)
  case (Cons a gs)
  show ?case
  proof (cases "min_load gs")
    case None
    then have "gs = []" by (cases gs) (auto split: option.splits if_splits)
    with Cons.prems None show ?thesis by simp
  next
    case (Some h)
    with Cons.IH [OF Some] Cons.prems show ?thesis
      by (auto split: if_splits intro: order.trans)
  qed
qed simp

lemma min_load_none: "min_load gs = None \<longleftrightarrow> gs = []"
  by (cases gs) (auto split: option.splits)

section \<open>An instance of the parameters\<close>

definition demo_exit :: exit_ext where
  "demo_exit = \<lparr>xe_packets = \<lparr>px_to_bytes = \<lambda>p. Ok (u64_to_le (pp_conn_id p)),
       px_from_bytes = \<lambda>a b. Ok (response (\<lambda>_. 0) (u64_from_le (take 8 b)) (u64_from_le (drop 8 b)) [])\<rparr>,
     xe_body_at = \<lambda>_. 0,
     xe_crc = \<lambda>_. 0, xe_ipv4_ok = \<lambda>_. True, xe_ipv4_dst = \<lambda>p. Some (take 4 (drop 16 p)),
     xe_control = \<lambda>_. None, xe_control_bytes = \<lambda>_. None\<rparr>"

section \<open>Properties\<close>

text \<open>C15. Address translation routes back: a packet that is forwarded is written to the device with the virtual address
  as its source, bytes 12 to 15, and otherwise as it was. Whatever requests and packets of the device follow, up to 65535 further
  packets forwarded, a packet the device returns to that address is put on the stream its daemon has by then and on no
  other, length-prefixed, with the id of the connection, the packet as payload and a valid checksum. The packet forwarded
  after those 65535 takes the address over, since the 16-bit counter has wrapped around: what is returned to it then goes to that packet's connection.\<close>

theorem nat_routes_back:
  assumes "s1 = snd (handle_forward X s p)" and "s2 = foldl (exit_step X) s1 ops" and "forward_count X ops \<le> 65535"
    and "xe_ipv4_dst X packet = Some (fst (alloc_ip s))"
    and "dget (es_handler_streams s2) (pp_handler_id p) = Some tx" and "ch_open (es_channels s2 tx)"
    and "q = return_packet X \<lparr>re_handler_id = pp_handler_id p, re_conn_id = pp_conn_id p\<rparr> packet"
    and "px_to_bytes (xe_packets X) q = Ok bytes"
  shows "(\<not> es_tun_broken s \<and> xe_ipv4_ok X (pp_payload p) \<and> 20 \<le> length (pp_payload p) \<longrightarrow>
      es_tun_written s1 = es_tun_written s @ [take 12 (pp_payload p) @ fst (alloc_ip s) @ drop 16 (pp_payload p)]) \<and>
    es_channels (tun_packet X s2 packet) =
      (es_channels s2)(tx := (es_channels s2 tx)\<lparr>ch_queue := ch_queue (es_channels s2 tx) @ [length_prefixed bytes]\<rparr>) \<and>
    pp_conn_id q = pp_conn_id p \<and> pp_payload q = packet \<and> is_valid (xe_crc X) q \<and>
    (forward_count X ops = 65535 \<longrightarrow>
      dget (es_route_map (snd (handle_forward X s2 p'))) (fst (alloc_ip s)) =
        Some \<lparr>re_handler_id = pp_handler_id p', re_conn_id = pp_conn_id p'\<rparr>)"
proof (intro conjI)
  note route = forwarded_route [OF assms(2) [unfolded assms(1)] assms(3)]
  show "\<not> es_tun_broken s \<and> xe_ipv4_ok X (pp_payload p) \<and> 20 \<le> length (pp_payload p) \<longrightarrow>
      es_tun_written s1 = es_tun_written s @ [take 12 (pp_payload p) @ fst (alloc_ip s) @ drop 16 (pp_payload p)]"
    by (simp add: assms(1) handle_forward_def alloc_ip_eq rewrite_source_def Let_def)
  show "es_channels (tun_packet X s2 packet) =
      (es_channels s2)(tx := (es_channels s2 tx)\<lparr>ch_queue := ch_queue (es_channels s2 tx) @ [length_prefixed bytes]\<rparr>)"
    using assms(4-8) route(1) by (simp add: tun_packet_def chan_send_def length_prefixed_def route_of_def)
  show "pp_conn_id q = pp_conn_id p" "pp_payload q = packet" "is_valid (xe_crc X) q"
    by (simp_all add: assms(7) return_packet_def is_valid_def)
  show "forward_count X ops = 65535 \<longrightarrow> dget (es_route_map (snd (handle_forward X s2 p'))) (fst (alloc_ip s)) =
        Some \<lparr>re_handler_id = pp_handler_id p', re_conn_id = pp_conn_id p'\<rparr>"
  proof
    assume "forward_count X ops = 65535"
    with route(2) have "es_ip_pool s2 = es_ip_pool s" by (simp only: counter_wraps)
    then show "dget (es_route_map (snd (handle_forward X s2 p'))) (fst (alloc_ip s)) =
        Some \<lparr>re_handler_id = pp_handler_id p', re_conn_id = pp_conn_id p'\<rparr>"
      by (simp add: handle_forward_routes alloc_ip_eq route_of_def)
  qed
qed

text \<open>Two packets are forwarded; then the device returns one to the address of the first.\<close>

theorem nat_routes_back_witness:
  "ch_queue (es_channels (tun_packet demo_exit (foldl (exit_step demo_exit) (snd (handle_forward demo_exit (snd (register_stream es_new 1))
     (response (\<lambda>_. 0) 5 1 []))) [HttpReq POST ''/forward'' (u64_to_le 8 @ u64_to_le 1)]) (replicate 16 0 @ [10, 200, 0, 2])) 0) =
   [length_prefixed (u64_to_le 5)]"
proof -
  let ?s = "snd (register_stream es_new 1)" and ?p = "response (\<lambda>_. 0) 5 1 []" and ?ops = "[HttpReq POST ''/forward'' (u64_to_le 8 @ u64_to_le 1)]"
  let ?s2 = "foldl (exit_step demo_exit) (snd (handle_forward demo_exit ?s ?p)) ?ops"
  have s2: "es_handler_streams ?s2 = dinsert 1 0 dempty" "es_channels ?s2 0 = \<lparr>ch_queue = [], ch_open = True\<rparr>"
    by (simp_all add: handle_http_request_def handle_forward_def alloc_ip_eq register_stream_def es_new_def Let_def demo_exit_def)
  have "forward_count demo_exit ?ops \<le> 65535" by (simp add: forward_count_def)
  from nat_routes_back [OF refl refl this, of "replicate 16 0 @ [10, 200, 0, 2]" ?s ?p 0 _ "u64_to_le 5"] show ?thesis
    unfolding s2 by (simp add: demo_exit_def alloc_ip_eq ip_of_def register_stream_def es_new_def response_def return_packet_def)
qed

text \<open>Only the daemon with id 1 receives return traffic: the stream request ignores the id in its
  query and registers every stream under 1, so that after any sequence of requests and packets a
  packet for a connection of another daemon is dropped.\<close>

theorem other_handlers_get_nothing:
  assumes "s = foldl (exit_step X) es_new ops"
    and "xe_ipv4_dst X packet = Some dst" and "dget (es_route_map s) dst = Some route"
    and "re_handler_id route \<noteq> 1"
  shows "tun_packet X s packet = s"
proof -
  have "dom (dget (es_handler_streams s)) \<subseteq> {1}"
    unfolding assms(1) by (rule exit_run_streams) (simp add: es_new_def dom_def)
  with assms(4) have "dget (es_handler_streams s) (re_handler_id route) = None" by auto
  with assms(2,3) show ?thesis by (simp add: tun_packet_def)
qed

text \<open>Every packet gets an address of its own: consecutive packets leave with different source
  addresses even within one connection, up to 65536 of them, and the counter then wraps around;
  the packet number 65535 after a start gets 10.200.0.1, the address of the device itself.\<close>

theorem source_address_per_packet:
  assumes "length ps \<le> 65536"
  shows "distinct (forward_sources X s ps) \<and>
    (s = es_new \<and> length ps = 65536 \<longrightarrow> forward_sources X s ps ! 65535 = [10, 200, 0, 1])"
proof
  have "inj_on (\<lambda>i. ip_of (es_ip_pool s + word_of_nat i)) {0..<length ps}"
  proof (rule inj_onI)
    fix i j assume "i \<in> {0..<length ps}" "j \<in> {0..<length ps}"
      "ip_of (es_ip_pool s + word_of_nat i) = ip_of (es_ip_pool s + word_of_nat j)"
    then have eq: "(word_of_nat i :: u16) = word_of_nat j" and lt: "i < 65536" "j < 65536"
      using assms by (simp_all add: ip_of_inject)
    have "unat (word_of_nat k :: u16) = k" if "k < 65536" for k
      using that by (simp add: unat_of_nat)
    with eq lt show "i = j" by metis
  qed
  then show "distinct (forward_sources X s ps)"
    unfolding forward_sources_eq by (simp add: distinct_map)
  show "s = es_new \<and> length ps = 65536 \<longrightarrow> forward_sources X s ps ! 65535 = [10, 200, 0, 1]"
    by (simp add: forward_sources_eq es_new_def ip_of_def)
qed

end
