(* ===== verification/Exit_Node_Pool.thy ===== *)
theory Exit_Node_Pool
  imports Exit_Node
begin

text \<open>
  The registry of reverse-connected exit nodes, \<^verbatim>\<open>daemon/src/exit_node_pool.rs\<close>. Senders are indices of
  channels, as in \<open>Connection_Registry\<close>. The order in which the concurrent map is iterated is not
  specified by the library; the model uses the order of the association list and the lemmas depend
  on membership only.
\<close>

section \<open>State and operations\<close>

record ExitNodeConnection =
  nc_node_id :: u64
  nc_name :: string
  nc_group_id :: i32
  nc_sender :: nat

record ExitNodePool =
  np_connections :: "(u64, ExitNodeConnection) dmap"
  np_next_id :: u64

definition np_new :: ExitNodePool where
  "np_new = \<lparr>np_connections = dempty, np_next_id = 1\<rparr>"

definition np_register :: "ExitNodePool \<Rightarrow> string \<Rightarrow> i32 \<Rightarrow> nat \<Rightarrow> u64 \<times> ExitNodePool" where
  "np_register p name group_id sender =
     (let node_id = np_next_id p;
          conn = \<lparr>nc_node_id = node_id, nc_name = name, nc_group_id = group_id, nc_sender = sender\<rparr> in
      (node_id, p\<lparr>np_next_id := node_id + 1, np_connections := dinsert node_id conn (np_connections p)\<rparr>))"

definition np_unregister :: "ExitNodePool \<Rightarrow> u64 \<Rightarrow> ExitNodePool" where
  "np_unregister p node_id = p\<lparr>np_connections := dremove node_id (np_connections p)\<rparr>"

definition np_get :: "ExitNodePool \<Rightarrow> u64 \<Rightarrow> ExitNodeConnection option" where
  "np_get p node_id = dget (np_connections p) node_id"

definition get_group_nodes :: "ExitNodePool \<Rightarrow> i32 \<Rightarrow> u64 list" where
  "get_group_nodes p group_id = map fst (filter (\<lambda>(k, c). nc_group_id c = group_id) (np_connections p))"

definition select_by_group :: "ExitNodePool \<Rightarrow> i32 \<Rightarrow> u64 option" where
  "select_by_group p group_id =
     (let nodes = map fst (filter (\<lambda>(k, c). nc_group_id c = group_id) (np_connections p)) in
      if nodes = [] then None else Some (nodes ! 0))"

definition np_count :: "ExitNodePool \<Rightarrow> nat" where
  "np_count p = dlen (np_connections p)"

section \<open>Invariant\<close>

text \<open>Keys are the ids stored with them, and ids not yet given out are free, as long as fewer than
  \<open>2^64\<close> nodes have registered.\<close>

definition np_ok :: "ExitNodePool \<Rightarrow> bool" where
  "np_ok p \<longleftrightarrow> dwf (np_connections p) \<and>
     (\<forall>k c. dget (np_connections p) k = Some c \<longrightarrow> nc_node_id c = k \<and> k < np_next_id p)"

lemma np_ok_new: "np_ok np_new"
  by (simp add: np_ok_def np_new_def)

lemma np_ok_register:
  assumes "np_ok p" "np_next_id p + 1 \<noteq> 0"
  shows "np_ok (snd (np_register p name g tx)) \<and> np_get p (fst (np_register p name g tx)) = None"
proof -
  have lt: "np_next_id p < np_next_id p + 1"
    using assms(2) by (simp add: word_less_nat_alt unatSuc add.commute [of _ 1])
  have "k < np_next_id p + 1" if "dget (np_connections p) k = Some c" for k c
    using assms(1) that less_trans [OF _ lt] by (simp add: np_ok_def)
  moreover have "dget (np_connections p) (np_next_id p) \<noteq> Some c" for c
    using assms(1) by (auto simp: np_ok_def)
  ultimately show ?thesis
    using assms(1) lt by (auto simp: np_ok_def np_register_def np_get_def Let_def)
qed

lemma set_get_group_nodes:
  "dwf (np_connections p) \<Longrightarrow> set (get_group_nodes p g) = {k. \<exists>c. np_get p k = Some c \<and> nc_group_id c = g}"
  by (force simp: get_group_nodes_def np_get_def dget_in_set [symmetric])

lemma distinct_group_nodes: "dwf (np_connections p) \<Longrightarrow> distinct (get_group_nodes p g)"
  by (simp add: get_group_nodes_def dwf_def distinct_map_filter)

lemma select_by_group_head:
  "select_by_group p g = (if get_group_nodes p g = [] then None else Some (get_group_nodes p g ! 0))"
  by (simp add: select_by_group_def get_group_nodes_def Let_def)

section \<open>The book of registrations\<close>

datatype np_op = NpRegister string i32 nat | NpUnregister u64

fun np_run :: "ExitNodePool \<Rightarrow> np_op list \<Rightarrow> ExitNodePool" where
  "np_run p [] = p"
| "np_run p (NpRegister name g tx # ops) = np_run (snd (np_register p name g tx)) ops"
| "np_run p (NpUnregister k # ops) = np_run (np_unregister p k) ops"

fun np_ids :: "ExitNodePool \<Rightarrow> np_op list \<Rightarrow> u64 list" where
  "np_ids p [] = []"
| "np_ids p (NpRegister name g tx # ops) =
     fst (np_register p name g tx) # np_ids (snd (np_register p name g tx)) ops"
| "np_ids p (NpUnregister k # ops) = np_ids (np_unregister p k) ops"

text \<open>The specification is a book with one line for every registration there has ever been, in order:
  the node, or \<open>None\<close> once it has left. Lines are never reused.\<close>

definition book_enter :: "ExitNodeConnection option list \<Rightarrow> string \<Rightarrow> i32 \<Rightarrow> nat \<Rightarrow> ExitNodeConnection option list" where
  "book_enter book name g tx =
     book @ [Some \<lparr>nc_node_id = word_of_nat (length book + 1), nc_name = name, nc_group_id = g, nc_sender = tx\<rparr>]"

definition book_strike :: "ExitNodeConnection option list \<Rightarrow> nat \<Rightarrow> ExitNodeConnection option list" where
  "book_strike book k = (if k = 0 then book else book[k - 1 := None])"

fun np_book :: "ExitNodeConnection option list \<Rightarrow> np_op list \<Rightarrow> ExitNodeConnection option list" where
  "np_book book [] = book"
| "np_book book (NpRegister name g tx # ops) = np_book (book_enter book name g tx) ops"
| "np_book book (NpUnregister k # ops) = np_book (book_strike book (unat k)) ops"

definition book_line :: "ExitNodeConnection option list \<Rightarrow> u64 \<Rightarrow> ExitNodeConnection option" where
  "book_line book k = (if 1 \<le> unat k \<and> unat k \<le> length book then book ! (unat k - 1) else None)"

definition keeps_book :: "ExitNodePool \<Rightarrow> ExitNodeConnection option list \<Rightarrow> bool" where
  "keeps_book p book \<longleftrightarrow> dwf (np_connections p) \<and> length book + 1 < 2 ^ 64 \<and>
     np_next_id p = word_of_nat (length book + 1) \<and> (\<forall>k. np_get p k = book_line book k)"

lemma length_book_strike [simp]: "length (book_strike book k) = length book"
  by (simp add: book_strike_def)

lemma unat_u64: "n < 2 ^ 64 \<Longrightarrow> unat (word_of_nat n :: u64) = n"
  by (simp add: unat_of_nat)

lemma book_line_enter:
  assumes "length book + 1 < 2 ^ 64"
  shows "book_line (book_enter book name g tx) k =
    (if k = word_of_nat (length book + 1)
     then Some \<lparr>nc_node_id = k, nc_name = name, nc_group_id = g, nc_sender = tx\<rparr> else book_line book k)"
proof (cases "k = word_of_nat (length book + 1)")
  case True
  then have "unat k = length book + 1" using unat_u64 [OF assms] by simp
  with True show ?thesis by (simp add: book_line_def book_enter_def)
next
  case False
  then have ne: "unat k \<noteq> length book + 1" using unat_u64 [OF assms] by (metis word_unat_eq_iff)
  have "(book_enter book name g tx) ! (unat k - 1) = book ! (unat k - 1)" if "1 \<le> unat k" "unat k \<le> length book"
    using that by (auto simp: book_enter_def nth_append)
  moreover have "length (book_enter book name g tx) = length book + 1" by (simp add: book_enter_def)
  ultimately show ?thesis using False ne by (auto simp: book_line_def le_Suc_eq)
qed

lemma book_line_strike: "book_line (book_strike book (unat k)) j = (if j = k then None else book_line book j)"
proof (cases "j = k")
  case False
  then have "unat j \<noteq> unat k" by (simp add: word_unat_eq_iff)
  then have "unat k - 1 \<noteq> unat j - 1" if "1 \<le> unat j" "unat k \<noteq> 0" using that by linarith
  with False show ?thesis by (auto simp: book_line_def book_strike_def)
qed (auto simp: book_line_def book_strike_def)

lemma keeps_book_new: "keeps_book np_new []"
  by (auto simp: keeps_book_def np_new_def np_get_def book_line_def)

lemma keeps_book_register:
  assumes "keeps_book p book" "length book + 2 < 2 ^ 64"
  shows "keeps_book (snd (np_register p name g tx)) (book_enter book name g tx)"
    and "fst (np_register p name g tx) = word_of_nat (length book + 1)"
  using assms book_line_enter [of book name g tx]
  by (auto simp: keeps_book_def np_register_def np_get_def Let_def book_enter_def [THEN arg_cong [where f = length]])

lemma keeps_book_unregister: "keeps_book p book \<Longrightarrow> keeps_book (np_unregister p k) (book_strike book (unat k))"
  by (simp add: keeps_book_def np_unregister_def np_get_def book_line_strike)

lemma np_run_book:
  "keeps_book p book \<Longrightarrow> length book + length ops + 1 < 2 ^ 64 \<Longrightarrow>
     keeps_book (np_run p ops) (np_book book ops) \<and>
     np_ids p ops = map word_of_nat [length book + 1..<length (np_book book ops) + 1] \<and>
     length (np_book book ops) \<le> length book + length ops"
proof (induction ops arbitrary: p book)
  case (Cons op ops)
  show ?case
  proof (cases op)
    case (NpRegister name g tx)
    have len: "length (book_enter book name g tx) = length book + 1" by (simp add: book_enter_def)
    have grows: "length b \<le> length (np_book b ops)" for b
      by (induction b ops rule: np_book.induct) (simp_all add: book_enter_def)
    have kb: "keeps_book (snd (np_register p name g tx)) (book_enter book name g tx)"
      "fst (np_register p name g tx) = word_of_nat (length book + 1)"
      using keeps_book_register [OF Cons.prems(1)] Cons.prems(2) by simp_all
    with Cons.IH [OF kb(1)] Cons.prems(2) len grows [of "book_enter book name g tx"] NpRegister
    show ?thesis by (simp add: upt_conv_Cons del: upt_Suc)
  next
    case (NpUnregister k)
    with Cons.IH [OF keeps_book_unregister [OF Cons.prems(1)], of k] Cons.prems(2) show ?thesis by simp
  qed
qed simp

section \<open>Properties\<close>

text \<open>C26. The pool of reverse-connected exit nodes keeps an exact book, whatever nodes come and go (fewer than
  \<open>2^64 - 1\<close> registrations and departures in all): the registrations get the ids 1, 2, 3 and so on, each
  once and for ever, also after all nodes have left; a lookup finds under an id exactly the node
  that was registered with it, as long as it has not left; the nodes listed for a group are the
  registered ones of that group, each once; and selection yields one of them whenever there is one.\<close>

theorem node_pool_keeps_book:
  assumes "length ops < 2 ^ 64 - 1" "p = np_run np_new ops" "book = np_book [] ops"
  shows "np_ids np_new ops = map word_of_nat [1..<length book + 1] \<and> distinct (np_ids np_new ops) \<and>
    (\<forall>k. np_get p k = book_line book k) \<and>
    distinct (get_group_nodes p g) \<and>
    set (get_group_nodes p g) = {k. \<exists>c. book_line book k = Some c \<and> nc_group_id c = g} \<and>
    (case select_by_group p g of None \<Rightarrow> get_group_nodes p g = [] | Some k \<Rightarrow> k \<in> set (get_group_nodes p g))"
proof -
  have run: "keeps_book p book" "np_ids np_new ops = map word_of_nat [1..<length book + 1]"
    "length book < 2 ^ 64 - 1"
    using np_run_book [OF keeps_book_new, of ops] assms by simp_all
  have "inj_on (word_of_nat :: nat \<Rightarrow> u64) {..<2 ^ 64}"
    by (rule inj_on_inverseI [where g = unat]) (simp add: unat_u64)
  then have "inj_on (word_of_nat :: nat \<Rightarrow> u64) (set [1..<length book + 1])"
    by (rule inj_on_subset) (use run(3) in auto)
  then have "distinct (np_ids np_new ops)" by (simp add: run(2) distinct_map)
  moreover have "dwf (np_connections p)" "\<forall>k. np_get p k = book_line book k" using run(1) by (simp_all add: keeps_book_def)
  moreover have "case select_by_group p g of None \<Rightarrow> get_group_nodes p g = [] | Some k \<Rightarrow> k \<in> set (get_group_nodes p g)"
    by (simp add: select_by_group_head nth_mem)
  ultimately show ?thesis
    using run(2) distinct_group_nodes [of p g] set_get_group_nodes [of p g] by simp
qed

theorem node_pool_keeps_book_witness:
  "np_ids np_new [NpRegister ''tokyo'' 1 5, NpUnregister 1, NpRegister ''oslo'' 2 6] = [1, 2] \<and>
   np_get (np_run np_new [NpRegister ''tokyo'' 1 5, NpUnregister 1, NpRegister ''oslo'' 2 6]) 2 =
     Some \<lparr>nc_node_id = 2, nc_name = ''oslo'', nc_group_id = 2, nc_sender = 6\<rparr>"
  using node_pool_keeps_book [OF _ refl refl, of "[NpRegister ''tokyo'' 1 5, NpUnregister 1, NpRegister ''oslo'' 2 6]"]
  by (simp add: book_enter_def book_strike_def book_line_def upt_rec del: np_ids.simps np_run.simps)

end
