(* ===== verification/Billing.thy ===== *)
theory Billing
  imports Apfsds_Prelude "HOL-Library.Multiset"
begin

text \<open>
  Usage accounting, \<^verbatim>\<open>daemon/src/billing.rs\<close>, and the database client, \<^verbatim>\<open>storage/src/postgres.rs\<close>: the
  insertion into the table \<^verbatim>\<open>billing_logs\<close>, the migration and the look-up of a user. PostgreSQL is the parameter \<open>pg_ext\<close> on a world \<open>'w\<close>; what
  is assumed of it is that a row is inserted or refused as a whole, and that the refusal depends on
  the user, as the foreign key of the table makes it.
\<close>

section \<open>State and operations\<close>

type_synonym i64 = "64 word"

datatype PgError = DbError string

record 'w pg_ext =
  pg_insert :: "i64 \<Rightarrow> i64 \<Rightarrow> 'w \<Rightarrow> (unit, string) result \<times> 'w"

text \<open>\<^verbatim>\<open>PgClient::record_usage\<close>; \<^verbatim>\<open>bytes as i64\<close> keeps the bits.\<close>

definition pg_record_usage :: "'w pg_ext \<Rightarrow> i64 \<Rightarrow> u64 \<Rightarrow> 'w \<Rightarrow> (unit, PgError) result \<times> 'w" where
  "pg_record_usage X user_id bytes w =
     (case pg_insert X user_id bytes w of
        (Err e, w') \<Rightarrow> (Err (DbError e), w')
      | (Ok _, w') \<Rightarrow> (Ok (), w'))"

record BillingAggregator =
  ba_usage :: "(i64, u64) dmap"
  ba_flush_interval :: nat

definition ba_new :: BillingAggregator where
  "ba_new = \<lparr>ba_usage = dempty, ba_flush_interval = 60000\<rparr>"

definition pending :: "BillingAggregator \<Rightarrow> i64 \<Rightarrow> u64" where
  "pending b user_id = (case dget (ba_usage b) user_id of None \<Rightarrow> 0 | Some n \<Rightarrow> n)"

definition ba_record_usage :: "BillingAggregator \<Rightarrow> i64 \<Rightarrow> u64 \<Rightarrow> BillingAggregator" where
  "ba_record_usage b user_id bytes =
     b\<lparr>ba_usage := dinsert user_id
         ((case dget (ba_usage b) user_id of None \<Rightarrow> 0 | Some n \<Rightarrow> n) + bytes) (ba_usage b)\<rparr>"

fun flush_users :: "'w pg_ext \<Rightarrow> (i64 \<times> u64) list \<Rightarrow> 'w \<Rightarrow> 'w" where
  "flush_users X [] w = w"
| "flush_users X ((user_id, bytes) # rest) w =
     (case pg_record_usage X user_id bytes w of
        (Err _, w') \<Rightarrow> flush_users X rest w'
      | (Ok _, w') \<Rightarrow> flush_users X rest w')"

definition ba_flush :: "'w pg_ext \<Rightarrow> BillingAggregator \<Rightarrow> 'w \<Rightarrow> BillingAggregator \<times> 'w" where
  "ba_flush X b w =
     (if ba_usage b = [] then (b, w)
      else (b\<lparr>ba_usage := dempty\<rparr>, flush_users X (ba_usage b) w))"

datatype billing_op = Record i64 u64 | Flush

fun billing_run :: "'w pg_ext \<Rightarrow> billing_op list \<Rightarrow> BillingAggregator \<Rightarrow> 'w \<Rightarrow> BillingAggregator \<times> 'w" where
  "billing_run X [] b w = (b, w)"
| "billing_run X (Record u n # ops) b w = billing_run X ops (ba_record_usage b u n) w"
| "billing_run X (Flush # ops) b w =
     (case ba_flush X b w of (b', w') \<Rightarrow> billing_run X ops b' w')"

section \<open>Accounting\<close>

definition pg_ok :: "'w pg_ext \<Rightarrow> ('w \<Rightarrow> (i64 \<times> i64) list) \<Rightarrow> (i64 \<Rightarrow> bool) \<Rightarrow> bool" where
  "pg_ok X rows refused \<longleftrightarrow> (\<forall>u n w res w'. pg_insert X u n w = (res, w') \<longrightarrow>
     (if refused u then \<not> is_ok res \<and> rows w' = rows w else is_ok res \<and> rows w' = rows w @ [(u, n)]))"

definition billed :: "i64 \<Rightarrow> (i64 \<times> i64) list \<Rightarrow> u64" where
  "billed u rows = sum_list (map snd (filter (\<lambda>r. fst r = u) rows))"

fun recorded_usage :: "i64 \<Rightarrow> billing_op list \<Rightarrow> u64" where
  "recorded_usage u [] = 0"
| "recorded_usage u (Record v n # ops) = (if v = u then n else 0) + recorded_usage u ops"
| "recorded_usage u (Flush # ops) = recorded_usage u ops"

lemma billed_append: "billed u (xs @ ys) = billed u xs + billed u ys"
  by (simp add: billed_def)

lemma billed_usage: "dwf m \<Longrightarrow> billed u m = (case dget m u of None \<Rightarrow> 0 | Some n \<Rightarrow> n)"
proof (induction m)
  case (Cons x m)
  have "filter (\<lambda>r. fst r = fst x) m = []"
    using Cons.prems by (simp add: dwf_def filter_empty_conv) (metis image_eqI)
  with Cons show ?case
    by (auto simp: billed_def dwf_def dget_def split: option.splits)
qed (simp add: billed_def dget_def)

lemma flush_users_rows:
  assumes "pg_ok X rows refused"
  shows "rows (flush_users X us w) = rows w @ filter (\<lambda>r. \<not> refused (fst r)) us"
proof (induction us arbitrary: w)
  case (Cons x us)
  obtain u n where x: "x = (u, n)" by (cases x)
  obtain res w' where i: "pg_insert X u n w = (res, w')" by force
  then have "if refused u then \<not> is_ok res \<and> rows w' = rows w else is_ok res \<and> rows w' = rows w @ [(u, n)]"
    using assms unfolding pg_ok_def by blast
  with i x Cons.IH [of w'] show ?case
    by (auto simp: pg_record_usage_def split: result.splits if_splits)
qed simp

lemma ba_record_wf: "dwf (ba_usage b) \<Longrightarrow> dwf (ba_usage (ba_record_usage b u n))"
  by (simp add: ba_record_usage_def)

lemma pending_record: "pending (ba_record_usage b u n) v = pending b v + (if u = v then n else 0)"
  by (auto simp: pending_def ba_record_usage_def split: option.splits)

lemma ba_flush_account:
  assumes "pg_ok X rows refused" "dwf (ba_usage b)" "ba_flush X b w = (b', w')"
  shows "pending b' u = 0 \<and> dwf (ba_usage b') \<and>
    billed u (rows w') = billed u (rows w) + (if refused u then 0 else pending b u)"
proof (cases "ba_usage b = []")
  case True
  with assms show ?thesis by (auto simp: ba_flush_def pending_def dget_def)
next
  case False
  have "billed u (filter (\<lambda>r. \<not> refused (fst r)) us) = (if refused u then 0 else billed u us)" for us
    by (induction us) (auto simp: billed_def)
  with False assms show ?thesis
    by (auto simp: ba_flush_def pending_def flush_users_rows [OF assms(1)] billed_append billed_usage)
qed

lemma billing_run_account:
  assumes "pg_ok X rows refused"
  shows "dwf (ba_usage b) \<Longrightarrow> billing_run X ops b w = (b', w') \<Longrightarrow> \<not> refused u \<Longrightarrow>
    billed u (rows w') + pending b' u = billed u (rows w) + pending b u + recorded_usage u ops"
proof (induction ops arbitrary: b w)
  case (Cons op ops)
  show ?case
  proof (cases op)
    case (Record v n)
    have "billed u (rows w') + pending b' u = billed u (rows w) + pending (ba_record_usage b v n) u + recorded_usage u ops"
      using Cons.prems Record by (intro Cons.IH) (simp_all add: ba_record_wf)
    with Record show ?thesis by (simp add: pending_record)
  next
    case Flush
    obtain b1 w1 where f: "ba_flush X b w = (b1, w1)" by force
    have "billed u (rows w') + pending b' u = billed u (rows w1) + pending b1 u + recorded_usage u ops"
      using Cons.prems Flush f ba_flush_account [OF assms _ f] by (intro Cons.IH) simp_all
    with Cons.prems Flush ba_flush_account [OF assms _ f, of u] show ?thesis by simp
  qed
qed simp

section \<open>The database\<close>

text \<open>The other statements of \<^verbatim>\<open>PgClient\<close>, on the tables they name. A table that has not been created is
  \<^verbatim>\<open>None\<close>; the columns group and balance of a user may be null. A serial column takes the next value of its
  sequence.\<close>

record ExitGroup =
  gr_id :: "32 word"
  gr_name :: string
  gr_description :: "string option"

record user_row =
  ur_id :: i64
  ur_username :: string
  ur_token_hash :: string
  ur_group_id :: "32 word option"
  ur_balance :: "i64 option"

record User =
  us_id :: i64
  us_username :: string
  us_token_hash :: string
  us_group_id :: "32 word"
  us_balance :: i64

record pg_db =
  pd_groups :: "ExitGroup list option"
  pd_next_group :: "32 word"
  pd_users :: "user_row list option"
  pd_logs :: "(i64 \<times> i64) list option"

definition create_if_missing :: "'a list option \<Rightarrow> 'a list option" where
  "create_if_missing t = (case t of None \<Rightarrow> Some [] | Some rows \<Rightarrow> Some rows)"

definition pg_migrate :: "pg_db \<Rightarrow> pg_db" where
  "pg_migrate db =
     (let db1 = db\<lparr>pd_groups := create_if_missing (pd_groups db), pd_users := create_if_missing (pd_users db),
            pd_logs := create_if_missing (pd_logs db)\<rparr> in
      case pd_groups db1 of
        Some [] \<Rightarrow> db1\<lparr>pd_groups := Some [\<lparr>gr_id = pd_next_group db1, gr_name = ''default'', gr_description = Some ''Default Group''\<rparr>],
                     pd_next_group := pd_next_group db1 + 1\<rparr>
      | _ \<Rightarrow> db1)"

definition user_of_row :: "user_row \<Rightarrow> (User, PgError) result" where
  "user_of_row r =
     (case (ur_group_id r, ur_balance r) of
        (Some g, Some b) \<Rightarrow> Ok \<lparr>us_id = ur_id r, us_username = ur_username r, us_token_hash = ur_token_hash r,
            us_group_id = g, us_balance = b\<rparr>
      | _ \<Rightarrow> Err (DbError ''unexpected null''))"

definition get_user_by_token :: "pg_db \<Rightarrow> string \<Rightarrow> (User option, PgError) result" where
  "get_user_by_token db token =
     (case pd_users db of
        None \<Rightarrow> Err (DbError ''relation does not exist'')
      | Some users \<Rightarrow>
          (case find (\<lambda>r. ur_token_hash r = token) users of
             None \<Rightarrow> Ok None
           | Some r \<Rightarrow> (case user_of_row r of Err e \<Rightarrow> Err e | Ok u \<Rightarrow> Ok (Some u))))"

lemma pg_migrate_tables:
  "pd_users (pg_migrate db) = create_if_missing (pd_users db)" "pd_logs (pg_migrate db) = create_if_missing (pd_logs db)"
  by (simp_all add: pg_migrate_def Let_def split: option.split list.split)

lemma pg_migrate_groups: "\<exists>g gs. pd_groups (pg_migrate db) = Some (g # gs)"
proof (cases "pd_groups db")
  case (Some gs)
  then show ?thesis by (cases gs) (simp_all add: pg_migrate_def create_if_missing_def Let_def)
qed (simp add: pg_migrate_def create_if_missing_def Let_def)

lemma pg_migrate_again:
  "pd_groups db = Some (g # gs) \<Longrightarrow> pd_users db = Some us \<Longrightarrow> pd_logs db = Some ls \<Longrightarrow> pg_migrate db = db"
  by (simp add: pg_migrate_def create_if_missing_def Let_def)

lemma pg_migrate_idempotent: "pg_migrate (pg_migrate db) = pg_migrate db"
proof -
  obtain g gs where "pd_groups (pg_migrate db) = Some (g # gs)" using pg_migrate_groups by blast
  moreover obtain us ls where "pd_users (pg_migrate db) = Some us" "pd_logs (pg_migrate db) = Some ls"
    by (cases "pd_users db"; cases "pd_logs db") (simp_all add: pg_migrate_tables create_if_missing_def)
  ultimately show ?thesis by (rule pg_migrate_again)
qed

text \<open>After a migration the look-up of a user fails only for a row with a null, and finds the first
  user whose stored hash is the token itself.\<close>

lemma get_user_after_migrate:
  assumes "get_user_by_token (pg_migrate db) token = r"
  shows "(\<exists>e. r = Err e) \<longleftrightarrow> (\<exists>us row. pd_users db = Some us \<and> find (\<lambda>r. ur_token_hash r = token) us = Some row \<and>
    (ur_group_id row = None \<or> ur_balance row = None))"
proof -
  have r: "r = (case find (\<lambda>r. ur_token_hash r = token) (the (create_if_missing (pd_users db))) of
      None \<Rightarrow> Ok None | Some row \<Rightarrow> (case user_of_row row of Err e \<Rightarrow> Err e | Ok u \<Rightarrow> Ok (Some u)))"
    unfolding assms [symmetric] get_user_by_token_def pg_migrate_tables
    by (simp add: create_if_missing_def split: option.split)
  show ?thesis
  proof (cases "pd_users db")
    case (Some us)
    show ?thesis
      using r Some
      by (cases "find (\<lambda>r. ur_token_hash r = token) us") (auto simp: create_if_missing_def user_of_row_def split: option.splits)
  qed (use r in \<open>simp add: create_if_missing_def\<close>)
qed

section \<open>Recording while a flush is under way\<close>

text \<open>\<^verbatim>\<open>flush\<close> holds the lock only to take the map; sessions record while its rows are inserted one after the
  other, in the order of the hash map, and every insertion may fail. The history has what was
  recorded and what was lost with a failed insertion.\<close>

record 'w billing_state =
  bs_aggregator :: BillingAggregator
  bs_flushing :: "(i64 \<times> u64) list"
  bs_world :: 'w
  bs_recorded :: "(i64 \<times> u64) list"
  bs_lost :: "(i64 \<times> u64) list"

inductive billing_step :: "'w pg_ext \<Rightarrow> 'w billing_state \<Rightarrow> 'w billing_state \<Rightarrow> bool" for X where
  records: "billing_step X s (s\<lparr>bs_aggregator := ba_record_usage (bs_aggregator s) user_id bytes,
     bs_recorded := bs_recorded s @ [(user_id, bytes)]\<rparr>)"
| takes: "bs_flushing s = [] \<Longrightarrow> mset us = mset (ba_usage (bs_aggregator s)) \<Longrightarrow>
     billing_step X s (s\<lparr>bs_aggregator := (bs_aggregator s)\<lparr>ba_usage := dempty\<rparr>, bs_flushing := us\<rparr>)"
| inserts: "bs_flushing s = (user_id, bytes) # rest \<Longrightarrow> pg_record_usage X user_id bytes (bs_world s) = (res, w) \<Longrightarrow>
     billing_step X s (s\<lparr>bs_flushing := rest, bs_world := w,
       bs_lost := bs_lost s @ (if is_ok res then [] else [(user_id, bytes)])\<rparr>)"

text \<open>A database that inserts a row or refuses it, for whatever reason.\<close>

definition pg_atomic :: "'w pg_ext \<Rightarrow> ('w \<Rightarrow> (i64 \<times> i64) list) \<Rightarrow> bool" where
  "pg_atomic X rows \<longleftrightarrow> (\<forall>u n w res w'. pg_insert X u n w = (res, w') \<longrightarrow>
     rows w' = rows w @ (if is_ok res then [(u, n)] else []))"

definition billing_init :: "('w \<Rightarrow> (i64 \<times> i64) list) \<Rightarrow> 'w billing_state \<Rightarrow> bool" where
  "billing_init rows s \<longleftrightarrow> bs_aggregator s = ba_new \<and> bs_flushing s = [] \<and> rows (bs_world s) = [] \<and>
     bs_recorded s = [] \<and> bs_lost s = []"

definition billing_inv :: "('w \<Rightarrow> (i64 \<times> i64) list) \<Rightarrow> 'w billing_state \<Rightarrow> bool" where
  "billing_inv rows s \<longleftrightarrow> dwf (ba_usage (bs_aggregator s)) \<and>
     (\<forall>u. billed u (rows (bs_world s)) + billed u (bs_flushing s) + pending (bs_aggregator s) u + billed u (bs_lost s) =
        billed u (bs_recorded s))"

lemma billed_Nil [simp]: "billed u [] = 0"
  by (simp add: billed_def)

lemma billed_mset: "mset xs = mset ys \<Longrightarrow> billed u xs = billed u ys"
proof -
  have "billed u zs = sum_mset (image_mset snd (filter_mset (\<lambda>r. fst r = u) (mset zs)))" for zs
    by (simp add: billed_def flip: mset_filter mset_map sum_mset_sum_list)
  then show "mset xs = mset ys \<Longrightarrow> billed u xs = billed u ys" by simp
qed

lemma billed_Cons: "billed u (x # xs) = (if fst x = u then snd x else 0) + billed u xs"
  by (simp add: billed_def)

lemma billing_init_inv: "billing_init rows s \<Longrightarrow> billing_inv rows s"
  by (simp add: billing_init_def billing_inv_def ba_new_def pending_def)

lemma billing_step_inv: "billing_step X s t \<Longrightarrow> pg_atomic X rows \<Longrightarrow> billing_inv rows s \<Longrightarrow> billing_inv rows t"
proof (induction rule: billing_step.induct)
  case (records s user_id bytes)
  have "billed u (rows (bs_world s)) + billed u (bs_flushing s) + pending (bs_aggregator s) u + billed u (bs_lost s) =
      billed u (bs_recorded s)" for u
    using records.prems(2) by (simp add: billing_inv_def)
  note this [symmetric]
  with records.prems(2) show ?case
    by (simp add: billing_inv_def ba_record_wf pending_record billed_append billed_Cons)
next
  case (takes s us)
  have "billed u us = pending (bs_aggregator s) u" for u
    using billed_mset [OF takes.hyps(2)] billed_usage [of "ba_usage (bs_aggregator s)" u] takes.prems(2)
    by (simp add: billing_inv_def pending_def)
  with takes show ?case by (simp add: billing_inv_def pending_def)
next
  case (inserts s user_id bytes rest res w)
  obtain r where r: "pg_insert X user_id bytes (bs_world s) = (r, w)" and ok: "is_ok r = is_ok res"
    using inserts.hyps(2) by (auto simp: pg_record_usage_def split: prod.splits result.splits)
  have "rows w = rows (bs_world s) @ (if is_ok res then [(user_id, bytes)] else [])"
    using inserts.prems(1) r unfolding pg_atomic_def ok [symmetric] by blast
  with inserts show ?case
    by (auto simp: billing_inv_def billed_append billed_Cons ac_simps)
qed

interpretation billing: invariant_system "billing_init rows" "\<lambda>s t. pg_atomic X rows \<and> billing_step X s t" "billing_inv rows" for rows X
  by unfold_locales (auto simp: billing_init_inv intro: billing_step_inv)

text \<open>Without recordings in between, a flush is taking the map and inserting its rows.\<close>

lemma flush_users_steps:
  "bs_flushing s = us \<Longrightarrow> \<exists>lost. (billing_step X)\<^sup>*\<^sup>* s
     (s\<lparr>bs_flushing := [], bs_world := flush_users X us (bs_world s), bs_lost := bs_lost s @ lost\<rparr>)"
proof (induction us arbitrary: s)
  case Nil
  then have "s\<lparr>bs_flushing := [], bs_world := flush_users X [] (bs_world s), bs_lost := bs_lost s @ []\<rparr> = s" by simp
  then show ?case by (metis rtranclp.rtrancl_refl)
next
  case (Cons x us)
  obtain u n where x: "x = (u, n)" by (cases x)
  obtain res w where p: "pg_record_usage X u n (bs_world s) = (res, w)" by force
  let ?t = "s\<lparr>bs_flushing := us, bs_world := w, bs_lost := bs_lost s @ (if is_ok res then [] else [(u, n)])\<rparr>"
  have step: "billing_step X s ?t" using Cons.prems x p by (intro billing_step.inserts) auto
  have "flush_users X ((u, n) # us) (bs_world s) = flush_users X us w" using p by (auto split: result.splits)
  with Cons.IH [of ?t] x converse_rtranclp_into_rtranclp [of "billing_step X", OF step] show ?case by fastforce
qed

lemma ba_flush_steps:
  assumes "bs_flushing s = []"
  shows "\<exists>t. (billing_step X)\<^sup>*\<^sup>* s t \<and> bs_flushing t = [] \<and> bs_recorded t = bs_recorded s \<and>
    ba_flush X (bs_aggregator s) (bs_world s) = (bs_aggregator t, bs_world t)"
proof (cases "ba_usage (bs_aggregator s) = []")
  case True
  with assms show ?thesis by (auto simp: ba_flush_def)
next
  case False
  let ?b = "(bs_aggregator s)\<lparr>ba_usage := dempty\<rparr>"
  let ?t = "s\<lparr>bs_aggregator := ?b, bs_flushing := ba_usage (bs_aggregator s)\<rparr>"
  have step: "billing_step X s ?t" using assms by (intro billing_step.takes) simp_all
  obtain lost where "(billing_step X)\<^sup>*\<^sup>* ?t (?t\<lparr>bs_flushing := [],
      bs_world := flush_users X (ba_usage (bs_aggregator s)) (bs_world s), bs_lost := bs_lost s @ lost\<rparr>)"
    using flush_users_steps [of ?t "ba_usage (bs_aggregator s)" X] by auto
  from converse_rtranclp_into_rtranclp [of "billing_step X", OF step this] False show ?thesis
    by (intro exI conjI) (assumption, simp_all add: ba_flush_def)
qed

section \<open>Properties\<close>

text \<open>Usage is conserved: after any interleaving of recordings and flushes, what the table has for a user
  plus what the aggregator still holds is what was recorded for that user, in 64-bit arithmetic;
  provided the database takes that user's rows. A user whose rows it refuses is never billed, and
  each flush forgets what was recorded for them.\<close>

lemma usage_conserved:
  assumes "pg_ok X rows refused" and "billing_run X ops ba_new w = (b, w')" and "rows w = []"
  shows "(\<not> refused u \<longrightarrow> billed u (rows w') + pending b u = recorded_usage u ops) \<and>
    (refused v \<longrightarrow> billed v (rows (snd (ba_flush X b w'))) = billed v (rows w') \<and>
       pending (fst (ba_flush X b w')) v = 0)"
proof -
  have wf: "dwf (ba_usage b0) \<Longrightarrow> billing_run X os b0 w0 = (b, w') \<Longrightarrow> dwf (ba_usage b)" for os b0 w0
  proof (induction X os b0 w0 rule: billing_run.induct)
    case (3 X ops b0 w0)
    then show ?case by (auto simp: ba_flush_def split: if_splits)
  qed (auto simp: ba_record_wf)
  have "dwf (ba_usage b)" using wf [OF _ assms(2)] by (simp add: ba_new_def)
  from ba_flush_account [OF assms(1) this, of w' "fst (ba_flush X b w')" "snd (ba_flush X b w')" v]
    billing_run_account [OF assms(1) _ assms(2), of u] assms(3) show ?thesis
    by (simp add: ba_new_def pending_def billed_def)
qed

text \<open>A database that knows user 7 only; the world is the table.\<close>

definition demo_pg :: "(i64 \<times> i64) list pg_ext" where
  "demo_pg = \<lparr>pg_insert = \<lambda>u n w. if u = 7 then (Ok (), w @ [(u, n)]) else (Err ''foreign key'', w)\<rparr>"

text \<open>C20. No usage is lost without a trace: sessions may record at any moment of a flush, which inserts the rows
  it took one after the other, in any order, and any insertion may fail. At every moment what the
  table has for a user, what the flush has yet to insert, what the aggregator holds and what was lost
  with failed insertions is what was recorded for that user, in 64-bit arithmetic. And a flush that is not
  interrupted is a run of these steps.\<close>

theorem usage_accounted:
  assumes "pg_atomic X rows" and "reach (billing_init rows) (billing_step X) s"
  shows "billed u (rows (bs_world s)) + billed u (bs_flushing s) + pending (bs_aggregator s) u + billed u (bs_lost s) =
      billed u (bs_recorded s) \<and>
    (bs_flushing s = [] \<longrightarrow> (\<exists>t. reach (billing_init rows) (billing_step X) t \<and> bs_flushing t = [] \<and>
       bs_recorded t = bs_recorded s \<and> ba_flush X (bs_aggregator s) (bs_world s) = (bs_aggregator t, bs_world t)))"
  using billing.reach_inv [of rows X s] assms ba_flush_steps [of s X] reach_steps [OF assms(2)]
  by (auto simp: billing_inv_def)

text \<open>User 7 sends while the row of an unknown user 0 is refused.\<close>

definition demo_billing :: "(i64 \<times> i64) list billing_state" where
  "demo_billing = \<lparr>bs_aggregator = (ba_record_usage ba_new 7 50), bs_flushing = [(7, 100)], bs_world = [],
     bs_recorded = [(7, 100), (0, 5), (7, 50)], bs_lost = [(0, 5)]\<rparr>"

lemma demo_billing_reach: "reach (billing_init (\<lambda>w. w)) (billing_step demo_pg) demo_billing"
proof -
  let ?s0 = "\<lparr>bs_aggregator = ba_new, bs_flushing = [], bs_world = [], bs_recorded = [], bs_lost = []\<rparr>"
  let ?s2 = "\<lparr>bs_aggregator = ba_record_usage (ba_record_usage ba_new 7 100) 0 5, bs_flushing = [], bs_world = [],
    bs_recorded = [(7, 100), (0, 5)], bs_lost = []\<rparr>"
  let ?s3 = "?s2\<lparr>bs_aggregator := ba_new, bs_flushing := [(0, 5), (7, 100)]\<rparr>"
  let ?s4 = "?s3\<lparr>bs_flushing := [(7, 100)], bs_lost := [(0, 5)]\<rparr>"
  let ?step = "billing_step demo_pg"
  have "reach (billing_init (\<lambda>w. w)) ?step ?s0" by (rule reach.at_start) (simp add: billing_init_def)
  moreover have "?step ?s0 (?s2\<lparr>bs_aggregator := ba_record_usage ba_new 7 100, bs_recorded := [(7, 100)]\<rparr>)"
    using billing_step.records [of demo_pg ?s0 7 100] by simp
  moreover have "?step (?s2\<lparr>bs_aggregator := ba_record_usage ba_new 7 100, bs_recorded := [(7, 100)]\<rparr>) ?s2"
    using billing_step.records [of demo_pg "?s2\<lparr>bs_aggregator := ba_record_usage ba_new 7 100, bs_recorded := [(7, 100)]\<rparr>" 0 5]
    by simp
  moreover have "?step ?s2 ?s3"
    using billing_step.takes [of ?s2 "[(0, 5), (7, 100)]" demo_pg]
    by (simp add: ba_record_usage_def ba_new_def dinsert_def dget_def dempty_def)
  moreover have "?step ?s3 ?s4"
    using billing_step.inserts [of ?s3 0 5 "[(7, 100)]" demo_pg "Err (DbError ''foreign key'')" "[]"]
    by (simp add: demo_pg_def pg_record_usage_def)
  moreover have "?step ?s4 demo_billing"
    using billing_step.records [of demo_pg ?s4 7 50] by (simp add: demo_billing_def)
  ultimately show ?thesis by (rule reach.after_step [OF reach.after_step [OF reach.after_step
    [OF reach.after_step [OF reach.after_step]]]])
qed

lemma demo_pg_ok: "pg_ok demo_pg (\<lambda>w. w) (\<lambda>u. u \<noteq> 7)"
  by (auto simp: pg_ok_def demo_pg_def)

theorem usage_accounted_witness:
  "billed 7 [(7, 100)] + pending (bs_aggregator demo_billing) 7 = 150 \<and>
   (\<exists>t. reach (billing_init (\<lambda>w. w)) (billing_step demo_pg) t \<and> bs_world t = [])"
proof -
  have a: "pg_atomic demo_pg (\<lambda>w. w)" by (auto simp: pg_atomic_def demo_pg_def)
  have i: "reach (billing_init (\<lambda>w. w)) (billing_step demo_pg)
      \<lparr>bs_aggregator = ba_new, bs_flushing = [], bs_world = [], bs_recorded = [], bs_lost = []\<rparr>"
    by (rule reach.at_start) (simp add: billing_init_def)
  from usage_accounted [OF a demo_billing_reach, of 7]
  have "billed 7 [(7, 100)] + pending (bs_aggregator demo_billing) 7 = 150"
    by (simp add: demo_billing_def billed_Cons)
  with usage_accounted [OF a i, of 7] show ?thesis by (auto simp: ba_flush_def ba_new_def dempty_def)
qed

end
