(* ===== verification/Handler.thy ===== *)
theory Handler
  imports Authenticator Frame_Codec Exit_Pool Exit_Node_Pool Billing Daemon_Config
begin

text \<open>
  The HTTP and WebSocket server of the daemon, \<^verbatim>\<open>daemon/src/handler.rs\<close>, with the counters of
  \<^verbatim>\<open>daemon/src/metrics.rs\<close>: routing, token retrieval, the session of a client and that of a
  reverse-connected exit node. A request is its method, path, query, headers (lower-case names,
  values as far as they are text) and body. The tasks a request spawns are returned as \<open>spawned\<close> and
  modelled by operations of their own. hex, rkyv, AES-GCM, X25519 and the HTTP client are the
  parameter \<open>handler_ext\<close>; clocks, nonces and connection ids are arguments.
\<close>

section \<open>Requests, responses, metrics\<close>

record request =
  rq_method :: http_method
  rq_path :: string
  rq_query :: "string option"
  rq_headers :: "(string \<times> string option) list"
  rq_body :: "bytes option"

record http_resp =
  ht_status :: nat
  ht_headers :: "(string \<times> string) list"
  ht_body :: bytes

record Metrics =
  mt_frames_sent :: nat
  mt_frames_received :: nat
  mt_auth_successes :: nat
  mt_auth_failures :: nat
  mt_active_connections :: int
  mt_pool_connections :: int
  mt_request_duration :: "nat list"
  mt_frame_size :: "nat list"

definition metrics_new :: Metrics where
  "metrics_new = \<lparr>mt_frames_sent = 0, mt_frames_received = 0, mt_auth_successes = 0, mt_auth_failures = 0,
     mt_active_connections = 0, mt_pool_connections = 0, mt_request_duration = [], mt_frame_size = []\<rparr>"

record ('k, 's) handler_ext =
  he_auth :: "('k, 's) auth_ext"
  he_hex :: "string \<Rightarrow> bytes option"
  he_x25519 :: x25519_ext
  he_aead :: aead_ext
  he_auth_request :: "bytes \<Rightarrow> (AuthRequest, string) result"
  he_token_bytes :: "TokenPayload \<Rightarrow> (bytes, string) result"
  he_response_bytes :: "AuthResponse \<Rightarrow> (bytes, string) result"
  he_client_ok :: bool
  he_send :: "string \<Rightarrow> http_method \<Rightarrow> (string \<times> string) list \<Rightarrow> bytes \<Rightarrow>
     (nat \<times> (string \<times> string) list \<times> (bytes, string) result, string) result"

definition text_resp :: "nat \<Rightarrow> string \<Rightarrow> http_resp" where
  "text_resp status body = \<lparr>ht_status = status, ht_headers = [], ht_body = ascii body\<rparr>"

definition header_str :: "request \<Rightarrow> string \<Rightarrow> string option" where
  "header_str req name = (case map_of (rq_headers req) name of None \<Rightarrow> None | Some v \<Rightarrow> v)"

definition to_ascii_lower :: "char \<Rightarrow> char" where
  "to_ascii_lower c = (let n = of_char c :: nat in if 65 \<le> n \<and> n \<le> 90 then char_of (n + 32) else c)"

definition eq_ignore_ascii_case :: "string \<Rightarrow> string \<Rightarrow> bool" where
  "eq_ignore_ascii_case a b \<longleftrightarrow> map to_ascii_lower a = map to_ascii_lower b"

definition is_upgrade :: "request \<Rightarrow> bool" where
  "is_upgrade req \<longleftrightarrow>
     (case header_str req ''upgrade'' of None \<Rightarrow> False | Some s \<Rightarrow> eq_ignore_ascii_case s ''websocket'')"

section \<open>Token retrieval\<close>

text \<open>A 32-byte secret of the configuration, or the default built in.\<close>

definition secret32 :: "(string \<Rightarrow> bytes option) \<Rightarrow> string option \<Rightarrow> bytes \<Rightarrow> bytes" where
  "secret32 hex opt fallback =
     (case Option.bind opt hex of
        None \<Rightarrow> fallback | Some v \<Rightarrow> if length v = 32 then v else fallback)"

definition token_user_id :: "bytes \<Rightarrow> u64" where
  "token_user_id hmac_base =
     (if utf8_valid hmac_base
      then (case parse_u64 (hd (split_on 58 hmac_base)) of None \<Rightarrow> 0 | Some n \<Rightarrow> n) else 0)"

definition retrieve_token ::
  "('k, 's) handler_ext \<Rightarrow> SecurityConfig \<Rightarrow> bytes option \<Rightarrow> u64 \<Rightarrow> bytes \<Rightarrow> (bytes, string) result" where
  "retrieve_token X security req_body now nonce =
     (case req_body of
        None \<Rightarrow> Err ''Failed to read body''
      | Some body \<Rightarrow>
          if length body < 32 then Err ''Body too short''
          else
            let client_pk = take 32 body; encrypted = drop 32 body;
                server_sk = secret32 (he_hex X) (sc_server_sk security) (replicate 32 42);
                server_x25519 = x_from_secret (he_x25519 X) server_sk;
                shared_secret = diffie_hellman (he_x25519 X) server_x25519 client_pk;
                aes = aes_new shared_secret in
            case aes_decrypt (he_aead X) aes encrypted of
              Err _ \<Rightarrow> Err ''Decryption failed''
            | Ok decrypted \<Rightarrow>
                (case he_auth_request X decrypted of
                   Err _ \<Rightarrow> Err ''Invalid auth request''
                 | Ok auth_req \<Rightarrow>
                     let hmac = hmac_new (secret32 (he_hex X) (sc_hmac_secret security) (replicate 32 43)) in
                     (case verify_with_timestamp (ax_mac (he_auth X)) hmac (ar_hmac_base auth_req)
                             (ar_timestamp auth_req) (ar_hmac_signature auth_req) of
                        Err _ \<Rightarrow> Err ''HMAC verification failed''
                      | Ok _ \<Rightarrow>
                          let token_payload =
                                \<lparr>tp_user_id = token_user_id (ar_hmac_base auth_req), tp_nonce = ar_nonce auth_req,
                                 tp_issued_at = now, tp_valid_until = now + sc_token_ttl security * 1000\<rparr> in
                          (case he_token_bytes X token_payload of
                             Err _ \<Rightarrow> Err ''Token serialization failed''
                           | Ok token_bytes \<Rightarrow>
                               (case he_response_bytes X
                                       \<lparr>as_token = token_bytes, as_valid_until = tp_valid_until token_payload,
                                        as_warning = None\<rparr> of
                                  Err _ \<Rightarrow> Err ''Response serialization failed''
                                | Ok response_bytes \<Rightarrow>
                                    (case aes_encrypt (he_aead X) aes response_bytes nonce of
                                       Err _ \<Rightarrow> Err ''Response encryption failed''
                                     | Ok encrypted_response \<Rightarrow> Ok encrypted_response))))))"

definition octet_resp :: "nat \<Rightarrow> bytes \<Rightarrow> http_resp" where
  "octet_resp status body =
     \<lparr>ht_status = status, ht_headers = [(''Content-Type'', ''application/octet-stream'')], ht_body = body\<rparr>"

definition handle_retrieve_token ::
  "('k, 's) handler_ext \<Rightarrow> SecurityConfig \<Rightarrow> request \<Rightarrow> u64 \<Rightarrow> bytes \<Rightarrow> Metrics \<Rightarrow> http_resp \<times> Metrics" where
  "handle_retrieve_token X security req now nonce mt =
     (case retrieve_token X security (rq_body req) now nonce of
        Ok data \<Rightarrow> (octet_resp 200 data, mt\<lparr>mt_auth_successes := mt_auth_successes mt + 1\<rparr>)
      | Err _ \<Rightarrow> (octet_resp 401 (ascii ''Unauthorized''), mt\<lparr>mt_auth_failures := mt_auth_failures mt + 1\<rparr>))"

section \<open>Connections of clients\<close>

definition upgrade_resp :: "string \<Rightarrow> http_resp" where
  "upgrade_resp accept =
     \<lparr>ht_status = 101, ht_headers = [(''Upgrade'', ''websocket''), (''Connection'', ''Upgrade''),
        (''Sec-WebSocket-Accept'', accept)], ht_body = []\<rparr>"

text \<open>The response, or the error of the handler, and the user a session is started for.\<close>

definition handle_connect ::
  "('k, 's) handler_ext \<Rightarrow> SecurityConfig \<Rightarrow> request \<Rightarrow> u64 \<Rightarrow> nat \<Rightarrow>
     (http_resp, string) result \<times> u64 option" where
  "handle_connect X security req now inst =
     (if \<not> is_upgrade req then (Ok (text_resp 400 ''Expected WebSocket upgrade''), None)
      else case header_str req ''authorization'' of
          None \<Rightarrow> (Ok (text_resp 401 ''Unauthorized: Missing or invalid Authorization header''), None)
        | Some header \<Rightarrow>
            if take 7 header \<noteq> ''Bearer ''
            then (Ok (text_resp 401 ''Unauthorized: Missing or invalid Authorization header''), None)
            else
              (case Option.bind (sc_server_sk security) (he_hex X) of
                 None \<Rightarrow> (Err ''Missing server secret key'', None)
               | Some server_sk \<Rightarrow>
                   let token = drop 7 header;
                       hmac_secret = secret32 (he_hex X) (sc_hmac_secret security) (replicate 32 43) in
                   (case auth_new (he_auth X) server_sk hmac_secret (sc_token_ttl security) of
                      Err _ \<Rightarrow> (Err ''Failed to create authenticator'', None)
                    | Ok authenticator \<Rightarrow>
                        (case fst (verify_and_consume_token (he_auth X) authenticator (ascii token) now inst) of
                           Err _ \<Rightarrow> (Ok (text_resp 401 ''Unauthorized: Invalid token''), None)
                         | Ok user_id \<Rightarrow> (Ok (upgrade_resp ''auth-mock''), Some user_id)))))"

text \<open>The state of a client's session: what it shares with the rest of the daemon, and the queries
  given to the socket for the DNS server, each with whether it was sent.\<close>

record 'w conn_state =
  cs_metrics :: Metrics
  cs_forwarder :: ExitForwarder
  cs_billing :: BillingAggregator
  cs_registry :: ConnectionRegistry
  cs_dns :: "(bytes \<times> bool) list"
  cs_world :: 'w

record 'w session_ext =
  sx_frames :: frame_ext
  sx_http :: "'w http_ext"
  sx_packets :: pkt_ext
  sx_control :: "bytes \<Rightarrow> (ControlMessage, string) result"
  sx_dns_sent :: "(bytes \<times> bool) list \<Rightarrow> bytes \<Rightarrow> bool"
  sx_target :: target

text \<open>One frame received: a DNS query goes to the socket, and whether that succeeds is ignored; data to an exit node of group 0 and, when
  that succeeds, to the account of the user. The result says whether the loop goes on.\<close>

definition process_frame :: "'w session_ext \<Rightarrow> u64 \<Rightarrow> ProxyFrame \<Rightarrow> 'w conn_state \<Rightarrow> bool \<times> 'w conn_state" where
  "process_frame X user_id frame st =
     (if is_control (pf_flags frame)
      then (case sx_control X (pf_payload frame) of
              Ok (DohQuery query) \<Rightarrow> (True, st\<lparr>cs_dns := cs_dns st @ [(query, sx_dns_sent X (cs_dns st) query)]\<rparr>)
            | _ \<Rightarrow> (True, st))
      else (case ef_forward (sx_http X) (sx_packets X) (cs_forwarder st) frame 0 (cs_world st) of
              (Err _, f, w) \<Rightarrow> (False, st\<lparr>cs_forwarder := f, cs_world := w\<rparr>)
            | (Ok _, f, w) \<Rightarrow>
                (True, st\<lparr>cs_forwarder := f, cs_world := w,
                   cs_billing := ba_record_usage (cs_billing st) user_id (word_of_nat (length (pf_payload frame)))\<rparr>)))"

definition count_received :: "bytes \<Rightarrow> 'w conn_state \<Rightarrow> 'w conn_state" where
  "count_received data st =
     st\<lparr>cs_metrics := (cs_metrics st)\<lparr>mt_frames_received := mt_frames_received (cs_metrics st) + 1,
          mt_frame_size := mt_frame_size (cs_metrics st) @ [length data]\<rparr>\<rparr>"

fun rx_loop ::
  "'w session_ext \<Rightarrow> u64 \<Rightarrow> u64 \<Rightarrow> (u64 \<times> ws_event) list \<Rightarrow> 'w conn_state \<Rightarrow> 'w conn_state" where
  "rx_loop X session_key user_id [] st = st"
| "rx_loop X session_key user_id ((now, msg) # rx) st =
     (case msg of
        WsErr _ \<Rightarrow> st
      | WsClose \<Rightarrow> st
      | WsOther \<Rightarrow> rx_loop X session_key user_id rx st
      | WsBinary data \<Rightarrow>
          let st1 = count_received data st in
          (case Option.bind (xm_apply (sx_target X) (xm_new session_key) now data) unpad of
             None \<Rightarrow> rx_loop X session_key user_id rx st1
           | Some unpadded \<Rightarrow>
               (case fx_from_bytes (sx_frames X) unpadded of
                  Err _ \<Rightarrow> rx_loop X session_key user_id rx st1
                | Ok frame \<Rightarrow>
                    (case process_frame X user_id frame st1 of
                       (True, st2) \<Rightarrow> rx_loop X session_key user_id rx st2
                     | (False, st2) \<Rightarrow> st2))))"

text \<open>The sending task: the frames taken from the registry channel, each with the clock and whether
  the socket takes the message; the messages sent.\<close>

fun tx_loop ::
  "'w session_ext \<Rightarrow> rng \<Rightarrow> u64 \<Rightarrow> (u64 \<times> bool \<times> ProxyFrame) list \<Rightarrow> Metrics \<Rightarrow> bytes list \<times> Metrics" where
  "tx_loop X G session_key [] mt = ([], mt)"
| "tx_loop X G session_key ((now, sock_ok, frame) # rest) mt =
     (case send_frame (sx_frames X) (sx_target X) G session_key now frame of
        Some (Ok masked) \<Rightarrow>
          if sock_ok
          then (case tx_loop X G session_key rest (mt\<lparr>mt_frames_sent := mt_frames_sent mt + 1,
                        mt_frame_size := mt_frame_size mt @ [length masked]\<rparr>) of
                  (ms, mt') \<Rightarrow> (masked # ms, mt'))
          else ([], mt)
      | Some (Err _) \<Rightarrow> tx_loop X G session_key rest mt
      | None \<Rightarrow> ([], mt))"

text \<open>An answer of the DNS server, given to the client through the channel of its registration.\<close>

definition dns_response ::
  "(ControlMessage \<Rightarrow> (bytes, string) result) \<Rightarrow> (bytes \<Rightarrow> u32) \<Rightarrow> u64 \<Rightarrow> nat \<Rightarrow> bytes \<Rightarrow> u64 \<Rightarrow> bytes \<Rightarrow>
     ConnectionRegistry \<Rightarrow> ConnectionRegistry" where
  "dns_response control_bytes crc conn_id tx uuid now answer r =
     (case control_bytes (DohResponse answer) of
        Err _ \<Rightarrow> r
      | Ok payload \<Rightarrow>
          let frame = (new_control crc payload uuid now)\<lparr>pf_conn_id := conn_id\<rparr> in
          r\<lparr>rg_channels := snd (chan_send (rg_channels r) tx frame)\<rparr>)"

text \<open>The session: \<open>hello_ok\<close> says whether the connection id could be sent, \<open>dns_ok\<close> whether the DNS
  socket could be bound, \<open>joins\<close> whether the sending task and the DNS listener end.\<close>

definition client_session ::
  "'w session_ext \<Rightarrow> u64 \<Rightarrow> u64 \<Rightarrow> nat \<Rightarrow> bool \<Rightarrow> bool \<Rightarrow> bool \<Rightarrow> (u64 \<times> ws_event) list \<Rightarrow>
     'w conn_state \<Rightarrow> bytes option \<times> 'w conn_state" where
  "client_session X user_id conn_id tx hello_ok dns_ok joins rx st =
     (let active = (\<lambda>d s. s\<lparr>cs_metrics := (cs_metrics s)\<lparr>mt_active_connections := mt_active_connections (cs_metrics s) + d\<rparr>\<rparr>);
          st1 = active 1 st in
      if \<not> hello_ok then (None, st1)
      else
        let st2 = st1\<lparr>cs_registry := rg_register (cs_registry st1) conn_id tx\<rparr> in
        if \<not> dns_ok then (Some (u64_to_le conn_id), st2)
        else
          let st3 = rx_loop X conn_id user_id rx st2;
              st4 = st3\<lparr>cs_registry := rg_unregister (cs_registry st3) conn_id\<rparr> in
          (Some (u64_to_le conn_id), if joins then active (-1) st4 else st4))"

section \<open>Decoy\<close>

definition welcome_page :: bytes where
  "welcome_page = ascii (''<!DOCTYPE html>'' @ [CHR 10] @ ''<html>'' @ [CHR 10] @
     ''<head><title>Welcome</title></head>'' @ [CHR 10] @ ''<body>'' @ [CHR 10] @
     ''<h1>Welcome to our website</h1>'' @ [CHR 10] @
     ''<p>This is a normal website. Nothing to see here.</p>'' @ [CHR 10] @ ''</body>'' @ [CHR 10] @ ''</html>'')"

definition proxy_headers :: "(string \<times> string option) list \<Rightarrow> (string \<times> string) list" where
  "proxy_headers hs = concat (map (\<lambda>(name, value). if name \<noteq> ''host'' then
     (case value of None \<Rightarrow> [] | Some v \<Rightarrow> [(name, v)]) else []) hs)"

definition handle_reverse_proxy :: "('k, 's) handler_ext \<Rightarrow> request \<Rightarrow> string \<Rightarrow> http_resp" where
  "handle_reverse_proxy X req target_host =
     (let target_url = ''https://'' @ target_host @ rq_path req in
      if \<not> he_client_ok X then text_resp 502 ''Bad Gateway''
      else case rq_body req of
          None \<Rightarrow> text_resp 400 ''Bad Request''
        | Some body_bytes \<Rightarrow>
            (case he_send X target_url (rq_method req) (proxy_headers (rq_headers req)) body_bytes of
               Err _ \<Rightarrow> text_resp 502 ''Bad Gateway''
             | Ok (status, headers, body) \<Rightarrow>
                 (case body of
                    Err _ \<Rightarrow> text_resp 502 ''Bad Gateway''
                  | Ok b \<Rightarrow> \<lparr>ht_status = status, ht_headers = headers, ht_body = b\<rparr>)))"

definition handle_decoy :: "('k, 's) handler_ext \<Rightarrow> SecurityConfig \<Rightarrow> request \<Rightarrow> http_resp" where
  "handle_decoy X security req =
     (if sc_enable_reverse_proxy security then handle_reverse_proxy X req (sc_fallback_target security)
      else \<lparr>ht_status = 200, ht_headers = [(''Content-Type'', ''text/html'')], ht_body = welcome_page\<rparr>)"

definition json_resp :: "string \<Rightarrow> http_resp" where
  "json_resp body =
     \<lparr>ht_status = 200, ht_headers = [(''Content-Type'', ''application/json'')], ht_body = ascii body\<rparr>"

definition handle_health :: http_resp where
  "handle_health = json_resp (''{'' @ [CHR 34] @ ''status'' @ [CHR 34] @ '':'' @ [CHR 34] @ ''healthy'' @ [CHR 34] @ ''}'')"

definition handle_ready :: http_resp where
  "handle_ready = json_resp (''{'' @ [CHR 34] @ ''status'' @ [CHR 34] @ '':'' @ [CHR 34] @ ''ready'' @ [CHR 34] @ ''}'')"

section \<open>Registration of exit nodes\<close>

fun split_str :: "char \<Rightarrow> string \<Rightarrow> string list" where
  "split_str c [] = [[]]"
| "split_str c (x # xs) =
     (if x = c then [] # split_str c xs
      else case split_str c xs of [] \<Rightarrow> [[x]] | p # ps \<Rightarrow> (x # p) # ps)"

text \<open>The parameters of a query; a later one replaces an earlier one of the same name.\<close>

definition query_params :: "string \<Rightarrow> (string, string) dmap" where
  "query_params query =
     foldl (\<lambda>m pair. case split_str (CHR ''='') pair of a # b # _ \<Rightarrow> dinsert a b m | _ \<Rightarrow> m)
       dempty (split_str (CHR ''&'') query)"

definition node_name :: "request \<Rightarrow> string" where
  "node_name req =
     (case dget (query_params (case rq_query req of None \<Rightarrow> [] | Some q \<Rightarrow> q)) ''name'' of
        None \<Rightarrow> ''unknown'' | Some n \<Rightarrow> n)"

definition handle_exit_node_register :: "request \<Rightarrow> http_resp \<times> string option" where
  "handle_exit_node_register req =
     (if \<not> is_upgrade req then (text_resp 400 ''Expected WebSocket upgrade'', None)
      else (upgrade_resp ''exit-node-register'', Some (node_name req)))"

definition offered_groups :: "ExitNodePool \<Rightarrow> GroupInfo list" where
  "offered_groups pool =
     [\<lparr>gi_group_id = 0, gi_name = ''Default'', gi_node_count = word_of_nat (length (get_group_nodes pool 0)), gi_load = 50\<rparr>,
      \<lparr>gi_group_id = 1, gi_name = ''Premium'', gi_node_count = word_of_nat (length (get_group_nodes pool 1)), gi_load = 30\<rparr>,
      \<lparr>gi_group_id = 2, gi_name = ''Asia'', gi_node_count = word_of_nat (length (get_group_nodes pool 2)), gi_load = 60\<rparr>]"

fun wait_for_select :: "exit_ext \<Rightarrow> ws_msg list \<Rightarrow> i32 option \<times> ws_msg list" where
  "wait_for_select X [] = (None, [])"
| "wait_for_select X (msg # rx) =
     (case msg of
        MsgBinary data \<Rightarrow>
          (case xe_control X data of
             Some (GroupSelect group_id) \<Rightarrow> (Some group_id, rx)
           | _ \<Rightarrow> wait_for_select X rx)
      | MsgClose \<Rightarrow> (None, rx)
      | MsgErr _ \<Rightarrow> (None, rx)
      | _ \<Rightarrow> wait_for_select X rx)"

text \<open>Messages of a registered node: a ping is answered through the channel of its registration.\<close>

fun exit_rx_loop :: "ExitNodePool \<Rightarrow> u64 \<Rightarrow> ws_msg list \<Rightarrow> (nat \<Rightarrow> ws_msg channel) \<Rightarrow> (nat \<Rightarrow> ws_msg channel)" where
  "exit_rx_loop pool node_id [] chans = chans"
| "exit_rx_loop pool node_id (msg # rx) chans =
     (case msg of
        MsgPing data \<Rightarrow>
          (case np_get pool node_id of
             None \<Rightarrow> exit_rx_loop pool node_id rx chans
           | Some conn \<Rightarrow>
               exit_rx_loop pool node_id rx (snd (chan_send chans (nc_sender conn) (MsgPong data))))
      | MsgClose \<Rightarrow> chans
      | MsgErr _ \<Rightarrow> chans
      | _ \<Rightarrow> exit_rx_loop pool node_id rx chans)"

text \<open>The session of an exit node up to its registration: the group list sent, the node id, the pool
  and the messages that follow. \<open>send_ok\<close> says whether the list could be sent.\<close>

definition exit_node_join ::
  "exit_ext \<Rightarrow> ExitNodePool \<Rightarrow> string \<Rightarrow> nat \<Rightarrow> bool \<Rightarrow> ws_msg list \<Rightarrow>
     ws_msg list \<times> (u64 \<times> ExitNodePool \<times> ws_msg list) option" where
  "exit_node_join X pool name tx send_ok rx =
     (case xe_control_bytes X (GroupList (offered_groups pool)) of
        None \<Rightarrow> ([], None)
      | Some msg_bytes \<Rightarrow>
          if \<not> send_ok then ([], None)
          else (case wait_for_select X rx of
                  (None, _) \<Rightarrow> ([MsgBinary msg_bytes], None)
                | (Some group_id, rx') \<Rightarrow>
                    (case np_register pool name group_id tx of
                       (node_id, pool') \<Rightarrow> ([MsgBinary msg_bytes], Some (node_id, pool', rx')))))"

definition exit_node_session ::
  "exit_ext \<Rightarrow> ExitNodePool \<Rightarrow> string \<Rightarrow> nat \<Rightarrow> bool \<Rightarrow> ws_msg list \<Rightarrow> (nat \<Rightarrow> ws_msg channel) \<Rightarrow>
     ws_msg list \<times> ExitNodePool \<times> (nat \<Rightarrow> ws_msg channel)" where
  "exit_node_session X pool name tx send_ok rx chans =
     (case exit_node_join X pool name tx send_ok rx of
        (sent, None) \<Rightarrow> (sent, pool, chans)
      | (sent, Some (node_id, pool', rx')) \<Rightarrow>
          (sent, np_unregister pool' node_id, exit_rx_loop pool' node_id rx' chans))"

section \<open>Routing\<close>

datatype spawned = NoTask | ClientTask u64 | ExitNodeTask string

definition handle_request ::
  "('k, 's) handler_ext \<Rightarrow> DaemonConfig \<Rightarrow> request \<Rightarrow> u64 \<Rightarrow> nat \<Rightarrow> bytes \<Rightarrow> Metrics \<Rightarrow>
     http_resp \<times> spawned \<times> Metrics" where
  "handle_request X config req now inst nonce mt =
     (let path = rq_path req; security = dc_security config in
      if path = ''/retrieve-token''
      then (case handle_retrieve_token X security req now nonce mt of (resp, mt') \<Rightarrow> (resp, NoTask, mt'))
      else if path = ''/connect''
      then (case handle_connect X security req now inst of
              (Ok resp, None) \<Rightarrow> (resp, NoTask, mt)
            | (Ok resp, Some user_id) \<Rightarrow> (resp, ClientTask user_id, mt)
            | (Err _, _) \<Rightarrow> (text_resp 500 ''Internal Server Error'', NoTask, mt))
      else if path = ''/exit-node/register''
      then (case handle_exit_node_register req of
              (resp, None) \<Rightarrow> (resp, NoTask, mt)
            | (resp, Some name) \<Rightarrow> (resp, ExitNodeTask name, mt))
      else if path = ''/health'' then (handle_health, NoTask, mt)
      else if path = ''/ready'' then (handle_ready, NoTask, mt)
      else (handle_decoy X security req, NoTask, mt))"

text \<open>The address the client opens for an endpoint of its configuration.\<close>

definition starts_with :: "string \<Rightarrow> string \<Rightarrow> bool" where
  "starts_with s p \<longleftrightarrow> take (length p) s = p"

definition wss_url :: "string \<Rightarrow> string" where
  "wss_url endpoint =
     (if starts_with endpoint ''wss://'' \<or> starts_with endpoint ''ws://'' then endpoint @ ''/ws''
      else ''ws://'' @ endpoint @ ''/ws'')"

section \<open>Sessions of clients\<close>

fun process_frames :: "'w session_ext \<Rightarrow> u64 \<Rightarrow> ProxyFrame list \<Rightarrow> 'w conn_state \<Rightarrow> 'w conn_state" where
  "process_frames X user_id [] st = st"
| "process_frames X user_id (f # fs) st =
     (case process_frame X user_id f st of
        (True, st') \<Rightarrow> process_frames X user_id fs st' | (False, st') \<Rightarrow> st')"

definition with_metrics :: "Metrics \<Rightarrow> 'w conn_state \<Rightarrow> 'w conn_state" where
  "with_metrics mt st = st\<lparr>cs_metrics := mt\<rparr>"

lemma with_metrics_simps [simp]:
  "cs_billing (with_metrics mt st) = cs_billing st" "cs_forwarder (with_metrics mt st) = cs_forwarder st"
  "cs_registry (with_metrics mt st) = cs_registry st" "cs_dns (with_metrics mt st) = cs_dns st"
  "cs_world (with_metrics mt st) = cs_world st" "with_metrics mt (with_metrics mt' st) = with_metrics mt st"
  by (simp_all add: with_metrics_def)

lemma process_frame_metrics:
  "process_frame X u f (with_metrics mt st) = map_prod id (with_metrics mt) (process_frame X u f st)"
  by (simp add: process_frame_def with_metrics_def
      split: result.split prod.split ControlMessage.split)

lemma process_frames_metrics:
  "process_frames X u fs (with_metrics mt st) = with_metrics mt (process_frames X u fs st)"
  by (induction fs arbitrary: st)
    (auto simp: process_frame_metrics split: prod.splits bool.splits)

lemma count_received_metrics: "\<exists>mt. count_received data st = with_metrics mt st"
  by (auto simp: count_received_def with_metrics_def)

text \<open>The receiving loop does to everything but the counters what processing the decoded frames does.\<close>

lemma rx_loop_frames:
  "with_metrics mt (rx_loop X k u rx st) =
   with_metrics mt (process_frames X u (handler_recv (sx_frames X) (sx_target X) k rx) st)"
proof (induction rx arbitrary: st)
  case (Cons e rx)
  obtain now msg where e: "e = (now, msg)" by (cases e)
  show ?case
  proof (cases msg)
    case (WsBinary data)
    obtain mt' where c: "count_received data st = with_metrics mt' st" using count_received_metrics by blast
    show ?thesis
    proof (cases "Option.bind (xm_apply (sx_target X) (xm_new k) now data) unpad")
      case None
      then show ?thesis using e WsBinary Cons.IH c by (simp add: process_frames_metrics)
    next
      case (Some unpadded)
      show ?thesis
      proof (cases "fx_from_bytes (sx_frames X) unpadded")
        case (Err err)
        then show ?thesis using e WsBinary Cons.IH c Some by (simp add: process_frames_metrics)
      next
        case (Ok frame)
        obtain go st' where p: "process_frame X u frame st = (go, st')" by force
        then have "process_frame X u frame (with_metrics mt' st) = (go, with_metrics mt' st')"
          by (simp add: process_frame_metrics)
        then show ?thesis
          using e WsBinary Cons.IH c Some Ok p by (cases go) (simp_all add: process_frames_metrics)
      qed
    qed
  qed (use e Cons.IH in simp_all)
qed simp

text \<open>What the data frames of a list amount to.\<close>

definition data_frames :: "ProxyFrame list \<Rightarrow> ProxyFrame list" where
  "data_frames fs = filter (\<lambda>f. \<not> is_control (pf_flags f)) fs"

definition payload_bytes :: "ProxyFrame list \<Rightarrow> u64" where
  "payload_bytes fs = sum_list (map (\<lambda>f. word_of_nat (length (pf_payload f))) (data_frames fs))"

lemma process_frame_control:
  assumes "is_control (pf_flags f)"
  shows "\<exists>dns. process_frame X u f st = (True, st\<lparr>cs_dns := dns\<rparr>)"
proof (cases "sx_control X (pf_payload f)")
  case (Ok m)
  show ?thesis
  proof (cases "\<exists>q. m = DohQuery q")
    case True
    then show ?thesis using assms Ok by (auto simp: process_frame_def)
  next
    case False
    then have "process_frame X u f st = (True, st\<lparr>cs_dns := cs_dns st\<rparr>)"
      using assms Ok by (simp add: process_frame_def split: ControlMessage.split)
    then show ?thesis by blast
  qed
next
  case (Err e)
  then have "process_frame X u f st = (True, st\<lparr>cs_dns := cs_dns st\<rparr>)"
    using assms by (simp add: process_frame_def)
  then show ?thesis by blast
qed

text \<open>The requests for a sequence of packets: for each, in order, some that failed and one that was accepted.\<close>

definition tries_all :: "nat list \<Rightarrow> bytes list \<Rightarrow> (bytes \<times> bool) list" where
  "tries_all ns bs = concat (map2 tries ns bs)"

lemma tries_all_accepted: "length ns = length bs \<Longrightarrow> map fst (filter snd (tries_all ns bs)) = bs"
  by (induction rule: list_induct2) (simp_all add: tries_all_def tries_def)

lemma process_frames_delivers:
  assumes "http_logs (sx_http X) requests"
  shows "has_working_node (sx_http X) (cs_forwarder st) \<Longrightarrow>
    list_all2 (\<lambda>f b. px_to_bytes (sx_packets X) (from_frame f (ef_node_id (cs_forwarder st))) = Ok b) (data_frames fs) bs \<Longrightarrow>
    (\<exists>ns. requests (cs_world (process_frames X u fs st)) = requests (cs_world st) @ tries_all ns bs \<and>
       length ns = length bs \<and> (\<forall>n\<in>set ns. n < default_nodes (cs_forwarder st))) \<and>
    pending (cs_billing (process_frames X u fs st)) u = pending (cs_billing st) u + payload_bytes fs"
proof (induction fs arbitrary: st bs)
  case (Cons f fs)
  show ?case
  proof (cases "is_control (pf_flags f)")
    case True
    obtain dns where "process_frame X u f st = (True, st\<lparr>cs_dns := dns\<rparr>)"
      using process_frame_control [OF True] by blast
    with True Cons.IH [of "st\<lparr>cs_dns := dns\<rparr>" bs] Cons.prems show ?thesis
      by (simp add: data_frames_def payload_bytes_def)
  next
    case False
    then obtain b bs' where b: "bs = b # bs'" "px_to_bytes (sx_packets X) (from_frame f (ef_node_id (cs_forwarder st))) = Ok b"
      "list_all2 (\<lambda>f b. px_to_bytes (sx_packets X) (from_frame f (ef_node_id (cs_forwarder st))) = Ok b) (data_frames fs) bs'"
      using Cons.prems(2) by (auto simp: data_frames_def list_all2_Cons1)
    obtain f' w' n where f': "ef_forward (sx_http X) (sx_packets X) (cs_forwarder st) f 0 (cs_world st) = (Ok (), f', w')"
      "has_working_node (sx_http X) f'" "ef_node_id f' = ef_node_id (cs_forwarder st)"
      "default_nodes f' = default_nodes (cs_forwarder st)"
      "requests w' = requests (cs_world st) @ tries n b" "n < default_nodes (cs_forwarder st)"
      using ef_forward_once [OF Cons.prems(1) assms b(2) False] by blast
    let ?st = "st\<lparr>cs_forwarder := f', cs_world := w',
      cs_billing := ba_record_usage (cs_billing st) u (word_of_nat (length (pf_payload f)))\<rparr>"
    have run: "process_frames X u (f # fs) st = process_frames X u fs ?st"
      using False f'(1) by (simp add: process_frame_def)
    have bytes: "payload_bytes (f # fs) = word_of_nat (length (pf_payload f)) + payload_bytes fs"
      using False by (simp add: payload_bytes_def data_frames_def)
    have IH: "(\<exists>ns. requests (cs_world (process_frames X u fs ?st)) = requests w' @ tries_all ns bs' \<and>
        length ns = length bs' \<and> (\<forall>n\<in>set ns. n < default_nodes (cs_forwarder st))) \<and>
      pending (cs_billing (process_frames X u fs ?st)) u = pending (cs_billing ?st) u + payload_bytes fs"
      using Cons.IH [of ?st bs'] f'(2-4) b(3) by simp
    then obtain ns where "requests (cs_world (process_frames X u fs ?st)) = requests w' @ tries_all ns bs'"
      "length ns = length bs'" "\<forall>n\<in>set ns. n < default_nodes (cs_forwarder st)" by blast
    then have sent: "requests (cs_world (process_frames X u (f # fs) st)) = requests (cs_world st) @ tries_all (n # ns) bs \<and>
       length (n # ns) = length bs \<and> (\<forall>n\<in>set (n # ns). n < default_nodes (cs_forwarder st))"
      unfolding run using f'(5,6) b(1) by (simp add: tries_all_def)
    have "pending (cs_billing (process_frames X u (f # fs) st)) u = pending (cs_billing st) u + payload_bytes (f # fs)"
      unfolding run bytes using IH by (simp add: pending_record)
    with sent show ?thesis by blast
  qed
qed (simp add: data_frames_def payload_bytes_def tries_all_def)

section \<open>Negotiation of a group\<close>

lemma reverse_loop_sent: "\<exists>more. snd (reverse_loop X rx s sent) = sent @ more"
proof (induction X rx s sent rule: reverse_loop.induct)
  case (2 X msg rx s sent)
  show ?case
  proof (cases msg)
    case (MsgBinary data)
    then show ?thesis using 2 by (cases "px_from_bytes (xe_packets X) (xe_body_at X data) data") auto
  next
    case (MsgPing data)
    then show ?thesis using "2.IH"(3) [OF MsgPing] by auto
  qed (use 2 in auto)
qed auto

definition chosen_group :: "i32 option \<Rightarrow> i32" where
  "chosen_group preferred =
     (case preferred of None \<Rightarrow> 1 | Some g \<Rightarrow> if g \<in> {0, 1, 2} then g else 1)"

lemma select_offered: "select_group preferred (offered_groups pool) = Ok (chosen_group preferred)"
  by (auto simp: select_group_def offered_groups_def chosen_group_def split: option.split)

section \<open>Properties\<close>

text \<open>C38. No client session is ever started: whatever the configuration and the request, the daemon
  refuses the token or the request, since no token passes the verification.\<close>

theorem no_client_session:
  assumes "mldsa_ok (ax_dsa (he_auth X))"
  shows "fst (snd (handle_request X config req now inst nonce mt)) \<noteq> ClientTask u \<and>
    (rq_path req = ''/connect'' \<longrightarrow> ht_status (fst (handle_request X config req now inst nonce mt)) \<in> {400, 401, 500})"
proof -
  have "verify_and_consume_token (he_auth X) a token now inst = (Err InvalidSignature, a)" for a token
    by (rule every_token_rejected [OF assms])
  then have c: "snd (handle_connect X (dc_security config) req now inst) = None"
    "\<And>r. fst (handle_connect X (dc_security config) req now inst) = Ok r \<Longrightarrow> ht_status r \<in> {400, 401, 500}"
    by (auto simp: handle_connect_def text_resp_def Let_def split: option.splits result.splits if_splits)
  show ?thesis
    using c by (cases "fst (handle_connect X (dc_security config) req now inst)")
      (auto simp: handle_request_def text_resp_def Let_def split: prod.splits result.splits option.splits)
qed

text \<open>An instance of the parameters: hex, rkyv and AES-GCM are trivial, every secret is shared.\<close>

definition demo_handler :: "(bytes, unit) handler_ext" where
  "demo_handler = \<lparr>he_auth = demo_auth, he_hex = \<lambda>s. Some (replicate 32 1),
     he_x25519 = \<lparr>x_public = \<lambda>s. s, x_shared = \<lambda>a b. []\<rparr>,
     he_aead = \<lparr>gcm_encrypt = \<lambda>k n p. Some p, gcm_decrypt = \<lambda>k n c. Some c\<rparr>,
     he_auth_request = \<lambda>b. Ok demo_request, he_token_bytes = \<lambda>p. Ok (u64_to_le (tp_valid_until p)),
     he_response_bytes = \<lambda>r. Ok (as_token r), he_client_ok = True, he_send = \<lambda>u m h b. Err ''unreachable''\<rparr>"

definition demo_config :: DaemonConfig where
  "demo_config = daemon_config_default\<lparr>dc_security := security_config_default\<lparr>sc_server_sk := Some ''aa''\<rparr>\<rparr>"

theorem no_client_session_witness:
  "ht_status (fst (handle_request demo_handler demo_config
     \<lparr>rq_method = GET, rq_path = ''/connect'', rq_query = None,
      rq_headers = [(''upgrade'', Some ''WebSocket''), (''authorization'', Some ''Bearer abc'')], rq_body = Some []\<rparr>
     1000 5 [] metrics_new)) \<in> {400, 401, 500}"
  using no_client_session [of demo_handler demo_config
      "\<lparr>rq_method = GET, rq_path = ''/connect'', rq_query = None,
        rq_headers = [(''upgrade'', Some ''WebSocket''), (''authorization'', Some ''Bearer abc'')], rq_body = Some []\<rparr>"]
    demo_dsa_ok
  by (simp add: demo_handler_def demo_auth_def)

text \<open>C40. A recorded request for a token can be replayed for ever: a body that was answered with a token
  once is answered with a token for the same user and nonce at any later time, valid from that time
  on. Neither the timestamp nor the nonce of the request is checked.\<close>

theorem token_request_replayable:
  assumes "\<And>p. is_ok (he_token_bytes X p)" and "\<And>r. is_ok (he_response_bytes X r)"
    and "\<And>k n p. gcm_encrypt (he_aead X) k n p \<noteq> None"
    and "ht_status (fst (handle_retrieve_token X security req now nonce mt)) = 200"
  shows "\<exists>(auth_req :: AuthRequest) aes tok body ct.
    he_token_bytes X \<lparr>tp_user_id = token_user_id (ar_hmac_base auth_req), tp_nonce = ar_nonce auth_req,
      tp_issued_at = later, tp_valid_until = later + sc_token_ttl security * 1000\<rparr> = Ok tok \<and>
    he_response_bytes X \<lparr>as_token = tok, as_valid_until = later + sc_token_ttl security * 1000, as_warning = None\<rparr> = Ok body \<and>
    aes_encrypt (he_aead X) aes body nonce' = Ok ct \<and>
    retrieve_token X security (rq_body req) later nonce' = Ok ct \<and>
    ht_status (fst (handle_retrieve_token X security req later nonce' mt')) = 200"
proof -
  let ?aes = "\<lambda>body. aes_new (diffie_hellman (he_x25519 X) (x_from_secret (he_x25519 X)
      (secret32 (he_hex X) (sc_server_sk security) (replicate 32 42))) (take 32 body))"
  have "is_ok (retrieve_token X security (rq_body req) now nonce)"
    using assms(4) by (auto simp: handle_retrieve_token_def octet_resp_def split: result.splits)
  then obtain body decrypted auth_req where b: "rq_body req = Some body" "\<not> length body < 32"
    "aes_decrypt (he_aead X) (?aes body) (drop 32 body) = Ok decrypted"
    "he_auth_request X decrypted = Ok auth_req"
    "verify_with_timestamp (ax_mac (he_auth X)) (hmac_new (secret32 (he_hex X) (sc_hmac_secret security) (replicate 32 43)))
       (ar_hmac_base auth_req) (ar_timestamp auth_req) (ar_hmac_signature auth_req) = Ok ()"
    by (auto simp: retrieve_token_def Let_def split: option.splits result.splits if_splits)
  obtain tok where t: "he_token_bytes X \<lparr>tp_user_id = token_user_id (ar_hmac_base auth_req), tp_nonce = ar_nonce auth_req,
      tp_issued_at = later, tp_valid_until = later + sc_token_ttl security * 1000\<rparr> = Ok tok"
    using assms(1) by (metis is_ok.simps(2) result.exhaust)
  obtain out where o: "he_response_bytes X \<lparr>as_token = tok, as_valid_until = later + sc_token_ttl security * 1000, as_warning = None\<rparr> = Ok out"
    using assms(2) by (metis is_ok.simps(2) result.exhaust)
  obtain ct where e: "gcm_encrypt (he_aead X) (ac_key (?aes body)) nonce' out = Some ct"
    using assms(3) by blast
  then have e': "aes_encrypt (he_aead X) (?aes body) out nonce' = Ok (nonce' @ ct)" by (simp add: aes_encrypt_def)
  have r: "retrieve_token X security (rq_body req) later nonce' = Ok (nonce' @ ct)"
    using b t o e' by (simp add: retrieve_token_def Let_def)
  then have "ht_status (fst (handle_retrieve_token X security req later nonce' mt')) = 200"
    by (simp add: handle_retrieve_token_def octet_resp_def)
  with t o e' r show ?thesis by blast
qed

definition demo_token_request :: request where
  "demo_token_request = \<lparr>rq_method = POST, rq_path = ''/retrieve-token'', rq_query = None, rq_headers = [],
     rq_body = Some (replicate 50 0)\<rparr>"

lemma demo_token_granted:
  "ht_status (fst (handle_retrieve_token demo_handler security_config_default demo_token_request 1000000 (replicate 12 0) metrics_new)) = 200"
proof -
  have "verify_with_timestamp (ax_mac demo_auth) (hmac_new s) (ar_hmac_base demo_request) (ar_timestamp demo_request)
      (ar_hmac_signature demo_request) = Ok ()" for s
    using verify_with_timestamp_iff [of "ax_mac demo_auth" "ar_hmac_signature demo_request"] demo_auth_ok
    by (auto simp: auth_ext_ok_def demo_auth_def demo_request_def hmac_new_def)
  then show ?thesis
    by (simp add: handle_retrieve_token_def retrieve_token_def demo_token_request_def demo_handler_def
        aes_decrypt_def aes_encrypt_def octet_resp_def Let_def)
qed

theorem token_request_replayable_witness:
  "ht_status (fst (handle_retrieve_token demo_handler security_config_default demo_token_request
     9000000000 (replicate 12 5) metrics_new)) = 200"
proof -
  have ok: "\<And>p. is_ok (he_token_bytes demo_handler p)" "\<And>r. is_ok (he_response_bytes demo_handler r)"
    "\<And>k n p. gcm_encrypt (he_aead demo_handler) k n p \<noteq> None"
    by (simp_all add: demo_handler_def)
  show ?thesis
    using token_request_replayable [OF ok demo_token_granted, of 9000000000 "replicate 12 5" metrics_new] by blast
qed

text \<open>The address a client opens is not served: for every endpoint the client appends /ws, and the daemon
  answers any path that ends so, as well as the documented /v1/connect, like an unknown page; no
  session is started and no counter changes.\<close>

theorem client_path_is_decoy:
  assumes "rq_path req = p @ ''/ws'' \<or> rq_path req = ''/v1/connect''"
  shows "handle_request X config req now inst nonce mt = (handle_decoy X (dc_security config) req, NoTask, mt) \<and>
    (\<exists>u. wss_url endpoint = u @ ''/ws'')"
proof
  have ws: "p @ ''/ws'' \<noteq> q" if "drop (length q - 3) q \<noteq> ''/ws''" for q
  proof
    assume "p @ ''/ws'' = q"
    then have "length q = length p + 3" "q = p @ ''/ws''" by auto
    with that show False by simp
  qed
  have "p @ ''/ws'' \<noteq> ''/retrieve-token''" "p @ ''/ws'' \<noteq> ''/connect''" "p @ ''/ws'' \<noteq> ''/exit-node/register''"
    "p @ ''/ws'' \<noteq> ''/health''" "p @ ''/ws'' \<noteq> ''/ready''"
    by (rule ws, simp)+
  with assms show "handle_request X config req now inst nonce mt = (handle_decoy X (dc_security config) req, NoTask, mt)"
    by (auto simp: handle_request_def Let_def)
  show "\<exists>u. wss_url endpoint = u @ ''/ws''"
  proof (cases "starts_with endpoint ''wss://'' \<or> starts_with endpoint ''ws://''")
    case True
    then show ?thesis by (simp add: wss_url_def)
  next
    case False
    then have "wss_url endpoint = (''ws://'' @ endpoint) @ ''/ws''" by (simp add: wss_url_def)
    then show ?thesis by blast
  qed
qed


definition demo_negotiation :: exit_ext where
  "demo_negotiation = demo_exit\<lparr>xe_control_bytes := \<lambda>m. case m of GroupSelect g \<Rightarrow> Some (u32_to_le g)
       | GroupList gs \<Rightarrow> if gs = offered_groups np_new then Some [] else None | _ \<Rightarrow> None,
     xe_control := \<lambda>b. if b = [] then Some (GroupList (offered_groups np_new)) else Some (GroupSelect (u32_from_le b))\<rparr>"

lemma demo_negotiation_ok: "xe_control_bytes demo_negotiation m = Some b \<Longrightarrow> xe_control demo_negotiation b = Some m"
proof -
  have "u32_to_le g \<noteq> []" for g by (metis length_u32_to_le list.size(3) zero_neq_numeral)
  then show "xe_control_bytes demo_negotiation m = Some b \<Longrightarrow> xe_control demo_negotiation b = Some m"
    by (auto simp: demo_negotiation_def split: ControlMessage.splits if_splits)
qed


end
