(* ===== verification/Session_Tasks.thy ===== *)
theory Session_Tasks
  imports Handler
begin

text \<open>
  The tasks of the daemon's client sessions, \<^verbatim>\<open>daemon/src/handler.rs\<close>, run side by side. A session has three of them: the loop that receives
  from the client, the task that takes frames from the session's channel and sends them, and the
  listener for answers of the DNS server. All sessions share the registry, the forwarder, the accounts and the metrics, and
  the tasks that read the exit nodes' streams dispatch packets into the registry. \<open>session_step\<close> relates the
  states before and after one access of one task to what is shared.
\<close>

section \<open>One turn of each task\<close>

text \<open>The receiving loop: whether it goes on after a message.\<close>

definition rx_message ::
  "'w session_ext \<Rightarrow> u64 \<Rightarrow> u64 \<Rightarrow> u64 \<Rightarrow> ws_event \<Rightarrow> 'w conn_state \<Rightarrow> bool \<times> 'w conn_state" where
  "rx_message X session_key user_id now msg st =
     (case msg of
        WsErr _ \<Rightarrow> (False, st)
      | WsClose \<Rightarrow> (False, st)
      | WsOther \<Rightarrow> (True, st)
      | WsBinary data \<Rightarrow>
          let st1 = count_received data st in
          (case Option.bind (xm_apply (sx_target X) (xm_new session_key) now data) unpad of
             None \<Rightarrow> (True, st1)
           | Some unpadded \<Rightarrow>
               (case fx_from_bytes (sx_frames X) unpadded of
                  Err _ \<Rightarrow> (True, st1)
                | Ok frame \<Rightarrow> process_frame X user_id frame st1)))"

lemma rx_loop_message:
  "rx_loop X k u ((now, msg) # rx) st =
     (case rx_message X k u now msg st of (True, st') \<Rightarrow> rx_loop X k u rx st' | (False, st') \<Rightarrow> st')"
  by (auto simp: rx_message_def Let_def split: ws_event.splits option.splits result.splits prod.splits bool.splits)

text \<open>The sending task: the message for a frame, \<open>None\<close> for one that cannot be serialised; the metrics when a
  message was sent.\<close>

definition count_sent :: "bytes \<Rightarrow> 'w conn_state \<Rightarrow> 'w conn_state" where
  "count_sent masked st =
     st\<lparr>cs_metrics := (cs_metrics st)\<lparr>mt_frames_sent := mt_frames_sent (cs_metrics st) + 1,
          mt_frame_size := mt_frame_size (cs_metrics st) @ [length masked]\<rparr>\<rparr>"

definition tx_message :: "'w session_ext \<Rightarrow> rng \<Rightarrow> u64 \<Rightarrow> u64 \<Rightarrow> ProxyFrame \<Rightarrow> bytes option" where
  "tx_message X G session_key now frame =
     (case send_frame (sx_frames X) (sx_target X) G session_key now frame of Some (Ok masked) \<Rightarrow> Some masked | _ \<Rightarrow> None)"

definition active_add :: "int \<Rightarrow> 'w conn_state \<Rightarrow> 'w conn_state" where
  "active_add d st = st\<lparr>cs_metrics := (cs_metrics st)\<lparr>mt_active_connections := mt_active_connections (cs_metrics st) + d\<rparr>\<rparr>"

text \<open>The messages of the sending task, with the moments they arrive, are the stream of its frames.\<close>

lemma tx_loop_stream:
  assumes "tx_loop X G k (map (\<lambda>(sent, arrives, f). (sent, True, f)) fs) mt = (ms, mt')"
    "\<forall>(sent, arrives, f)\<in>set fs. is_ok (fx_to_bytes (sx_frames X) f)"
  shows "ws_stream (sx_frames X) (sx_target X) G k fs =
    Some (map2 (\<lambda>(sent, arrives, f) m. (arrives, WsBinary m)) fs ms) \<and> length ms = length fs"
  using assms
proof (induction fs arbitrary: mt ms)
  case (Cons e fs)
  obtain sent arrives f where e: "e = (sent, arrives, f)" by (cases e)
  obtain m where m: "send_frame (sx_frames X) (sx_target X) G k sent f = Some (Ok m)"
    using send_frame_cases [of "sx_frames X" f "sx_target X" G k sent] Cons.prems(2) e by auto
  with Cons.prems(1) e obtain ms' mt1 where "ms = m # ms'"
    "tx_loop X G k (map (\<lambda>(sent, arrives, f). (sent, True, f)) fs) mt1 = (ms', mt')" by (auto split: prod.splits)
  with Cons.IH Cons.prems(2) e m show ?case by simp
qed simp

section \<open>States\<close>

text \<open>\<open>Returned\<close> is a session that ended early because its DNS socket could not be bound.\<close>

datatype session_phase = Receiving | Joining | Finished | Returned

record session_task =
  ss_user :: u64
  ss_conn_id :: u64
  ss_phase :: session_phase
  ss_tx_alive :: bool
  ss_dns_alive :: bool
  ss_taken :: "ProxyFrame list"
  ss_wire :: "(u64 \<times> ProxyFrame \<times> bytes) list"

text \<open>The channel of session \<open>i\<close> is channel \<open>i\<close> of the registry's heap. Two parts of the state are history:
  \<open>ts_given\<close> has what was addressed to a connection whose session is receiving, and every answer of its DNS
  server; \<open>ts_early\<close> counts the sessions that ended because the connection id could not be sent.\<close>

record 'w tasks_state =
  ts_shared :: "'w conn_state"
  ts_sessions :: "session_task list"
  ts_given :: "(u64 \<times> ProxyFrame) list"
  ts_early :: nat

definition with_registry :: "(ConnectionRegistry \<Rightarrow> ConnectionRegistry) \<Rightarrow> 'w conn_state \<Rightarrow> 'w conn_state" where
  "with_registry f st = st\<lparr>cs_registry := f (cs_registry st)\<rparr>"

definition new_channel :: "nat \<Rightarrow> bool \<Rightarrow> ConnectionRegistry \<Rightarrow> ConnectionRegistry" where
  "new_channel i alive r = r\<lparr>rg_channels := (rg_channels r)(i := \<lparr>ch_queue = [], ch_open = alive\<rparr>)\<rparr>"

definition set_queue :: "nat \<Rightarrow> ProxyFrame list \<Rightarrow> ConnectionRegistry \<Rightarrow> ConnectionRegistry" where
  "set_queue i q r = r\<lparr>rg_channels := (rg_channels r)(i := (rg_channels r i)\<lparr>ch_queue := q\<rparr>)\<rparr>"

definition queue_of :: "'w tasks_state \<Rightarrow> nat \<Rightarrow> ProxyFrame list" where
  "queue_of s i = ch_queue (rg_channels (cs_registry (ts_shared s)) i)"

definition receiving :: "'w tasks_state \<Rightarrow> u64 \<Rightarrow> bool" where
  "receiving s c \<longleftrightarrow> (\<exists>t\<in>set (ts_sessions s). ss_conn_id t = c \<and> ss_phase t = Receiving)"

definition upd_session :: "nat \<Rightarrow> (session_task \<Rightarrow> session_task) \<Rightarrow> 'w tasks_state \<Rightarrow> 'w tasks_state" where
  "upd_session i f s = s\<lparr>ts_sessions := (ts_sessions s)[i := f (ts_sessions s ! i)]\<rparr>"

definition upd_shared :: "('w conn_state \<Rightarrow> 'w conn_state) \<Rightarrow> 'w tasks_state \<Rightarrow> 'w tasks_state" where
  "upd_shared f s = s\<lparr>ts_shared := f (ts_shared s)\<rparr>"

text \<open>A session begins: it is counted, gets a channel and registers; with a socket for DNS it goes on
  to receive, without one it returns and the receiver of its channel is gone.\<close>

definition session_begin :: "u64 \<Rightarrow> u64 \<Rightarrow> bool \<Rightarrow> 'w tasks_state \<Rightarrow> 'w tasks_state" where
  "session_begin user_id conn_id dns_ok s =
     (let i = length (ts_sessions s) in
      s\<lparr>ts_shared := with_registry (\<lambda>r. rg_register (new_channel i dns_ok r) conn_id i) (active_add 1 (ts_shared s)),
        ts_sessions := ts_sessions s @
          [\<lparr>ss_user = user_id, ss_conn_id = conn_id, ss_phase = (if dns_ok then Receiving else Returned),
            ss_tx_alive = dns_ok, ss_dns_alive = dns_ok, ss_taken = [], ss_wire = []\<rparr>]\<rparr>)"

definition loop_end :: "nat \<Rightarrow> 'w conn_state \<Rightarrow> 'w tasks_state \<Rightarrow> 'w tasks_state" where
  "loop_end i st s =
     upd_session i (\<lambda>t. t\<lparr>ss_phase := Joining\<rparr>)
       (s\<lparr>ts_shared := with_registry (\<lambda>r. rg_unregister r (ss_conn_id (ts_sessions s ! i))) st\<rparr>)"

text \<open>The sending task stops: its receiver is dropped, and with it what is still in the channel.\<close>

definition tx_stop :: "nat \<Rightarrow> 'w tasks_state \<Rightarrow> 'w tasks_state" where
  "tx_stop i s = upd_session i (\<lambda>t. t\<lparr>ss_tx_alive := False\<rparr>) (upd_shared (with_registry (new_channel i False)) s)"

section \<open>Steps\<close>

inductive session_step ::
  "'w session_ext \<Rightarrow> (ControlMessage \<Rightarrow> (bytes, string) result) \<Rightarrow> (bytes \<Rightarrow> u32) \<Rightarrow>
     'w tasks_state \<Rightarrow> 'w tasks_state \<Rightarrow> bool" for X control_bytes crc where
  hello_fails: "session_step X control_bytes crc s
     (s\<lparr>ts_shared := active_add 1 (ts_shared s), ts_early := ts_early s + 1\<rparr>)"
| begins: "session_step X control_bytes crc s (session_begin user_id conn_id dns_ok s)"
| receives: "i < length (ts_sessions s) \<Longrightarrow> ss_phase (ts_sessions s ! i) = Receiving \<Longrightarrow>
     rx_message X (ss_conn_id (ts_sessions s ! i)) (ss_user (ts_sessions s ! i)) now msg (ts_shared s) = (True, st) \<Longrightarrow>
     session_step X control_bytes crc s (s\<lparr>ts_shared := st\<rparr>)"
| stops: "i < length (ts_sessions s) \<Longrightarrow> ss_phase (ts_sessions s ! i) = Receiving \<Longrightarrow>
     rx_message X (ss_conn_id (ts_sessions s ! i)) (ss_user (ts_sessions s ! i)) now msg (ts_shared s) = (False, st) \<Longrightarrow>
     session_step X control_bytes crc s (loop_end i st s)"
| disconnects: "i < length (ts_sessions s) \<Longrightarrow> ss_phase (ts_sessions s ! i) = Receiving \<Longrightarrow>
     session_step X control_bytes crc s (loop_end i (ts_shared s) s)"
| dispatches: "session_step X control_bytes crc s
     (s\<lparr>ts_shared := with_registry (\<lambda>r. rg_dispatch crc uuid now r packet) (ts_shared s),
        ts_given := ts_given s @ (if receiving s (pp_conn_id packet)
          then [(pp_conn_id packet, frame_of crc uuid now packet)] else [])\<rparr>)"
| dns_answers: "i < length (ts_sessions s) \<Longrightarrow> ss_dns_alive (ts_sessions s ! i) \<Longrightarrow>
     conn_id = ss_conn_id (ts_sessions s ! i) \<Longrightarrow>
     session_step X control_bytes crc s
       (s\<lparr>ts_shared := with_registry (dns_response control_bytes crc conn_id i uuid now answer) (ts_shared s),
          ts_given := ts_given s @ (case control_bytes (DohResponse answer) of Err _ \<Rightarrow> []
            | Ok payload \<Rightarrow> [(conn_id, (new_control crc payload uuid now)\<lparr>pf_conn_id := conn_id\<rparr>)])\<rparr>)"
| dns_fails: "i < length (ts_sessions s) \<Longrightarrow> ss_dns_alive (ts_sessions s ! i) \<Longrightarrow>
     session_step X control_bytes crc s (upd_session i (\<lambda>t. t\<lparr>ss_dns_alive := False\<rparr>) s)"
| sends: "i < length (ts_sessions s) \<Longrightarrow> ss_tx_alive (ts_sessions s ! i) \<Longrightarrow> queue_of s i = frame # frames \<Longrightarrow>
     tx_message X G (ss_conn_id (ts_sessions s ! i)) now frame = Some masked \<Longrightarrow>
     session_step X control_bytes crc s
       (upd_session i (\<lambda>t. t\<lparr>ss_taken := ss_taken t @ [frame], ss_wire := ss_wire t @ [(now, frame, masked)]\<rparr>)
          (upd_shared (\<lambda>st. count_sent masked (with_registry (set_queue i frames) st)) s))"
| skips: "i < length (ts_sessions s) \<Longrightarrow> ss_tx_alive (ts_sessions s ! i) \<Longrightarrow> queue_of s i = frame # frames \<Longrightarrow>
     fx_to_bytes (sx_frames X) frame = Err e \<Longrightarrow>
     session_step X control_bytes crc s
       (upd_session i (\<lambda>t. t\<lparr>ss_taken := ss_taken t @ [frame]\<rparr>) (upd_shared (with_registry (set_queue i frames)) s))"
| send_fails: "i < length (ts_sessions s) \<Longrightarrow> ss_tx_alive (ts_sessions s ! i) \<Longrightarrow> queue_of s i = frame # frames \<Longrightarrow>
     fx_to_bytes (sx_frames X) frame = Ok b \<Longrightarrow>
     session_step X control_bytes crc s (tx_stop i s)"
| channel_closed: "i < length (ts_sessions s) \<Longrightarrow> ss_tx_alive (ts_sessions s ! i) \<Longrightarrow> queue_of s i = [] \<Longrightarrow>
     \<not> ss_dns_alive (ts_sessions s ! i) \<Longrightarrow> i \<notin> ran (dget (rg_connections (cs_registry (ts_shared s)))) \<Longrightarrow>
     session_step X control_bytes crc s (tx_stop i s)"
| joins: "i < length (ts_sessions s) \<Longrightarrow> ss_phase (ts_sessions s ! i) = Joining \<Longrightarrow>
     \<not> ss_tx_alive (ts_sessions s ! i) \<Longrightarrow> \<not> ss_dns_alive (ts_sessions s ! i) \<Longrightarrow>
     session_step X control_bytes crc s
       (upd_session i (\<lambda>t. t\<lparr>ss_phase := Finished\<rparr>) (upd_shared (active_add (-1)) s))"

definition tasks_init :: "'w tasks_state \<Rightarrow> bool" where
  "tasks_init s \<longleftrightarrow> ts_sessions s = [] \<and> ts_given s = [] \<and> ts_early s = 0 \<and>
     rg_connections (cs_registry (ts_shared s)) = dempty \<and> mt_active_connections (cs_metrics (ts_shared s)) = 0"

section \<open>What holds in every reachable state\<close>

text \<open>The registry has exactly the sessions that are receiving or have returned early.\<close>

definition reg_inv :: "(u64, nat) dmap \<Rightarrow> session_task list \<Rightarrow> bool" where
  "reg_inv conns S \<longleftrightarrow> (\<forall>c i. dget conns c = Some i \<longleftrightarrow>
     i < length S \<and> ss_conn_id (S ! i) = c \<and> ss_phase (S ! i) \<in> {Receiving, Returned})"

text \<open>A channel is open as long as the sending task runs; what the task has taken and what waits in the channel
  is what was given to the connection.\<close>

definition given_to :: "(u64 \<times> ProxyFrame) list \<Rightarrow> u64 \<Rightarrow> ProxyFrame list" where
  "given_to given c = map snd (filter (\<lambda>e. fst e = c) given)"

definition chan_inv :: "(nat \<Rightarrow> ProxyFrame channel) \<Rightarrow> session_task list \<Rightarrow> (u64 \<times> ProxyFrame) list \<Rightarrow> bool" where
  "chan_inv chans S given \<longleftrightarrow> (\<forall>i<length S. ch_open (chans i) = ss_tx_alive (S ! i) \<and>
     (ss_tx_alive (S ! i) \<longrightarrow> ss_taken (S ! i) @ ch_queue (chans i) = given_to given (ss_conn_id (S ! i))))"

text \<open>What does not depend on distinct connection ids.\<close>

fun phase_ok :: "session_task \<Rightarrow> bool" where
  "phase_ok t \<longleftrightarrow> (ss_phase t \<in> {Finished, Returned} \<longrightarrow> \<not> ss_tx_alive t \<and> \<not> ss_dns_alive t)"

definition wire_ok :: "'w session_ext \<Rightarrow> session_task \<Rightarrow> bool" where
  "wire_ok X t \<longleftrightarrow>
     map (fst \<circ> snd) (ss_wire t) = filter (\<lambda>f. is_ok (fx_to_bytes (sx_frames X) f)) (ss_taken t) \<and>
     (\<forall>(now, f, m)\<in>set (ss_wire t). \<exists>G. send_frame (sx_frames X) (sx_target X) G (ss_conn_id t) now f = Some (Ok m))"

definition finished :: "session_task \<Rightarrow> bool" where
  "finished t \<longleftrightarrow> ss_phase t = Finished"

definition base_inv :: "'w session_ext \<Rightarrow> 'w tasks_state \<Rightarrow> bool" where
  "base_inv X s \<longleftrightarrow>
     (\<forall>t\<in>set (ts_sessions s). phase_ok t \<and> wire_ok X t) \<and>
     (\<forall>e\<in>set (ts_given s). fst e \<in> ss_conn_id ` set (ts_sessions s)) \<and>
     mt_active_connections (cs_metrics (ts_shared s)) + int (length (filter finished (ts_sessions s))) =
       int (ts_early s + length (ts_sessions s))"

definition sync_inv :: "'w tasks_state \<Rightarrow> bool" where
  "sync_inv s \<longleftrightarrow> reg_inv (rg_connections (cs_registry (ts_shared s))) (ts_sessions s) \<and>
     chan_inv (rg_channels (cs_registry (ts_shared s))) (ts_sessions s) (ts_given s)"

definition distinct_ids :: "'w tasks_state \<Rightarrow> bool" where
  "distinct_ids s \<longleftrightarrow> distinct (map ss_conn_id (ts_sessions s))"

lemmas task_defs = upd_session_def upd_shared_def with_registry_def new_channel_def set_queue_def loop_end_def
  tx_stop_def active_add_def count_sent_def

lemma rx_message_keeps:
  assumes "rx_message X k u now msg st = (b, st')"
  shows "cs_registry st' = cs_registry st"
    "mt_active_connections (cs_metrics st') = mt_active_connections (cs_metrics st)"
  using assms
  by (auto simp: rx_message_def process_frame_def count_received_def Let_def
      split: ws_event.splits option.splits result.splits if_splits ControlMessage.splits prod.splits)

lemma tx_message_Some:
  "tx_message X G k now f = Some m \<Longrightarrow>
     is_ok (fx_to_bytes (sx_frames X) f) \<and> send_frame (sx_frames X) (sx_target X) G k now f = Some (Ok m)"
  by (auto simp: tx_message_def send_frame_def split: option.splits result.splits)

lemma dispatch_channel:
  "rg_channels (rg_dispatch crc uuid now r p) j =
     (if dget (rg_connections r) (pp_conn_id p) = Some j \<and> ch_open (rg_channels r j)
      then (rg_channels r j)\<lparr>ch_queue := ch_queue (rg_channels r j) @ [frame_of crc uuid now p]\<rparr>
      else rg_channels r j)"
  by (auto simp: rg_dispatch_def chan_send_def frame_of_def Let_def split: option.splits)

lemma dns_response_registry:
  "rg_connections (dns_response cb crc c i uuid now a r) = rg_connections r"
  "rg_channels (dns_response cb crc c i uuid now a r) j =
     (if j = i \<and> ch_open (rg_channels r i) \<and> is_ok (cb (DohResponse a))
      then (rg_channels r i)\<lparr>ch_queue := ch_queue (rg_channels r i) @
        (case cb (DohResponse a) of Err _ \<Rightarrow> [] | Ok payload \<Rightarrow> [(new_control crc payload uuid now)\<lparr>pf_conn_id := c\<rparr>])\<rparr>
      else rg_channels r j)"
  by (auto simp: dns_response_def chan_send_def Let_def split: result.splits)

lemma base_inv_update:
  assumes "base_inv X s" "i < length (ts_sessions s)"
    "ss_conn_id (f (ts_sessions s ! i)) = ss_conn_id (ts_sessions s ! i)"
    "phase_ok (f (ts_sessions s ! i))" "wire_ok X (f (ts_sessions s ! i))"
    "mt_active_connections (cs_metrics st) + (if finished (f (ts_sessions s ! i)) then 1 else 0) =
       mt_active_connections (cs_metrics (ts_shared s)) + (if finished (ts_sessions s ! i) then 1 else 0)"
  shows "base_inv X (upd_session i f (s\<lparr>ts_shared := st\<rparr>))"
proof -
  define t where "t = f (ts_sessions s ! i)"
  note assms = assms [folded t_def]
  have ids: "map ss_conn_id ((ts_sessions s)[i := t]) = map ss_conn_id (ts_sessions s)"
    using assms(2,3) by (rule map_update_same)
  have "phase_ok u \<and> wire_ok X u" if "u \<in> set ((ts_sessions s)[i := t])" for u
    using that assms(1,4,5) set_update_subset_insert [of "ts_sessions s" i t] by (auto simp: base_inv_def)
  moreover have "int (length (filter finished ((ts_sessions s)[i := t]))) + (if finished (ts_sessions s ! i) then 1 else 0) =
      int (length (filter finished (ts_sessions s))) + (if finished t then 1 else 0)"
    using length_filter_update [OF assms(2), of finished t] by (auto split: if_splits)
  moreover have "ss_conn_id ` set ((ts_sessions s)[i := t]) = ss_conn_id ` set (ts_sessions s)"
    using ids by (metis set_map)
  ultimately show ?thesis
    using assms(1,6) unfolding base_inv_def upd_session_def by (simp add: t_def [symmetric] split: if_splits)
qed

lemma base_inv_shared:
  "base_inv X s \<Longrightarrow> mt_active_connections (cs_metrics st) = mt_active_connections (cs_metrics (ts_shared s)) \<Longrightarrow>
     base_inv X (s\<lparr>ts_shared := st\<rparr>)"
  by (simp add: base_inv_def)

lemma base_inv_nth:
  assumes "base_inv X s" "i < length (ts_sessions s)"
  shows "phase_ok (ts_sessions s ! i)" "wire_ok X (ts_sessions s ! i)"
  using assms nth_mem by (auto simp: base_inv_def simp del: phase_ok.simps)

lemma session_step_base: "session_step X cb crc s s' \<Longrightarrow> base_inv X s \<Longrightarrow> base_inv X s'"
proof (induction rule: session_step.induct)
  case (hello_fails s)
  then show ?case by (simp add: base_inv_def active_add_def)
next
  case (begins s user_id conn_id dns_ok)
  then show ?case
    by (auto simp: base_inv_def session_begin_def task_defs wire_ok_def finished_def Let_def)
next
  case (receives i s now msg st)
  then show ?case using rx_message_keeps by (intro base_inv_shared)
next
  case (stops i s now msg st)
  then show ?case
    using base_inv_nth [OF stops.prems stops.hyps(1)] rx_message_keeps [OF stops.hyps(3)] unfolding loop_end_def
    by (intro base_inv_update) (auto simp: finished_def wire_ok_def with_registry_def)
next
  case (disconnects i s)
  then show ?case
    using base_inv_nth [OF disconnects.prems disconnects.hyps(1)] unfolding loop_end_def
    by (intro base_inv_update) (auto simp: finished_def wire_ok_def with_registry_def)
next
  case dispatches
  then show ?case by (auto simp: base_inv_def with_registry_def receiving_def intro: rev_image_eqI)
next
  case (dns_answers i s conn_id uuid now answer)
  then show ?case by (auto simp: base_inv_def with_registry_def split: result.splits)
next
  case (dns_fails i s)
  then have "base_inv X (upd_session i (\<lambda>t. t\<lparr>ss_dns_alive := False\<rparr>) (s\<lparr>ts_shared := ts_shared s\<rparr>))"
    using base_inv_nth [OF dns_fails.prems dns_fails.hyps(1)]
    by (intro base_inv_update) (auto simp: finished_def wire_ok_def)
  then show ?case by simp
next
  case (sends i s frame frames G now masked)
  from tx_message_Some [OF sends.hyps(4)] have "is_ok (fx_to_bytes (sx_frames X) frame)"
    "\<exists>G. send_frame (sx_frames X) (sx_target X) G (ss_conn_id (ts_sessions s ! i)) now frame = Some (Ok masked)" by auto
  then show ?case
    using base_inv_nth [OF sends.prems sends.hyps(1)] sends unfolding upd_shared_def
    by (intro base_inv_update) (auto simp: finished_def wire_ok_def with_registry_def count_sent_def)
next
  case (skips i s frame frames e)
  then show ?case
    using base_inv_nth [OF skips.prems skips.hyps(1)] unfolding upd_shared_def
    by (intro base_inv_update) (auto simp: finished_def wire_ok_def with_registry_def)
next
  case (send_fails i s)
  then show ?case
    using base_inv_nth [OF send_fails.prems send_fails.hyps(1)] unfolding tx_stop_def upd_shared_def
    by (intro base_inv_update) (auto simp: finished_def wire_ok_def with_registry_def)
next
  case (channel_closed i s)
  then show ?case
    using base_inv_nth [OF channel_closed.prems channel_closed.hyps(1)] unfolding tx_stop_def upd_shared_def
    by (intro base_inv_update) (auto simp: finished_def wire_ok_def with_registry_def)
next
  case (joins i s)
  then show ?case
    using base_inv_nth [OF joins.prems joins.hyps(1)] unfolding upd_shared_def
    by (intro base_inv_update) (auto simp: finished_def wire_ok_def active_add_def)
qed

text \<open>With distinct connection ids the registry and the channels are as the sessions say.\<close>

lemma step_distinct: "session_step X cb crc s s' \<Longrightarrow> distinct_ids s' \<Longrightarrow> distinct_ids s"
proof (induction rule: session_step.induct)
  case begins
  then show ?case by (simp add: distinct_ids_def session_begin_def Let_def)
qed (auto simp: distinct_ids_def task_defs map_update_same)

lemma distinct_ids_nth:
  "distinct_ids s \<Longrightarrow> i < length (ts_sessions s) \<Longrightarrow> j < length (ts_sessions s) \<Longrightarrow>
     ss_conn_id (ts_sessions s ! i) = ss_conn_id (ts_sessions s ! j) \<longleftrightarrow> i = j"
  unfolding distinct_ids_def using nth_eq_iff_index_eq [of "map ss_conn_id (ts_sessions s)" i j] by simp

lemma receiving_nth:
  "receiving s c \<longleftrightarrow> (\<exists>i<length (ts_sessions s). ss_conn_id (ts_sessions s ! i) = c \<and> ss_phase (ts_sessions s ! i) = Receiving)"
  unfolding receiving_def by (metis in_set_conv_nth)

lemma given_to_append: "given_to (xs @ ys) c = given_to xs c @ given_to ys c"
  by (simp add: given_to_def)

lemma reg_inv_update:
  assumes "reg_inv conns S" "ss_conn_id t = ss_conn_id (S ! i)" "ss_phase t = ss_phase (S ! i)"
  shows "reg_inv conns (S[i := t])"
proof -
  have "ss_conn_id (S[i := t] ! j) = ss_conn_id (S ! j)" "ss_phase (S[i := t] ! j) = ss_phase (S ! j)" for j
    using assms(2,3) by (metis list_update_beyond not_less nth_list_update)+
  with assms(1) show ?thesis by (simp add: reg_inv_def)
qed

lemma chan_inv_update:
  assumes "chan_inv chans S given" "\<And>j. j \<noteq> i \<Longrightarrow> chans' j = chans j"
    "i < length S \<Longrightarrow> ch_open (chans' i) = ss_tx_alive t \<and>
      (ss_tx_alive t \<longrightarrow> ss_taken t @ ch_queue (chans' i) = given_to given (ss_conn_id t))"
  shows "chan_inv chans' (S[i := t]) given"
proof (unfold chan_inv_def, intro allI impI)
  fix j assume "j < length (S[i := t])"
  with assms show "ch_open (chans' j) = ss_tx_alive (S[i := t] ! j) \<and> (ss_tx_alive (S[i := t] ! j) \<longrightarrow>
      ss_taken (S[i := t] ! j) @ ch_queue (chans' j) = given_to given (ss_conn_id (S[i := t] ! j)))"
    by (cases "j = i") (simp_all add: chan_inv_def)
qed

lemma sync_begin:
  assumes "sync_inv s" "base_inv X s" "distinct_ids (session_begin u c dns_ok s)"
  shows "sync_inv (session_begin u c dns_ok s)"
proof -
  have fresh: "c \<notin> ss_conn_id ` set (ts_sessions s)"
    using assms(3) by (simp add: distinct_ids_def session_begin_def Let_def)
  then have new: "\<And>i. i < length (ts_sessions s) \<Longrightarrow> ss_conn_id (ts_sessions s ! i) \<noteq> c"
    by (metis image_eqI nth_mem)
  have "given_to (ts_given s) c = []"
    using assms(2) fresh by (auto simp: base_inv_def given_to_def filter_empty_conv)
  then have "chan_inv (rg_channels (cs_registry (ts_shared (session_begin u c dns_ok s))))
      (ts_sessions (session_begin u c dns_ok s)) (ts_given s)"
    using assms(1)
    by (auto simp: sync_inv_def chan_inv_def session_begin_def task_defs rg_register_def nth_append less_Suc_eq Let_def)
  moreover have "reg_inv (rg_connections (cs_registry (ts_shared (session_begin u c dns_ok s))))
      (ts_sessions (session_begin u c dns_ok s))"
    using assms(1) new
    by (auto simp: sync_inv_def reg_inv_def session_begin_def task_defs rg_register_def nth_append less_Suc_eq Let_def dest: new)
  ultimately show ?thesis by (simp add: sync_inv_def session_begin_def Let_def)
qed

lemma sync_loop_end:
  assumes "sync_inv s" "distinct_ids s" "i < length (ts_sessions s)" "cs_registry st = cs_registry (ts_shared s)"
  shows "sync_inv (loop_end i st s)"
proof -
  have "reg_inv (dremove (ss_conn_id (ts_sessions s ! i)) (rg_connections (cs_registry (ts_shared s))))
      ((ts_sessions s)[i := (ts_sessions s ! i)\<lparr>ss_phase := Joining\<rparr>])"
    using assms(1,3) unfolding sync_inv_def reg_inv_def
    by (auto simp: nth_list_update dest: distinct_ids_nth [OF assms(2) _ assms(3), THEN iffD1])
  moreover have "chan_inv (rg_channels (cs_registry (ts_shared s)))
      ((ts_sessions s)[i := (ts_sessions s ! i)\<lparr>ss_phase := Joining\<rparr>]) (ts_given s)"
    using assms(1) by (intro chan_inv_update) (auto simp: sync_inv_def chan_inv_def)
  ultimately show ?thesis
    using assms(4) by (simp add: sync_inv_def task_defs rg_unregister_def)
qed

lemma sync_dispatch:
  assumes "sync_inv s" "base_inv X s" "distinct_ids s"
  shows "sync_inv (s\<lparr>ts_shared := with_registry (\<lambda>r. rg_dispatch crc uuid now r p) (ts_shared s),
    ts_given := ts_given s @ (if receiving s (pp_conn_id p) then [(pp_conn_id p, frame_of crc uuid now p)] else [])\<rparr>)"
proof -
  let ?S = "ts_sessions s" and ?r = "cs_registry (ts_shared s)"
  let ?g = "ts_given s @ (if receiving s (pp_conn_id p) then [(pp_conn_id p, frame_of crc uuid now p)] else [])"
  have reg: "dget (rg_connections ?r) (pp_conn_id p) = Some i \<longleftrightarrow>
      ss_conn_id (?S ! i) = pp_conn_id p \<and> ss_phase (?S ! i) \<in> {Receiving, Returned}" if "i < length ?S" for i
    using assms(1) that unfolding sync_inv_def reg_inv_def by blast
  have rec: "receiving s (pp_conn_id p) \<longleftrightarrow> ss_phase (?S ! i) = Receiving"
    if "i < length ?S" "ss_conn_id (?S ! i) = pp_conn_id p" for i
    unfolding receiving_nth using that distinct_ids_nth [OF assms(3)] by metis
  have "chan_inv (rg_channels (rg_dispatch crc uuid now ?r p)) ?S ?g"
  proof (unfold chan_inv_def, intro allI impI)
    fix i assume i: "i < length ?S"
    have old: "ch_open (rg_channels ?r i) = ss_tx_alive (?S ! i)"
      "ss_tx_alive (?S ! i) \<Longrightarrow> ss_taken (?S ! i) @ ch_queue (rg_channels ?r i) = given_to (ts_given s) (ss_conn_id (?S ! i))"
      using assms(1) i by (auto simp: sync_inv_def chan_inv_def)
    have "ss_tx_alive (?S ! i) \<Longrightarrow> ss_phase (?S ! i) \<noteq> Returned"
      using base_inv_nth(1) [OF assms(2) i] by auto
    then show "ch_open (rg_channels (rg_dispatch crc uuid now ?r p) i) = ss_tx_alive (?S ! i) \<and> (ss_tx_alive (?S ! i) \<longrightarrow>
        ss_taken (?S ! i) @ ch_queue (rg_channels (rg_dispatch crc uuid now ?r p) i) = given_to ?g (ss_conn_id (?S ! i)))"
      using old reg [OF i] rec [OF i] by (auto simp: dispatch_channel given_to_append) (auto simp: given_to_def)
  qed
  then show ?thesis
    using assms(1) by (simp add: sync_inv_def with_registry_def rg_dispatch_connections)
qed

lemma sync_dns:
  assumes "sync_inv s" "distinct_ids s" "i < length (ts_sessions s)" "c = ss_conn_id (ts_sessions s ! i)"
  shows "sync_inv (s\<lparr>ts_shared := with_registry (dns_response cb crc c i uuid now a) (ts_shared s),
    ts_given := ts_given s @ (case cb (DohResponse a) of Err _ \<Rightarrow> []
      | Ok payload \<Rightarrow> [(c, (new_control crc payload uuid now)\<lparr>pf_conn_id := c\<rparr>)])\<rparr>)"
proof -
  let ?S = "ts_sessions s" and ?r = "cs_registry (ts_shared s)"
  let ?fs = "case cb (DohResponse a) of Err _ \<Rightarrow> [] | Ok payload \<Rightarrow> [(new_control crc payload uuid now)\<lparr>pf_conn_id := c\<rparr>]"
  have given: "(case cb (DohResponse a) of Err _ \<Rightarrow> [] | Ok payload \<Rightarrow> [(c, (new_control crc payload uuid now)\<lparr>pf_conn_id := c\<rparr>)]) =
      map (Pair c) ?fs" by (simp split: result.split)
  have "chan_inv (rg_channels (dns_response cb crc c i uuid now a ?r)) ?S (ts_given s @ map (Pair c) ?fs)"
  proof (unfold chan_inv_def, intro allI impI)
    fix j assume j: "j < length ?S"
    have "ss_conn_id (?S ! j) = c \<longleftrightarrow> j = i"
      using distinct_ids_nth [OF assms(2) j assms(3)] assms(4) by simp
    then have "given_to (map (Pair c) ?fs) (ss_conn_id (?S ! j)) = (if j = i then ?fs else [])"
      by (auto simp: given_to_def split: result.split)
    moreover have "is_ok (cb (DohResponse a)) \<or> ?fs = []" by (cases "cb (DohResponse a)") simp_all
    moreover have "ch_open (rg_channels ?r j) = ss_tx_alive (?S ! j)" "ss_tx_alive (?S ! j) \<Longrightarrow>
        ss_taken (?S ! j) @ ch_queue (rg_channels ?r j) = given_to (ts_given s) (ss_conn_id (?S ! j))"
      using assms(1) j by (auto simp: sync_inv_def chan_inv_def)
    ultimately show "ch_open (rg_channels (dns_response cb crc c i uuid now a ?r) j) = ss_tx_alive (?S ! j) \<and>
        (ss_tx_alive (?S ! j) \<longrightarrow> ss_taken (?S ! j) @ ch_queue (rg_channels (dns_response cb crc c i uuid now a ?r) j) =
           given_to (ts_given s @ map (Pair c) ?fs) (ss_conn_id (?S ! j)))"
      by (auto simp: dns_response_registry given_to_append)
  qed
  with assms(1) show ?thesis
    unfolding given by (simp add: sync_inv_def with_registry_def dns_response_registry)
qed

lemma sync_upd:
  assumes "sync_inv s" "i < length (ts_sessions s)"
    "ss_conn_id (f (ts_sessions s ! i)) = ss_conn_id (ts_sessions s ! i)"
    "ss_phase (f (ts_sessions s ! i)) = ss_phase (ts_sessions s ! i) \<or>
       ss_phase (ts_sessions s ! i) = Joining \<and> ss_phase (f (ts_sessions s ! i)) = Finished"
    "rg_connections (cs_registry st) = rg_connections (cs_registry (ts_shared s))"
    "\<And>j. j \<noteq> i \<Longrightarrow> rg_channels (cs_registry st) j = rg_channels (cs_registry (ts_shared s)) j"
    "ch_open (rg_channels (cs_registry st) i) = ss_tx_alive (f (ts_sessions s ! i)) \<and>
      (ss_tx_alive (f (ts_sessions s ! i)) \<longrightarrow> ss_taken (f (ts_sessions s ! i)) @ ch_queue (rg_channels (cs_registry st) i) =
         given_to (ts_given s) (ss_conn_id (ts_sessions s ! i)))"
  shows "sync_inv (upd_session i f (s\<lparr>ts_shared := st\<rparr>))"
proof -
  have "reg_inv (rg_connections (cs_registry st)) ((ts_sessions s)[i := f (ts_sessions s ! i)])"
  proof (cases "ss_phase (f (ts_sessions s ! i)) = ss_phase (ts_sessions s ! i)")
    case True
    then show ?thesis using assms(1,3,5) by (intro reg_inv_update) (auto simp: sync_inv_def)
  next
    case False
    with assms(4) have "ss_phase (ts_sessions s ! i) = Joining" "ss_phase (f (ts_sessions s ! i)) = Finished" by auto
    then show ?thesis
      using assms(1,2,5) unfolding sync_inv_def reg_inv_def by (auto simp: nth_list_update)
  qed
  moreover have "chan_inv (rg_channels (cs_registry st)) ((ts_sessions s)[i := f (ts_sessions s ! i)]) (ts_given s)"
    using assms(1,3,6,7) by (intro chan_inv_update [where chans = "rg_channels (cs_registry (ts_shared s))"])
      (auto simp: sync_inv_def)
  ultimately show ?thesis by (simp add: sync_inv_def upd_session_def)
qed

definition tasks_inv :: "'w session_ext \<Rightarrow> 'w tasks_state \<Rightarrow> bool" where
  "tasks_inv X s \<longleftrightarrow> base_inv X s \<and> (distinct_ids s \<longrightarrow> sync_inv s)"

lemma session_step_sync:
  "session_step X cb crc s s' \<Longrightarrow> base_inv X s \<Longrightarrow> distinct_ids s' \<Longrightarrow> sync_inv s \<Longrightarrow> sync_inv s'"
proof (induction rule: session_step.induct)
  case hello_fails
  then show ?case by (simp add: sync_inv_def active_add_def)
next
  case begins
  then show ?case by (intro sync_begin)
next
  case (receives i s now msg st)
  then show ?case using rx_message_keeps(1) [OF receives.hyps(3)] by (simp add: sync_inv_def)
next
  case (stops i s now msg st)
  then show ?case
    using rx_message_keeps(1) [OF stops.hyps(3)] step_distinct [OF session_step.stops [OF stops.hyps]] by (intro sync_loop_end)
next
  case (disconnects i s)
  then show ?case using step_distinct [OF session_step.disconnects [OF disconnects.hyps]] by (intro sync_loop_end) auto
next
  case dispatches
  then show ?case by (intro sync_dispatch) (auto simp: distinct_ids_def)
next
  case dns_answers
  then show ?case by (intro sync_dns) (auto simp: distinct_ids_def)
next
  case (dns_fails i s)
  then have "sync_inv (upd_session i (\<lambda>t. t\<lparr>ss_dns_alive := False\<rparr>) (s\<lparr>ts_shared := ts_shared s\<rparr>))"
    by (intro sync_upd) (auto simp: sync_inv_def chan_inv_def)
  then show ?case by simp
next
  case (sends i s frame frames G now masked)
  then show ?case unfolding upd_shared_def
    by (intro sync_upd) (auto simp: sync_inv_def chan_inv_def queue_of_def with_registry_def count_sent_def set_queue_def)
next
  case (skips i s frame frames e)
  then show ?case unfolding upd_shared_def
    by (intro sync_upd) (auto simp: sync_inv_def chan_inv_def queue_of_def with_registry_def set_queue_def)
next
  case (joins i s)
  then show ?case unfolding upd_shared_def
    by (intro sync_upd) (auto simp: sync_inv_def chan_inv_def active_add_def)
qed (unfold tx_stop_def upd_shared_def, (intro sync_upd; auto simp: with_registry_def new_channel_def)+)

lemma tasks_init_inv: "tasks_init s \<Longrightarrow> tasks_inv X s"
  by (simp add: tasks_init_def tasks_inv_def base_inv_def sync_inv_def reg_inv_def chan_inv_def)

interpretation tasks: invariant_system tasks_init "session_step X cb crc" "tasks_inv X" for X cb crc
  by unfold_locales (auto simp: tasks_inv_def tasks_init_inv [unfolded tasks_inv_def]
      intro: session_step_base session_step_sync dest: step_distinct)

section \<open>An instance of the parameters\<close>

text \<open>A network that logs the requests, of which node \<open>a\<close> accepts its own.\<close>

definition demo_net :: "(bytes \<times> bool) list http_ext" where
  "demo_net = \<lparr>hx_post = \<lambda>url b w. if url = ''a/forward'' then (Ok 200, w @ [(b, True)]) else (Err ''timed out'', w @ [(b, False)]),
     hx_get = \<lambda>url w. (Err ''refused'', w), hx_build = \<lambda>c. Ok ()\<rparr>"

definition demo_session :: "(bytes \<times> bool) list session_ext" where
  "demo_session = \<lparr>sx_frames = demo_frames, sx_http = demo_net,
     sx_packets = \<lparr>px_to_bytes = \<lambda>p. Ok (pp_payload p), px_from_bytes = \<lambda>a b. Err ''''\<rparr>,
     sx_control = \<lambda>b. Err '''', sx_dns_sent = \<lambda>qs q. True, sx_target = Portable\<rparr>"

definition demo_state :: "(bytes \<times> bool) list conn_state" where
  "demo_state = \<lparr>cs_metrics = metrics_new, cs_forwarder = ef_new demo_pool 1, cs_billing = ba_new,
     cs_registry = registry_new (\<lambda>_. \<lparr>ch_queue = [], ch_open = True\<rparr>), cs_dns = [], cs_world = []\<rparr>"

definition demo_tasks :: "(bytes \<times> bool) list tasks_state" where
  "demo_tasks = \<lparr>ts_shared = demo_state, ts_sessions = [], ts_given = [], ts_early = 0\<rparr>"

abbreviation demo_step :: "(bytes \<times> bool) list tasks_state \<Rightarrow> (bytes \<times> bool) list tasks_state \<Rightarrow> bool" where
  "demo_step \<equiv> session_step demo_session (\<lambda>_. Err []) (\<lambda>_. 0)"

abbreviation demo_reach :: "(bytes \<times> bool) list tasks_state \<Rightarrow> bool" where
  "demo_reach \<equiv> reach tasks_init demo_step"

lemma demo_tasks_reach: "demo_reach demo_tasks"
  by (rule reach.at_start) (simp add: tasks_init_def demo_tasks_def demo_state_def registry_new_def metrics_new_def)

lemmas demo_then = reach.after_step [where step = demo_step]

text \<open>Two sessions, of which the first one's client has left, and a packet for the second.\<close>

definition demo_two :: "(bytes \<times> bool) list tasks_state" where
  "demo_two = session_begin 43 6 True (session_begin 42 5 True demo_tasks)"

lemma demo_two_reach: "demo_reach demo_two"
  unfolding demo_two_def by (intro demo_then [OF _ session_step.begins] demo_tasks_reach)

definition demo_left :: "(bytes \<times> bool) list tasks_state" where
  "demo_left = loop_end 0 (ts_shared demo_two) demo_two"

lemma demo_left_reach: "demo_reach demo_left"
  unfolding demo_left_def
  by (rule demo_then [OF demo_two_reach session_step.disconnects])
    (simp_all add: demo_two_def session_begin_def demo_tasks_def Let_def)

text \<open>Without distinct ids the isolation fails: a session that draws the id of another takes over its traffic, and
  when the other's client leaves, it is itself taken out of the registry while still receiving.\<close>

lemma colliding_ids_disconnect:
  "\<exists>s. demo_reach s \<and> ss_phase (ts_sessions s ! 1) = Receiving \<and>
     dget (rg_connections (cs_registry (ts_shared s))) (ss_conn_id (ts_sessions s ! 1)) = None"
proof -
  let ?t = "session_begin 43 5 True (session_begin 42 5 True demo_tasks)"
  let ?s = "loop_end 0 (ts_shared ?t) ?t"
  have "demo_reach ?t" by (intro demo_then [OF _ session_step.begins] demo_tasks_reach)
  then have "demo_reach ?s"
    by (rule demo_then [OF _ session_step.disconnects]) (simp_all add: session_begin_def demo_tasks_def Let_def)
  moreover have "ss_phase (ts_sessions ?s ! 1) = Receiving \<and>
      dget (rg_connections (cs_registry (ts_shared ?s))) (ss_conn_id (ts_sessions ?s ! 1)) = None"
    by (simp add: session_begin_def demo_tasks_def demo_state_def task_defs rg_register_def rg_unregister_def registry_new_def Let_def)
  ultimately show ?thesis by blast
qed

section \<open>Properties\<close>

text \<open>C12. Sessions do not disturb each other: however the tasks of any number of sessions and of the exit
  nodes' streams interleave, as long as the random connection ids differ, the frames that the sending task
  of a session has taken, followed by those in its channel, are exactly the packets addressed to its
  connection while it was receiving and its own DNS answers, each once and in the order given; what went to
  the client are those of them that can be serialised, masked with the session's key; and the
  registry has the sessions that are receiving, besides those that returned early.\<close>

theorem sessions_isolated:
  assumes "reach tasks_init (session_step X control_bytes crc) s" and "distinct (map ss_conn_id (ts_sessions s))"
    and "i < length (ts_sessions s)" and "t = ts_sessions s ! i"
  shows "(ss_tx_alive t \<longrightarrow>
      ss_taken t @ queue_of s i = map snd (filter (\<lambda>(c, f). c = ss_conn_id t) (ts_given s))) \<and>
    map (\<lambda>(now, f, m). f) (ss_wire t) = filter (\<lambda>f. is_ok (fx_to_bytes (sx_frames X) f)) (ss_taken t) \<and>
    (\<forall>(now, f, m)\<in>set (ss_wire t). \<exists>G. send_frame (sx_frames X) (sx_target X) G (ss_conn_id t) now f = Some (Ok m)) \<and>
    (dget (rg_connections (cs_registry (ts_shared s))) (ss_conn_id t) = Some i \<longleftrightarrow> ss_phase t \<in> {Receiving, Returned})"
proof -
  have inv: "base_inv X s" "sync_inv s"
    using tasks.reach_inv [OF assms(1)] assms(2) by (auto simp: tasks_inv_def distinct_ids_def)
  have "wire_ok X t" using base_inv_nth(2) [OF inv(1) assms(3)] assms(4) by simp
  moreover have "(\<lambda>(now, f, m). f) = fst \<circ> (snd :: u64 \<times> ProxyFrame \<times> bytes \<Rightarrow> _)" by auto
  moreover have "(\<lambda>(c, f). c = ss_conn_id t) = (\<lambda>e :: u64 \<times> ProxyFrame. fst e = ss_conn_id t)" by auto
  ultimately show ?thesis
    using inv(2) assms(3,4) by (auto simp: sync_inv_def chan_inv_def reg_inv_def wire_ok_def queue_of_def given_to_def)
qed

theorem sessions_isolated_witness:
  "\<exists>s. demo_reach s \<and> queue_of s 0 = [] \<and> queue_of s 1 = [frame_of (\<lambda>_. 0) [] 9 (demo_packet 6 1)]"
proof -
  let ?s = "demo_left\<lparr>ts_shared := with_registry (\<lambda>r. rg_dispatch (\<lambda>_. 0) [] 9 r (demo_packet 6 1)) (ts_shared demo_left),
    ts_given := ts_given demo_left @ (if receiving demo_left (pp_conn_id (demo_packet 6 1))
      then [(pp_conn_id (demo_packet 6 1), frame_of (\<lambda>_. 0) [] 9 (demo_packet 6 1))] else [])\<rparr>"
  have r: "demo_reach ?s"
    by (rule demo_then [OF demo_left_reach session_step.dispatches])
  have S: "map ss_conn_id (ts_sessions ?s) = [5, 6]" "length (ts_sessions ?s) = 2" "ts_given demo_left = []"
    "\<forall>t\<in>set (ts_sessions ?s). ss_tx_alive t \<and> ss_taken t = []" "receiving demo_left 6" "pp_conn_id (demo_packet 6 1) = 6"
    "ss_conn_id (ts_sessions ?s ! 0) = 5" "ss_conn_id (ts_sessions ?s ! 1) = 6"
    by (simp_all add: demo_left_def demo_two_def session_begin_def loop_end_def upd_session_def demo_tasks_def Let_def
        receiving_def demo_packet_def response_def)
  then have "ss_tx_alive (ts_sessions ?s ! 0)" "ss_tx_alive (ts_sessions ?s ! 1)"
    "ss_taken (ts_sessions ?s ! 0) = []" "ss_taken (ts_sessions ?s ! 1) = []" by simp_all
  with S sessions_isolated [OF r _ _ refl, of 0] sessions_isolated [OF r _ _ refl, of 1]
  have "queue_of ?s 0 = []" "queue_of ?s 1 = [frame_of (\<lambda>_. 0) [] 9 (demo_packet 6 1)]" by simp_all
  with r show ?thesis by blast
qed

text \<open>C28. Sessions outlive their clients: in every interleaving the gauge of active connections is the number of
  sessions ever started, with those that failed to send the connection id, less those that came to
  their end; and a session comes to its end only after its DNS socket has failed. As long as no DNS
  socket fails, every client that ever connected counts as active, and its tasks wait for each other.\<close>

theorem sessions_outlive_clients:
  assumes "reach tasks_init (session_step X control_bytes crc) s"
  shows "mt_active_connections (cs_metrics (ts_shared s)) =
      int (ts_early s) + int (length (ts_sessions s)) - int (length (filter (\<lambda>t. ss_phase t = Finished) (ts_sessions s))) \<and>
    (\<forall>t\<in>set (ts_sessions s). ss_phase t = Finished \<longrightarrow> \<not> ss_dns_alive t) \<and>
    ((\<forall>t\<in>set (ts_sessions s). ss_dns_alive t \<or> ss_phase t = Returned) \<longrightarrow>
       mt_active_connections (cs_metrics (ts_shared s)) = int (ts_early s) + int (length (ts_sessions s)))"
proof -
  have inv: "base_inv X s" using tasks.reach_inv [OF assms] by (simp add: tasks_inv_def)
  have fin: "finished = (\<lambda>t. ss_phase t = Finished)"
    by (rule ext) (simp add: finished_def)
  have dead: "\<forall>t\<in>set (ts_sessions s). ss_phase t = Finished \<longrightarrow> \<not> ss_dns_alive t"
    using inv by (auto simp: base_inv_def)
  have "filter (\<lambda>t. ss_phase t = Finished) (ts_sessions s) = []"
    if "\<forall>t\<in>set (ts_sessions s). ss_dns_alive t \<or> ss_phase t = Returned"
    using that dead by (auto simp: filter_empty_conv)
  with inv fin dead show ?thesis by (auto simp: base_inv_def)
qed

theorem sessions_outlive_clients_witness:
  "ss_phase (ts_sessions demo_left ! 0) = Joining \<and> mt_active_connections (cs_metrics (ts_shared demo_left)) = 2"
proof -
  have S: "ts_early demo_left = 0" "length (ts_sessions demo_left) = 2" "\<forall>t\<in>set (ts_sessions demo_left). ss_dns_alive t"
    "ss_phase (ts_sessions demo_left ! 0) = Joining"
    by (simp_all add: demo_left_def demo_two_def session_begin_def loop_end_def upd_session_def demo_tasks_def Let_def)
  with sessions_outlive_clients [OF demo_left_reach] show ?thesis by simp
qed

end
