(* ===== verification/Node_Tasks.thy ===== *)
theory Node_Tasks
  imports Handler
begin

text \<open>
  The sessions of reverse-connected exit nodes, \<^verbatim>\<open>daemon/src/handler.rs\<close>, run side by side. A session counts the
  nodes of the groups, offers the groups, waits for the choice of the node, registers it in the pool and then
  answers its pings; a second task sends what is put into the channel of the registration. \<open>Handler\<close> has a session as
  a function of what its socket yields; here the sessions interleave, and \<open>node_step\<close> relates the states
  before and after one access of one task to what is shared: the pool and the channels.
\<close>

section \<open>One turn of each task\<close>

datatype select_turn = Selected i32 | Gone | Waiting

definition select_message :: "exit_ext \<Rightarrow> ws_msg \<Rightarrow> select_turn" where
  "select_message X msg =
     (case msg of
        MsgBinary data \<Rightarrow> (case xe_control X data of Some (GroupSelect group_id) \<Rightarrow> Selected group_id | _ \<Rightarrow> Waiting)
      | MsgClose \<Rightarrow> Gone
      | MsgErr _ \<Rightarrow> Gone
      | _ \<Rightarrow> Waiting)"

lemma wait_for_select_message:
  "wait_for_select X (msg # rx) =
     (case select_message X msg of Selected g \<Rightarrow> (Some g, rx) | Gone \<Rightarrow> (None, rx) | Waiting \<Rightarrow> wait_for_select X rx)"
  by (simp add: select_message_def split: ws_msg.split option.split ControlMessage.split)

text \<open>Whether the loop over a registered node's messages goes on, and the channels.\<close>

definition serve_message ::
  "ExitNodePool \<Rightarrow> u64 \<Rightarrow> ws_msg \<Rightarrow> (nat \<Rightarrow> ws_msg channel) \<Rightarrow> bool \<times> (nat \<Rightarrow> ws_msg channel)" where
  "serve_message pool node_id msg chans =
     (case msg of
        MsgPing data \<Rightarrow>
          (True, case np_get pool node_id of
             None \<Rightarrow> chans
           | Some conn \<Rightarrow> snd (chan_send chans (nc_sender conn) (MsgPong data)))
      | MsgClose \<Rightarrow> (False, chans)
      | MsgErr _ \<Rightarrow> (False, chans)
      | _ \<Rightarrow> (True, chans))"

lemma exit_rx_loop_message:
  "exit_rx_loop pool node_id (msg # rx) chans =
     (case serve_message pool node_id msg chans of (True, c) \<Rightarrow> exit_rx_loop pool node_id rx c | (False, c) \<Rightarrow> c)"
  by (simp add: serve_message_def split: ws_msg.split option.split)

text \<open>The groups offered, with the counts read before. The three counts are read one after the other.\<close>

definition group_infos :: "nat list \<Rightarrow> GroupInfo list" where
  "group_infos ns =
     [\<lparr>gi_group_id = 0, gi_name = ''Default'', gi_node_count = word_of_nat (ns ! 0), gi_load = 50\<rparr>,
      \<lparr>gi_group_id = 1, gi_name = ''Premium'', gi_node_count = word_of_nat (ns ! 1), gi_load = 30\<rparr>,
      \<lparr>gi_group_id = 2, gi_name = ''Asia'', gi_node_count = word_of_nat (ns ! 2), gi_load = 60\<rparr>]"

definition count_group :: "ExitNodePool \<Rightarrow> nat list \<Rightarrow> nat list" where
  "count_group pool ns = ns @ [length (get_group_nodes pool (word_of_nat (length ns)))]"

lemma offered_groups_counts: "offered_groups pool = group_infos (count_group pool (count_group pool (count_group pool [])))"
  by (simp add: offered_groups_def group_infos_def count_group_def)

section \<open>States\<close>

datatype node_phase = Counting "nat list" | Selecting | Serving | Draining | Departed

text \<open>The pings of a session are history; its wire is what its sending task has sent.\<close>

record node_task =
  nt_name :: string
  nt_phase :: node_phase
  nt_id :: "u64 option"
  nt_group :: i32
  nt_tx_alive :: bool
  nt_wire :: "ws_msg list"
  nt_pings :: "bytes list"

text \<open>The channel of session \<open>i\<close> is channel \<open>i\<close>.\<close>

record nodes_state =
  ns_pool :: ExitNodePool
  ns_chans :: "nat \<Rightarrow> ws_msg channel"
  ns_nodes :: "node_task list"

definition new_node :: "string \<Rightarrow> node_task" where
  "new_node name = \<lparr>nt_name = name, nt_phase = Counting [], nt_id = None, nt_group = 0, nt_tx_alive = False,
     nt_wire = [], nt_pings = []\<rparr>"

definition upd_node :: "nat \<Rightarrow> (node_task \<Rightarrow> node_task) \<Rightarrow> nodes_state \<Rightarrow> nodes_state" where
  "upd_node i f s = s\<lparr>ns_nodes := (ns_nodes s)[i := f (ns_nodes s ! i)]\<rparr>"

definition set_chan :: "nat \<Rightarrow> ws_msg list \<Rightarrow> bool \<Rightarrow> nodes_state \<Rightarrow> nodes_state" where
  "set_chan i q alive s = s\<lparr>ns_chans := (ns_chans s)(i := \<lparr>ch_queue = q, ch_open = alive\<rparr>)\<rparr>"

definition node_joins :: "nat \<Rightarrow> i32 \<Rightarrow> nodes_state \<Rightarrow> nodes_state" where
  "node_joins i group_id s =
     (case np_register (ns_pool s) (nt_name (ns_nodes s ! i)) group_id i of
        (node_id, pool) \<Rightarrow>
          upd_node i (\<lambda>t. t\<lparr>nt_phase := Serving, nt_id := Some node_id, nt_group := group_id, nt_tx_alive := True\<rparr>)
            (set_chan i [] True (s\<lparr>ns_pool := pool\<rparr>)))"

definition node_stops :: "nat \<Rightarrow> u64 \<Rightarrow> nodes_state \<Rightarrow> nodes_state" where
  "node_stops i node_id s =
     upd_node i (\<lambda>t. t\<lparr>nt_phase := Draining\<rparr>) (s\<lparr>ns_pool := np_unregister (ns_pool s) node_id\<rparr>)"

definition sender_stops :: "nat \<Rightarrow> nodes_state \<Rightarrow> nodes_state" where
  "sender_stops i s = upd_node i (\<lambda>t. t\<lparr>nt_tx_alive := False\<rparr>) (set_chan i [] False s)"

section \<open>Steps\<close>

text \<open>A session leaves when the offer cannot be serialised or sent, and when the node closes before it has
  chosen. The sending task ends when a message cannot be sent, and when the channel is empty and no
  sender of it is left in the pool. The session waits for it before it is done.\<close>

inductive node_step :: "exit_ext \<Rightarrow> nodes_state \<Rightarrow> nodes_state \<Rightarrow> bool" for X where
  arrives: "node_step X s (s\<lparr>ns_nodes := ns_nodes s @ [new_node name]\<rparr>)"
| counts: "i < length (ns_nodes s) \<Longrightarrow> nt_phase (ns_nodes s ! i) = Counting ns \<Longrightarrow> length ns < 3 \<Longrightarrow>
     node_step X s (upd_node i (\<lambda>t. t\<lparr>nt_phase := Counting (count_group (ns_pool s) ns)\<rparr>) s)"
| offers: "i < length (ns_nodes s) \<Longrightarrow> nt_phase (ns_nodes s ! i) = Counting ns \<Longrightarrow> length ns = 3 \<Longrightarrow>
     xe_control_bytes X (GroupList (group_infos ns)) = Some msg_bytes \<Longrightarrow>
     node_step X s (upd_node i (\<lambda>t. t\<lparr>nt_phase := Selecting\<rparr>) s)"
| offer_fails: "i < length (ns_nodes s) \<Longrightarrow> nt_phase (ns_nodes s ! i) = Counting ns \<Longrightarrow> length ns = 3 \<Longrightarrow>
     node_step X s (upd_node i (\<lambda>t. t\<lparr>nt_phase := Departed\<rparr>) s)"
| selects: "i < length (ns_nodes s) \<Longrightarrow> nt_phase (ns_nodes s ! i) = Selecting \<Longrightarrow>
     select_message X msg = Selected group_id \<Longrightarrow> node_step X s (node_joins i group_id s)"
| leaves: "i < length (ns_nodes s) \<Longrightarrow> nt_phase (ns_nodes s ! i) = Selecting \<Longrightarrow>
     node_step X s (upd_node i (\<lambda>t. t\<lparr>nt_phase := Departed\<rparr>) s)"
| receives: "i < length (ns_nodes s) \<Longrightarrow> nt_phase (ns_nodes s ! i) = Serving \<Longrightarrow> nt_id (ns_nodes s ! i) = Some node_id \<Longrightarrow>
     serve_message (ns_pool s) node_id msg (ns_chans s) = (True, chans) \<Longrightarrow>
     node_step X s (upd_node i (\<lambda>t. t\<lparr>nt_pings := nt_pings t @ (case msg of MsgPing data \<Rightarrow> [data] | _ \<Rightarrow> [])\<rparr>)
       (s\<lparr>ns_chans := chans\<rparr>))"
| stops: "i < length (ns_nodes s) \<Longrightarrow> nt_phase (ns_nodes s ! i) = Serving \<Longrightarrow> nt_id (ns_nodes s ! i) = Some node_id \<Longrightarrow>
     node_step X s (node_stops i node_id s)"
| sends: "i < length (ns_nodes s) \<Longrightarrow> nt_tx_alive (ns_nodes s ! i) \<Longrightarrow> ch_queue (ns_chans s i) = msg # msgs \<Longrightarrow>
     node_step X s (upd_node i (\<lambda>t. t\<lparr>nt_wire := nt_wire t @ [msg]\<rparr>) (set_chan i msgs (ch_open (ns_chans s i)) s))"
| send_fails: "i < length (ns_nodes s) \<Longrightarrow> nt_tx_alive (ns_nodes s ! i) \<Longrightarrow> ch_queue (ns_chans s i) = msg # msgs \<Longrightarrow>
     node_step X s (sender_stops i s)"
| channel_closed: "i < length (ns_nodes s) \<Longrightarrow> nt_tx_alive (ns_nodes s ! i) \<Longrightarrow> ch_queue (ns_chans s i) = [] \<Longrightarrow>
     i \<notin> nc_sender ` ran (dget (np_connections (ns_pool s))) \<Longrightarrow> node_step X s (sender_stops i s)"
| joins: "i < length (ns_nodes s) \<Longrightarrow> nt_phase (ns_nodes s ! i) = Draining \<Longrightarrow> \<not> nt_tx_alive (ns_nodes s ! i) \<Longrightarrow>
     node_step X s (upd_node i (\<lambda>t. t\<lparr>nt_phase := Departed\<rparr>) s)"

definition nodes_init :: "nodes_state \<Rightarrow> bool" where
  "nodes_init s \<longleftrightarrow> ns_pool s = np_new \<and> ns_nodes s = []"

section \<open>What holds in every reachable state\<close>

text \<open>Ids are given out once.\<close>

definition ids_inv :: "u64 \<Rightarrow> u64 option list \<Rightarrow> bool" where
  "ids_inv next ids \<longleftrightarrow> unat next = Suc (length (filter (\<lambda>x. x \<noteq> None) ids)) \<and>
     (\<forall>k. Some k \<in> set ids \<longrightarrow> unat k < unat next) \<and>
     (\<forall>i<length ids. \<forall>j<length ids. ids ! i = ids ! j \<longrightarrow> ids ! i \<noteq> None \<longrightarrow> i = j)"

text \<open>The pool has exactly the sessions that serve.\<close>

definition entry :: "nat \<Rightarrow> node_task \<Rightarrow> (u64 \<times> ExitNodeConnection) option" where
  "entry i t = (if nt_phase t = Serving
     then map_option (\<lambda>k. (k, \<lparr>nc_node_id = k, nc_name = nt_name t, nc_group_id = nt_group t, nc_sender = i\<rparr>)) (nt_id t)
     else None)"

definition entries_inv :: "(u64, ExitNodeConnection) dmap \<Rightarrow> node_task list \<Rightarrow> bool" where
  "entries_inv conns S \<longleftrightarrow> dwf conns \<and>
     (\<forall>k c. dget conns k = Some c \<longleftrightarrow> (\<exists>i<length S. entry i (S ! i) = Some (k, c)))"

text \<open>The phase, the tasks and the channel of a session agree, and its node is sent the answers to its pings.\<close>

definition task_inv :: "ws_msg channel \<Rightarrow> node_task \<Rightarrow> bool" where
  "task_inv ch t \<longleftrightarrow>
     (nt_phase t \<in> {Serving, Draining} \<longrightarrow> nt_id t \<noteq> None) \<and>
     ((\<exists>ns. nt_phase t = Counting ns) \<or> nt_phase t = Selecting \<longrightarrow> nt_id t = None) \<and>
     (nt_id t = None \<longrightarrow> \<not> nt_tx_alive t \<and> nt_wire t = [] \<and> nt_pings t = []) \<and>
     (nt_id t \<noteq> None \<longrightarrow> ch_open ch = nt_tx_alive t) \<and>
     (nt_phase t = Departed \<longrightarrow> \<not> nt_tx_alive t) \<and>
     (if nt_tx_alive t then map MsgPong (nt_pings t) = nt_wire t @ ch_queue ch
      else \<exists>rest. map MsgPong (nt_pings t) = nt_wire t @ rest)"

definition few_nodes :: "nodes_state \<Rightarrow> bool" where
  "few_nodes s \<longleftrightarrow> length (ns_nodes s) < 2 ^ 64 - 1"

definition sessions_inv :: "nodes_state \<Rightarrow> bool" where
  "sessions_inv s \<longleftrightarrow> ids_inv (np_next_id (ns_pool s)) (map nt_id (ns_nodes s)) \<and>
     entries_inv (np_connections (ns_pool s)) (ns_nodes s) \<and>
     (\<forall>i<length (ns_nodes s). task_inv (ns_chans s i) (ns_nodes s ! i))"

lemmas node_defs = upd_node_def set_chan_def node_joins_def node_stops_def sender_stops_def

lemma ids_inv_append: "ids_inv k (ids @ [None]) \<longleftrightarrow> ids_inv k ids"
proof -
  have "(\<forall>i<length (ids @ [None]). \<forall>j<length (ids @ [None]). (ids @ [None]) ! i = (ids @ [None]) ! j \<longrightarrow> (ids @ [None]) ! i \<noteq> None \<longrightarrow> i = j) \<longleftrightarrow>
      (\<forall>i<length ids. \<forall>j<length ids. ids ! i = ids ! j \<longrightarrow> ids ! i \<noteq> None \<longrightarrow> i = j)"
    by (auto simp: nth_append less_Suc_eq)
  then show ?thesis by (simp add: ids_inv_def)
qed

lemma ids_inv_register:
  assumes "ids_inv k ids" "i < length ids" "ids ! i = None" "length ids < 2 ^ 64 - 1"
  shows "ids_inv (k + 1) (ids[i := Some k])"
proof -
  have n: "length (filter (\<lambda>x. x \<noteq> None) (ids[i := Some k])) = Suc (length (filter (\<lambda>x. x \<noteq> None) ids))"
    using length_filter_update [OF assms(2), of "\<lambda>x. x \<noteq> None" "Some k"] assms(3) by simp
  have "length (filter (\<lambda>x. x \<noteq> None) ids) < length ids"
    using nth_mem [OF assms(2)] assms(3) by (intro length_filter_less [of None]) simp_all
  moreover have "unat k = Suc (length (filter (\<lambda>x. x \<noteq> None) ids))" using assms(1) unfolding ids_inv_def by blast
  ultimately have lt: "Suc (unat k) < 2 ^ 64" using assms(4) by linarith
  then have k: "unat (k + 1) = Suc (unat k)" by (simp add: unat_word_ariths)
  have fresh: "Some k \<notin> set ids" using assms(1) by (auto simp: ids_inv_def)
  have "unat x < unat (k + 1)" if "Some x \<in> set (ids[i := Some k])" for x
    using set_update_subset_insert [of ids i "Some k"] that assms(1) k by (fastforce simp: ids_inv_def)
  moreover have "a = b" if "a < length ids" "b < length ids" "ids[i := Some k] ! a = ids[i := Some k] ! b" "ids[i := Some k] ! a \<noteq> None" for a b
    using that assms(1) fresh nth_mem [of a ids] nth_mem [of b ids]
    by (cases "a = i"; cases "b = i") (auto simp: ids_inv_def)
  ultimately show ?thesis using assms(1) n k by (simp add: ids_inv_def)
qed

lemma entries_update:
  assumes "entries_inv conns S" "i < length S" "entry i t = entry i (S ! i)"
  shows "entries_inv conns (S[i := t])"
proof -
  have "entry j (S[i := t] ! j) = entry j (S ! j)" if "j < length S" for j
    using that assms(3) by (cases "j = i") simp_all
  then show ?thesis using assms(1) by (simp add: entries_inv_def cong: conj_cong)
qed

lemma entries_append: "entries_inv conns S \<Longrightarrow> entry (length S) t = None \<Longrightarrow> entries_inv conns (S @ [t])"
  by (auto simp: entries_inv_def nth_append less_Suc_eq)

lemma entries_register:
  assumes "entries_inv conns S" "i < length S" "entry i (S ! i) = None" "entry i t = Some (k, c)"
    "\<And>j. j < length S \<Longrightarrow> nt_id (S ! j) \<noteq> Some k"
  shows "entries_inv (dinsert k c conns) (S[i := t])"
proof -
  have other: "entry j (S ! j) \<noteq> Some (k, d)" if "j < length S" for j d
    using assms(5) [OF that] by (auto simp: entry_def split: if_splits)
  have "dget (dinsert k c conns) k' = Some d \<longleftrightarrow> (\<exists>j<length S. entry j (S[i := t] ! j) = Some (k', d))" for k' d
  proof (cases "k' = k")
    case True
    then show ?thesis using assms(2,4) other by (auto simp: nth_list_update)
  next
    case False
    then have "entry j (S[i := t] ! j) = Some (k', d) \<longleftrightarrow> entry j (S ! j) = Some (k', d)" if "j < length S" for j
      using that assms(2-4) by (cases "j = i") simp_all
    then show ?thesis using False assms(1) by (auto simp: entries_inv_def)
  qed
  then show ?thesis using assms(1) by (simp add: entries_inv_def)
qed

lemma entries_unregister:
  assumes "entries_inv conns S" "i < length S" "nt_id (S ! i) = Some k" "entry i t = None"
    "\<And>j. j < length S \<Longrightarrow> nt_id (S ! j) = Some k \<Longrightarrow> j = i"
  shows "entries_inv (dremove k conns) (S[i := t])"
proof -
  have key: "nt_id (S ! j) = Some k'" if "entry j (S ! j) = Some (k', d)" for j k' d
    using that by (auto simp: entry_def split: if_splits)
  have "dget (dremove k conns) k' = Some d \<longleftrightarrow> (\<exists>j<length S. entry j (S[i := t] ! j) = Some (k', d))" for k' d
  proof (cases "k' = k")
    case True
    have "entry j (S[i := t] ! j) \<noteq> Some (k, d)" if "j < length S" for j
      using that assms(2,4) assms(5) [OF that] key [of j k d] by (cases "j = i") auto
    with True show ?thesis by auto
  next
    case False
    then have "entry j (S[i := t] ! j) = Some (k', d) \<longleftrightarrow> entry j (S ! j) = Some (k', d)" if "j < length S" for j
      using that assms(2-4) key [of i] by (cases "j = i") auto
    then show ?thesis using False assms(1) by (auto simp: entries_inv_def)
  qed
  then show ?thesis using assms(1) by (simp add: entries_inv_def)
qed

text \<open>A step of one session that does not touch the pool.\<close>

lemma session_update:
  assumes "sessions_inv s" "i < length (ns_nodes s)" "ns_nodes s' = (ns_nodes s)[i := t]" "ns_pool s' = ns_pool s"
    "\<And>j. j \<noteq> i \<Longrightarrow> ns_chans s' j = ns_chans s j" "nt_id t = nt_id (ns_nodes s ! i)"
    "entry i t = entry i (ns_nodes s ! i)" "task_inv (ns_chans s i) (ns_nodes s ! i) \<Longrightarrow> task_inv (ns_chans s' i) t"
  shows "sessions_inv s'"
proof -
  have ids: "map nt_id (ns_nodes s') = map nt_id (ns_nodes s)"
    unfolding assms(3) by (rule map_update_same [OF assms(2,6)])
  have "task_inv (ns_chans s' j) (ns_nodes s' ! j)" if "j < length (ns_nodes s')" for j
    using that assms(1,2,3,5,8) by (cases "j = i") (simp_all add: sessions_inv_def)
  moreover have "entries_inv (np_connections (ns_pool s)) (ns_nodes s')"
    using assms(1) unfolding assms(3) by (intro entries_update [OF _ assms(2,7)]) (simp add: sessions_inv_def)
  ultimately show ?thesis using assms(1) unfolding sessions_inv_def assms(4) ids by blast
qed

lemma session_chan:
  assumes "sessions_inv s" "i < length (ns_nodes s)" "nt_id (f (ns_nodes s ! i)) = nt_id (ns_nodes s ! i)"
    "entry i (f (ns_nodes s ! i)) = entry i (ns_nodes s ! i)"
    "task_inv (ns_chans s i) (ns_nodes s ! i) \<Longrightarrow> task_inv \<lparr>ch_queue = q, ch_open = alive\<rparr> (f (ns_nodes s ! i))"
  shows "sessions_inv (upd_node i f (set_chan i q alive s))"
  by (rule session_update [OF assms(1,2), where t = "f (ns_nodes s ! i)"]) (use assms(3-5) in \<open>simp_all add: node_defs\<close>)

lemma session_phase:
  assumes "sessions_inv s" "i < length (ns_nodes s)" "nt_id (f (ns_nodes s ! i)) = nt_id (ns_nodes s ! i)"
    "entry i (f (ns_nodes s ! i)) = entry i (ns_nodes s ! i)"
    "task_inv (ns_chans s i) (ns_nodes s ! i) \<Longrightarrow> task_inv (ns_chans s i) (f (ns_nodes s ! i))"
  shows "sessions_inv (upd_node i f s)"
  by (rule session_update [OF assms(1,2), where t = "f (ns_nodes s ! i)"]) (use assms(3-5) in \<open>simp_all add: node_defs\<close>)

lemma joins_inv:
  assumes "sessions_inv s" "few_nodes s" "i < length (ns_nodes s)" "nt_phase (ns_nodes s ! i) = Selecting"
  shows "sessions_inv (node_joins i g s)"
proof -
  let ?t = "(ns_nodes s ! i)\<lparr>nt_phase := Serving, nt_id := Some (np_next_id (ns_pool s)), nt_group := g, nt_tx_alive := True\<rparr>"
  let ?k = "np_next_id (ns_pool s)"
  have ids: "ids_inv ?k (map nt_id (ns_nodes s))" and ti: "task_inv (ns_chans s i) (ns_nodes s ! i)"
    using assms(1,3) by (simp_all add: sessions_inv_def)
  have none: "nt_id (ns_nodes s ! i) = None" "nt_wire (ns_nodes s ! i) = []" "nt_pings (ns_nodes s ! i) = []"
    using ti assms(4) by (simp_all add: task_inv_def)
  have "Some ?k \<notin> set (map nt_id (ns_nodes s))" using ids unfolding ids_inv_def by blast
  then have fresh: "nt_id (ns_nodes s ! j) \<noteq> Some ?k" if "j < length (ns_nodes s)" for j
    using that by (metis length_map nth_map nth_mem)
  have "entries_inv (dinsert ?k \<lparr>nc_node_id = ?k, nc_name = nt_name (ns_nodes s ! i), nc_group_id = g, nc_sender = i\<rparr>
      (np_connections (ns_pool s))) ((ns_nodes s)[i := ?t])"
    using assms(1,3,4) fresh by (intro entries_register) (simp_all add: sessions_inv_def entry_def)
  moreover have "ids_inv (?k + 1) (map nt_id ((ns_nodes s)[i := ?t]))"
    using ids_inv_register [OF ids, of i] assms(2,3) none by (simp add: few_nodes_def map_update)
  moreover have "task_inv \<lparr>ch_queue = [], ch_open = True\<rparr> ?t" using none by (simp add: task_inv_def)
  ultimately show ?thesis
    using assms(1,3)
    by (auto simp: sessions_inv_def node_defs np_register_def Let_def nth_list_update)
qed

lemma stops_inv:
  assumes "sessions_inv s" "i < length (ns_nodes s)" "nt_id (ns_nodes s ! i) = Some k"
  shows "sessions_inv (node_stops i k s)"
proof -
  let ?t = "(ns_nodes s ! i)\<lparr>nt_phase := Draining\<rparr>"
  have ids: "map nt_id ((ns_nodes s)[i := ?t]) = map nt_id (ns_nodes s)"
    by (rule map_update_same [OF assms(2)]) simp
  have "ids_inv (np_next_id (ns_pool s)) (map nt_id (ns_nodes s))" using assms(1) by (simp add: sessions_inv_def)
  then have "\<forall>a<length (ns_nodes s). \<forall>b<length (ns_nodes s).
      nt_id (ns_nodes s ! a) = nt_id (ns_nodes s ! b) \<longrightarrow> nt_id (ns_nodes s ! a) \<noteq> None \<longrightarrow> a = b"
    by (simp add: ids_inv_def)
  then have own: "j = i" if "j < length (ns_nodes s)" "nt_id (ns_nodes s ! j) = Some k" for j
    using that assms(2,3) by auto
  have "entries_inv (np_connections (ns_pool s)) (ns_nodes s)" using assms(1) by (simp add: sessions_inv_def)
  then have "entries_inv (dremove k (np_connections (ns_pool s))) ((ns_nodes s)[i := ?t])"
    by (rule entries_unregister [OF _ assms(2,3) _ own]) (simp add: entry_def)
  moreover have "task_inv (ns_chans s j) ((ns_nodes s)[i := ?t] ! j)" if "j < length (ns_nodes s)" for j
    using that assms by (cases "j = i") (auto simp: sessions_inv_def task_inv_def)
  ultimately have "ids_inv (np_next_id (ns_pool s)) (map nt_id ((ns_nodes s)[i := ?t])) \<and>
      entries_inv (dremove k (np_connections (ns_pool s))) ((ns_nodes s)[i := ?t]) \<and>
      (\<forall>j<length ((ns_nodes s)[i := ?t]). task_inv (ns_chans s j) ((ns_nodes s)[i := ?t] ! j))"
    using assms(1) unfolding ids sessions_inv_def length_list_update by blast
  then show ?thesis unfolding sessions_inv_def node_stops_def upd_node_def np_unregister_def by (simp del: map_update)
qed

lemma serve_channels:
  assumes "sessions_inv s" "i < length (ns_nodes s)" "nt_phase (ns_nodes s ! i) = Serving" "nt_id (ns_nodes s ! i) = Some k"
    "serve_message (ns_pool s) k msg (ns_chans s) = (True, chans)"
  shows "chans = (case msg of MsgPing data \<Rightarrow> snd (chan_send (ns_chans s) i (MsgPong data)) | _ \<Rightarrow> ns_chans s)"
proof -
  have "entry i (ns_nodes s ! i) = Some (k, \<lparr>nc_node_id = k, nc_name = nt_name (ns_nodes s ! i),
      nc_group_id = nt_group (ns_nodes s ! i), nc_sender = i\<rparr>)"
    using assms(3,4) by (simp add: entry_def)
  then have "np_get (ns_pool s) k = Some \<lparr>nc_node_id = k, nc_name = nt_name (ns_nodes s ! i),
      nc_group_id = nt_group (ns_nodes s ! i), nc_sender = i\<rparr>"
    using assms(1,2) unfolding np_get_def sessions_inv_def entries_inv_def by blast
  then show ?thesis using assms(5) by (auto simp: serve_message_def split: ws_msg.splits)
qed

lemma receives_inv:
  assumes "sessions_inv s" "i < length (ns_nodes s)" "nt_phase (ns_nodes s ! i) = Serving" "nt_id (ns_nodes s ! i) = Some k"
    "serve_message (ns_pool s) k msg (ns_chans s) = (True, chans)"
  shows "sessions_inv (upd_node i (\<lambda>t. t\<lparr>nt_pings := nt_pings t @ (case msg of MsgPing data \<Rightarrow> [data] | _ \<Rightarrow> [])\<rparr>) (s\<lparr>ns_chans := chans\<rparr>))"
proof (rule session_update [OF assms(1,2)])
  note c = serve_channels [OF assms]
  show "j \<noteq> i \<Longrightarrow> ns_chans (upd_node i (\<lambda>t. t\<lparr>nt_pings := nt_pings t @ (case msg of MsgPing data \<Rightarrow> [data] | _ \<Rightarrow> [])\<rparr>)
      (s\<lparr>ns_chans := chans\<rparr>)) j = ns_chans s j" for j
    by (simp add: c upd_node_def chan_send_def split: ws_msg.split)
  show "task_inv (ns_chans s i) (ns_nodes s ! i) \<Longrightarrow>
    task_inv (ns_chans (upd_node i (\<lambda>t. t\<lparr>nt_pings := nt_pings t @ (case msg of MsgPing data \<Rightarrow> [data] | _ \<Rightarrow> [])\<rparr>)
      (s\<lparr>ns_chans := chans\<rparr>)) i)
      ((ns_nodes s ! i)\<lparr>nt_pings := nt_pings (ns_nodes s ! i) @ (case msg of MsgPing data \<Rightarrow> [data] | _ \<Rightarrow> [])\<rparr>)"
    using assms(3,4) by (auto simp: c upd_node_def chan_send_def task_inv_def split: ws_msg.split)
qed (simp_all add: upd_node_def entry_def)

lemma node_step_inv:
  "node_step X s t \<Longrightarrow> few_nodes t \<Longrightarrow> sessions_inv s \<Longrightarrow> sessions_inv t"
proof (induction rule: node_step.induct)
  case (arrives s name)
  have "entries_inv (np_connections (ns_pool s)) (ns_nodes s @ [new_node name])"
    using arrives.prems(2) by (intro entries_append) (simp_all add: sessions_inv_def entry_def new_node_def)
  then show ?case
    using arrives.prems(2) ids_inv_append by (auto simp: sessions_inv_def new_node_def nth_append less_Suc_eq task_inv_def)
next
  case (selects i s msg group_id)
  have "few_nodes s" using selects.prems(1) by (simp add: few_nodes_def node_defs split: prod.splits)
  with selects show ?case by (simp add: joins_inv)
next
  case (receives i s node_id msg chans)
  then show ?case by (intro receives_inv)
next
  case (stops i s node_id)
  then show ?case by (intro stops_inv)
next
  case (sends i s msg msgs)
  then show ?case by (intro session_chan) (auto simp: entry_def task_inv_def)
next
  case (send_fails i s msg msgs)
  then show ?case unfolding sender_stops_def by (intro session_chan) (auto simp: entry_def task_inv_def)
next
  case (channel_closed i s)
  then show ?case unfolding sender_stops_def by (intro session_chan) (auto simp: entry_def task_inv_def)
qed (rule session_phase; auto simp: entry_def task_inv_def)+

lemma node_step_few: "node_step X s t \<Longrightarrow> few_nodes t \<Longrightarrow> few_nodes s"
  by (induction rule: node_step.induct) (simp_all add: few_nodes_def node_defs split: prod.splits)

interpretation nodes: invariant_system nodes_init "node_step X" "\<lambda>s. few_nodes s \<longrightarrow> sessions_inv s" for X
proof
  show "nodes_init s \<Longrightarrow> few_nodes s \<longrightarrow> sessions_inv s" for s
    by (simp add: nodes_init_def sessions_inv_def np_new_def ids_inv_def entries_inv_def)
qed (blast intro: node_step_inv node_step_few)

section \<open>Sessions of nodes that have left\<close>

text \<open>The steps a session that has unregistered its node has left at most.\<close>

definition drain_left :: "nodes_state \<Rightarrow> nat \<Rightarrow> nat" where
  "drain_left s i = (if nt_phase (ns_nodes s ! i) = Draining
     then if nt_tx_alive (ns_nodes s ! i) then 2 + length (ch_queue (ns_chans s i)) else 1 else 0)"

lemma draining_steps:
  assumes "sessions_inv s" "i < length (ns_nodes s)" "nt_phase (ns_nodes s ! i) = Draining"
  shows "\<exists>t. node_step X s t \<and> drain_left t i < drain_left s i"
proof (cases "nt_tx_alive (ns_nodes s ! i)")
  case False
  show ?thesis
    by (rule exI, rule conjI, rule node_step.joins [OF assms(2,3) False]) (use assms False in \<open>simp add: drain_left_def node_defs\<close>)
next
  case True
  show ?thesis
  proof (cases "ch_queue (ns_chans s i)")
    case Nil
    have out: "i \<notin> nc_sender ` ran (dget (np_connections (ns_pool s)))"
      using assms(1,3) by (auto simp: sessions_inv_def entries_inv_def ran_def entry_def split: if_splits)
    show ?thesis
      by (rule exI, rule conjI, rule node_step.channel_closed [OF assms(2) True Nil out])
        (use assms True in \<open>simp add: drain_left_def node_defs\<close>)
  next
    case (Cons msg msgs)
    show ?thesis
      by (rule exI, rule conjI, rule node_step.sends [OF assms(2) True Cons])
        (use assms True Cons in \<open>simp add: drain_left_def node_defs\<close>)
  qed
qed

lemma draining_undisturbed:
  assumes "sessions_inv s" "node_step X s t" "i < length (ns_nodes s)" "nt_phase (ns_nodes s ! i) = Draining"
  shows "i < length (ns_nodes t) \<and> (drain_left t i < drain_left s i \<or> ns_nodes t ! i = ns_nodes s ! i \<and> ns_chans t i = ns_chans s i)"
  using assms(2)
proof (cases rule: node_step.cases)
  case (receives j node_id msg chans)
  have "j \<noteq> i" using receives(3) assms(4) by auto
  with receives(1) serve_channels [OF assms(1) receives(2-5)] assms(3) show ?thesis
    by (simp add: node_defs chan_send_def split: ws_msg.split)
qed (use assms(3,4) in \<open>auto simp: drain_left_def node_defs nth_append nth_list_update split: prod.splits\<close>)

section \<open>Properties\<close>

text \<open>C29. Reverse-connected exit nodes do not disturb each other: however the sessions of any number of nodes (fewer
  than \<open>2^64 - 1\<close>) interleave, the pool has exactly the nodes whose sessions serve them, under the name
  and group they gave and with their own channel; no two sessions have the same id; a group lists each of its nodes
  once; what is sent to a node, followed by what waits for it, are the answers to its own pings in order, or
  the first of them when its sending task has ended.\<close>

theorem reverse_nodes_isolated:
  assumes "reach nodes_init (node_step X) s" and "length (ns_nodes s) < 2 ^ 64 - 1"
  shows "(\<forall>k c. np_get (ns_pool s) k = Some c \<longleftrightarrow> (\<exists>i<length (ns_nodes s). let t = ns_nodes s ! i in
       nt_phase t = Serving \<and> nt_id t = Some k \<and>
       c = \<lparr>nc_node_id = k, nc_name = nt_name t, nc_group_id = nt_group t, nc_sender = i\<rparr>)) \<and>
    (\<forall>i<length (ns_nodes s). \<forall>j<length (ns_nodes s).
       nt_id (ns_nodes s ! i) = nt_id (ns_nodes s ! j) \<longrightarrow> nt_id (ns_nodes s ! i) \<noteq> None \<longrightarrow> i = j) \<and>
    (\<forall>g. distinct (get_group_nodes (ns_pool s) g) \<and>
       set (get_group_nodes (ns_pool s) g) = {k. \<exists>t\<in>set (ns_nodes s). nt_phase t = Serving \<and> nt_id t = Some k \<and> nt_group t = g}) \<and>
    (\<forall>i<length (ns_nodes s). let t = ns_nodes s ! i in
       if nt_tx_alive t then nt_wire t @ ch_queue (ns_chans s i) = map MsgPong (nt_pings t)
       else \<exists>rest. nt_wire t @ rest = map MsgPong (nt_pings t))"
proof -
  have inv: "sessions_inv s" using nodes.reach_inv [OF assms(1)] assms(2) by (simp add: few_nodes_def)
  have e: "dwf (np_connections (ns_pool s))"
    "np_get (ns_pool s) k = Some c \<longleftrightarrow> (\<exists>i<length (ns_nodes s). entry i (ns_nodes s ! i) = Some (k, c))" for k c
    using inv by (simp_all add: sessions_inv_def entries_inv_def np_get_def)
  have entry: "entry i t = Some (k, c) \<longleftrightarrow> nt_phase t = Serving \<and> nt_id t = Some k \<and>
      c = \<lparr>nc_node_id = k, nc_name = nt_name t, nc_group_id = nt_group t, nc_sender = i\<rparr>" for i t k c
    by (auto simp: entry_def)
  have "set (get_group_nodes (ns_pool s) g) = {k. \<exists>t\<in>set (ns_nodes s). nt_phase t = Serving \<and> nt_id t = Some k \<and> nt_group t = g}" for g
    unfolding set_get_group_nodes [OF e(1)] e(2) entry by (fastforce simp: in_set_conv_nth)
  moreover have "\<forall>i<length (ns_nodes s). \<forall>j<length (ns_nodes s).
      nt_id (ns_nodes s ! i) = nt_id (ns_nodes s ! j) \<longrightarrow> nt_id (ns_nodes s ! i) \<noteq> None \<longrightarrow> i = j"
    using inv by (simp add: sessions_inv_def ids_inv_def)
  moreover have "let t = ns_nodes s ! i in
      if nt_tx_alive t then nt_wire t @ ch_queue (ns_chans s i) = map MsgPong (nt_pings t)
      else \<exists>rest. nt_wire t @ rest = map MsgPong (nt_pings t)" if "i < length (ns_nodes s)" for i
    using inv that unfolding sessions_inv_def task_inv_def Let_def by metis
  ultimately show ?thesis
    using distinct_group_nodes [OF e(1)] unfolding e(2) entry Let_def by blast
qed

text \<open>C30. The sessions of exit nodes end, other than those of clients: once a node has left and is taken out of the
  pool, the only sender of its channel is gone, so its session can always make a step towards its end, no other
  task sets it back, and it has at most as many steps as its channel has messages, and two more.\<close>

theorem reverse_sessions_end:
  assumes "reach nodes_init (node_step X) s" and "length (ns_nodes s) < 2 ^ 64 - 1"
    and "i < length (ns_nodes s)" and "nt_phase (ns_nodes s ! i) = Draining"
  shows "(\<exists>t. node_step X s t \<and> drain_left t i < drain_left s i) \<and>
    (\<forall>t. node_step X s t \<longrightarrow> drain_left t i < drain_left s i \<or>
       ns_nodes t ! i = ns_nodes s ! i \<and> ns_chans t i = ns_chans s i) \<and>
    0 < drain_left s i \<and> drain_left s i \<le> length (ch_queue (ns_chans s i)) + 2"
proof -
  have inv: "sessions_inv s" using nodes.reach_inv [OF assms(1)] assms(2) by (simp add: few_nodes_def)
  have "0 < drain_left s i \<and> drain_left s i \<le> length (ch_queue (ns_chans s i)) + 2"
    using assms(4) by (simp add: drain_left_def)
  with draining_steps [OF inv assms(3,4)] draining_undisturbed [OF inv _ assms(3,4)] show ?thesis by blast
qed

text \<open>A node that joins a group, is pinged and leaves.\<close>

definition demo_node :: "node_phase \<Rightarrow> nodes_state" where
  "demo_node ph = \<lparr>ns_pool = np_new, ns_chans = (\<lambda>_. \<lparr>ch_queue = [], ch_open = False\<rparr>),
     ns_nodes = [(new_node ''n'')\<lparr>nt_phase := ph\<rparr>]\<rparr>"

definition demo_pinged :: nodes_state where
  "demo_pinged = (let s = node_joins 0 1 (demo_node Selecting) in
     upd_node 0 (\<lambda>t. t\<lparr>nt_pings := [[7]]\<rparr>) (s\<lparr>ns_chans := snd (chan_send (ns_chans s) 0 (MsgPong [7]))\<rparr>))"

lemma demo_node_counts:
  "length ns < 3 \<Longrightarrow> reach nodes_init (node_step X) (demo_node (Counting ns)) \<Longrightarrow>
     reach nodes_init (node_step X) (demo_node (Counting (ns @ [0])))"
  using node_step.counts [of 0 "demo_node (Counting ns)" ns X]
  by (elim reach.after_step [where step = "node_step X"])
    (simp add: demo_node_def node_defs count_group_def get_group_nodes_def np_new_def dempty_def)

lemma demo_node_selecting: "reach nodes_init (node_step demo_negotiation) (demo_node Selecting)"
proof -
  let ?reach = "reach nodes_init (node_step demo_negotiation)"
  let ?s = "(demo_node Selecting)\<lparr>ns_nodes := []\<rparr>"
  have "?reach ?s" by (rule reach.at_start) (simp add: nodes_init_def demo_node_def)
  then have "?reach (?s\<lparr>ns_nodes := ns_nodes ?s @ [new_node ''n'']\<rparr>)"
    by (rule reach.after_step) (rule node_step.arrives)
  then have "?reach (demo_node (Counting []))" by (simp add: demo_node_def new_node_def)
  from demo_node_counts [OF _ demo_node_counts [OF _ demo_node_counts [OF _ this]]]
  have "?reach (demo_node (Counting [0, 0, 0]))" by simp
  moreover have "group_infos [0, 0, 0] = offered_groups np_new"
    by (simp add: offered_groups_counts count_group_def get_group_nodes_def np_new_def dempty_def)
  then have "node_step demo_negotiation (demo_node (Counting [0, 0, 0])) (demo_node Selecting)"
    using node_step.offers [of 0 "demo_node (Counting [0, 0, 0])" "[0, 0, 0]" demo_negotiation "[]"]
    by (simp add: demo_node_def node_defs demo_negotiation_def)
  ultimately show ?thesis by (rule reach.after_step)
qed

lemma demo_pinged_reach: "reach nodes_init (node_step demo_negotiation) demo_pinged"
proof -
  let ?reach = "reach nodes_init (node_step demo_negotiation)" and ?s = "node_joins 0 1 (demo_node Selecting)"
  have "select_message demo_negotiation (MsgBinary (u32_to_le 1)) = Selected 1"
  proof -
    have "u32_to_le (1 :: u32) \<noteq> []" by (metis length_u32_to_le list.size(3) zero_neq_numeral)
    then show ?thesis by (simp add: select_message_def demo_negotiation_def)
  qed
  then have "?reach ?s"
    by (intro reach.after_step [OF demo_node_selecting] node_step.selects) (simp_all add: demo_node_def)
  moreover have "node_step demo_negotiation ?s demo_pinged"
  proof -
    have "serve_message (ns_pool ?s) 1 (MsgPing [7]) (ns_chans ?s) = (True, snd (chan_send (ns_chans ?s) 0 (MsgPong [7])))"
      by (simp add: serve_message_def node_defs demo_node_def np_register_def np_new_def np_get_def Let_def)
    from node_step.receives [OF _ _ _ this, of 0] show ?thesis
      by (simp add: demo_pinged_def node_defs demo_node_def new_node_def np_register_def np_new_def Let_def)
  qed
  ultimately show ?thesis by (rule reach.after_step)
qed

theorem reverse_nodes_isolated_witness:
  "get_group_nodes (ns_pool demo_pinged) 1 = [1] \<and> set (get_group_nodes (ns_pool demo_pinged) 2) = {} \<and>
   ch_queue (ns_chans demo_pinged 0) = [MsgPong [7]]"
proof -
  have d: "ns_nodes demo_pinged = [(new_node ''n'')\<lparr>nt_phase := Serving, nt_id := Some 1, nt_group := 1, nt_tx_alive := True, nt_pings := [[7]]\<rparr>]"
    by (simp add: demo_pinged_def node_defs demo_node_def new_node_def np_register_def np_new_def Let_def)
  have "length (ns_nodes demo_pinged) < 2 ^ 64 - 1" by (simp add: d)
  note iso = reverse_nodes_isolated [OF demo_pinged_reach this]
  have "nt_wire (ns_nodes demo_pinged ! 0) @ ch_queue (ns_chans demo_pinged 0) = map MsgPong (nt_pings (ns_nodes demo_pinged ! 0))"
    using iso [THEN conjunct2, THEN conjunct2, THEN conjunct2] by (simp add: d)
  moreover have single: "ys = [x]" if "distinct ys \<and> set ys = {x}" for ys and x :: u64
  proof (cases ys)
    case (Cons y zs)
    with that have "y = x" "set zs \<subseteq> {x}" "x \<notin> set zs" by auto
    with Cons show ?thesis by (cases zs) auto
  qed (use that in simp)
  moreover have "distinct (get_group_nodes (ns_pool demo_pinged) g) \<and> set (get_group_nodes (ns_pool demo_pinged) g) = (if g = 1 then {1} else {})" for g
    using iso [THEN conjunct2, THEN conjunct2, THEN conjunct1] by (auto simp: d)
  then have "get_group_nodes (ns_pool demo_pinged) 1 = [1]" "set (get_group_nodes (ns_pool demo_pinged) 2) = {}"
    by (metis single, simp)
  ultimately show ?thesis by (simp add: d new_node_def)
qed

theorem reverse_sessions_end_witness:
  "drain_left (node_stops 0 1 demo_pinged) 0 = 3 \<and> (\<exists>t. node_step demo_negotiation (node_stops 0 1 demo_pinged) t \<and> drain_left t 0 < 3)"
proof -
  let ?s = "node_stops 0 1 demo_pinged"
  have d: "nt_phase (ns_nodes demo_pinged ! 0) = Serving" "nt_id (ns_nodes demo_pinged ! 0) = Some 1" "length (ns_nodes demo_pinged) = 1"
    by (simp_all add: demo_pinged_def node_defs demo_node_def new_node_def np_register_def np_new_def Let_def)
  have r: "reach nodes_init (node_step demo_negotiation) ?s"
    by (rule reach.after_step [OF demo_pinged_reach node_step.stops]) (simp_all add: d)
  have s: "length (ns_nodes ?s) < 2 ^ 64 - 1" "0 < length (ns_nodes ?s)" "nt_phase (ns_nodes ?s ! 0) = Draining" "drain_left ?s 0 = 3"
    by (simp_all add: drain_left_def demo_pinged_def node_defs demo_node_def new_node_def np_register_def np_new_def Let_def chan_send_def)
  from reverse_sessions_end [OF r s(1-3)] s(4) show ?thesis by simp
qed

end
