(* ===== verification/Pool_Tasks.thy ===== *)
theory Pool_Tasks
  imports Exit_Pool "HOL-Library.Multiset"
begin

text \<open>
  The tasks that share an exit pool, \<^verbatim>\<open>transport/src/exit_pool.rs\<close> and \<^verbatim>\<open>exit_client.rs\<close>: every session
  forwards packets, the health checker visits all nodes, and each node has a subscription. \<open>Exit_Pool\<close> has each
  operation as a function; here they are interleaved. \<^verbatim>\<open>forward\<close> and \<^verbatim>\<open>health_check_all\<close> hold the read lock of
  the groups until they return, so several of them run at a time; \<^verbatim>\<open>add_node\<close> takes the write lock
  for as long as it changes the map. What readers change are atomics: the counter of the rotation and
  the flag of a node. The loop of \<^verbatim>\<open>forward\<close> loads the flag, calls the client, which loads it again, and
  waits for the answer to its request: these are three steps.
\<close>

section \<open>A call of forward\<close>

datatype forward_phase = Choosing | Calling | Sending bytes | Ended "(unit, ExitClientError) result"

text \<open>Why a node was passed over.\<close>

datatype refusal = NotHealthy | NotSerialised | NotAccepted

text \<open>The history of a call is the number of nodes its group had and the nodes it passed over.\<close>

record forward_task =
  fw_packet :: PlainPacket
  fw_group :: i32
  fw_start :: nat
  fw_attempts :: nat
  fw_phase :: forward_phase
  fw_nodes :: nat
  fw_tried :: "(nat \<times> refusal) list"

fun running :: "forward_phase \<Rightarrow> bool" where
  "running (Ended _) = False"
| "running _ = True"

definition next_node :: "nat \<Rightarrow> refusal \<Rightarrow> forward_task \<Rightarrow> forward_task" where
  "next_node index why f =
     f\<lparr>fw_attempts := fw_attempts f + 1, fw_phase := Choosing, fw_tried := fw_tried f @ [(index, why)]\<rparr>"

definition forward_turn ::
  "'w http_ext \<Rightarrow> pkt_ext \<Rightarrow> ExitClient list \<Rightarrow> forward_task \<Rightarrow> 'w \<Rightarrow> forward_task \<times> ExitClient list \<times> 'w" where
  "forward_turn H P clients f w =
     (let index = (fw_start f + fw_attempts f) mod length clients; client = clients ! index in
      case fw_phase f of
        Choosing \<Rightarrow>
          if fw_attempts f < length clients
          then if ex_is_healthy client then (f\<lparr>fw_phase := Calling\<rparr>, clients, w)
               else (next_node index NotHealthy f, clients, w)
          else (f\<lparr>fw_phase := Ended (Err (ExitConnectionFailed ''All exit nodes failed''))\<rparr>, clients, w)
      | Calling \<Rightarrow>
          if \<not> ex_is_healthy client then (next_node index NotHealthy f, clients, w)
          else (case px_to_bytes P (fw_packet f) of
                  Err e \<Rightarrow> (next_node index NotSerialised f, clients, w)
                | Ok b \<Rightarrow> (f\<lparr>fw_phase := Sending b\<rparr>, clients, w))
      | Sending b \<Rightarrow>
          (case hx_post H (ex_base_url client @ ''/forward'') b w of
             (Err e, w') \<Rightarrow> (next_node index NotAccepted f, clients[index := mark_unhealthy client], w')
           | (Ok status, w') \<Rightarrow>
               if http_success status then (f\<lparr>fw_phase := Ended (Ok ())\<rparr>, clients, w')
               else (next_node index NotAccepted f, clients, w'))
      | Ended _ \<Rightarrow> (f, clients, w))"

text \<open>The steps a call has left at most.\<close>

definition steps_left :: "forward_task \<Rightarrow> nat" where
  "steps_left f = (case fw_phase f of
     Ended _ \<Rightarrow> 0
   | Choosing \<Rightarrow> 3 * (fw_nodes f - fw_attempts f) + 1
   | Calling \<Rightarrow> 3 * (fw_nodes f - fw_attempts f)
   | Sending _ \<Rightarrow> 3 * (fw_nodes f - fw_attempts f) - 1)"

definition forward_ok :: "pkt_ext \<Rightarrow> forward_task \<Rightarrow> bool" where
  "forward_ok P f \<longleftrightarrow> fw_start f < fw_nodes f \<and> fw_attempts f \<le> fw_nodes f \<and>
     map fst (fw_tried f) = map (\<lambda>k. (fw_start f + k) mod fw_nodes f) [0..<fw_attempts f] \<and>
     (case fw_phase f of
        Choosing \<Rightarrow> True
      | Calling \<Rightarrow> fw_attempts f < fw_nodes f
      | Sending b \<Rightarrow> fw_attempts f < fw_nodes f \<and> px_to_bytes P (fw_packet f) = Ok b
      | Ended (Ok _) \<Rightarrow> fw_attempts f < fw_nodes f \<and> is_ok (px_to_bytes P (fw_packet f))
      | Ended (Err e) \<Rightarrow> fw_attempts f = fw_nodes f \<and> e = ExitConnectionFailed ''All exit nodes failed'')"

lemma next_node_ok:
  assumes "forward_ok P f" "fw_attempts f < fw_nodes f" "running (fw_phase f)"
  shows "forward_ok P (next_node ((fw_start f + fw_attempts f) mod fw_nodes f) why f)"
  using assms by (simp add: forward_ok_def next_node_def)

lemma next_node_left:
  "fw_attempts f < fw_nodes f \<Longrightarrow> running (fw_phase f) \<Longrightarrow> steps_left (next_node index why f) < steps_left f"
  by (cases "fw_phase f") (auto simp: next_node_def steps_left_def)

lemma next_node_keeps [simp]:
  "fw_packet (next_node i why f) = fw_packet f" "fw_group (next_node i why f) = fw_group f"
  "fw_start (next_node i why f) = fw_start f" "fw_nodes (next_node i why f) = fw_nodes f"
  by (simp_all add: next_node_def)

text \<open>A turn keeps the call well-formed and brings it closer to its end.\<close>

lemma forward_turn_ok:
  assumes "forward_ok P f" "running (fw_phase f)" "length clients = fw_nodes f"
    "forward_turn H P clients f w = (f', cs, w')"
  shows "forward_ok P f' \<and> steps_left f' < steps_left f \<and> map ex_config cs = map ex_config clients \<and>
    fw_packet f' = fw_packet f \<and> fw_group f' = fw_group f \<and> fw_start f' = fw_start f \<and> fw_nodes f' = fw_nodes f"
proof -
  let ?i = "(fw_start f + fw_attempts f) mod fw_nodes f"
  note adv = next_node_ok [OF assms(1) _ assms(2)] next_node_left [OF _ assms(2)]
  have i: "?i < length clients" using assms(1,3) by (simp add: forward_ok_def)
  then have m: "map ex_config (clients[?i := mark_unhealthy (clients ! ?i)]) = map ex_config clients"
    by (intro map_update_same) (simp_all add: mark_unhealthy_def)
  show ?thesis
  proof (cases "fw_phase f")
    case Choosing
    then show ?thesis
      using assms adv by (auto simp: forward_turn_def forward_ok_def steps_left_def Let_def split: if_splits)
  next
    case Calling
    then have "fw_attempts f < fw_nodes f" using assms(1) by (simp add: forward_ok_def)
    then show ?thesis
      using assms(1,3,4) Calling adv by (auto simp: forward_turn_def forward_ok_def steps_left_def Let_def split: if_splits result.splits)
  next
    case (Sending b)
    then have "fw_attempts f < fw_nodes f" using assms(1) by (simp add: forward_ok_def)
    then show ?thesis
      using assms(1,3,4) Sending adv m
      by (auto simp: forward_turn_def forward_ok_def steps_left_def Let_def split: if_splits result.splits prod.splits)
  qed (use assms(2) in simp)
qed

text \<open>The request a turn makes, and whether it was accepted.\<close>

definition turn_request :: "forward_task \<Rightarrow> forward_task \<Rightarrow> (bytes \<times> bool) list" where
  "turn_request f f' = (case fw_phase f of Sending b \<Rightarrow> [(b, fw_phase f' = Ended (Ok ()))] | _ \<Rightarrow> [])"

lemma forward_turn_request:
  assumes "http_logs H requests" "forward_turn H P clients f w = (f', cs, w')"
  shows "requests w' = requests w @ turn_request f f'"
proof (cases "fw_phase f")
  case (Sending b)
  let ?c = "clients ! ((fw_start f + fw_attempts f) mod length clients)"
  obtain r w1 where p: "hx_post H (ex_base_url ?c @ ''/forward'') b w = (r, w1)" by force
  with assms(1) have "requests w1 = requests w @ [(b, accepted_answer r)]"
    unfolding http_logs_def by blast
  with p Sending assms(2) show ?thesis
    by (auto simp: forward_turn_def turn_request_def next_node_def accepted_answer_def Let_def split: result.splits if_splits)
qed (use assms(2) in \<open>auto simp: forward_turn_def turn_request_def Let_def split: result.splits if_splits\<close>)

text \<open>The requests of a call: one for each node passed over because it did not accept, and one that was accepted when the
  call has ended well.\<close>

definition not_accepted :: "forward_task \<Rightarrow> nat" where
  "not_accepted f = length (filter (\<lambda>x. snd x = NotAccepted) (fw_tried f))"

definition requests_of :: "pkt_ext \<Rightarrow> forward_task \<Rightarrow> (bytes \<times> bool) list" where
  "requests_of P f = (case px_to_bytes P (fw_packet f) of
     Ok b \<Rightarrow> if fw_phase f = Ended (Ok ()) then tries (not_accepted f) b else replicate (not_accepted f) (b, False)
   | Err _ \<Rightarrow> [])"

text \<open>A packet that cannot be serialised is never sent.\<close>

definition unsent_ok :: "pkt_ext \<Rightarrow> forward_task \<Rightarrow> bool" where
  "unsent_ok P f \<longleftrightarrow> (is_ok (px_to_bytes P (fw_packet f)) \<or> not_accepted f = 0)"

lemma turn_requests_of:
  assumes "forward_ok P f" "unsent_ok P f" "running (fw_phase f)" "forward_turn H P clients f w = (f', cs, w')"
  shows "requests_of P f' = requests_of P f @ turn_request f f' \<and> unsent_ok P f'"
  using assms
  by (cases "fw_phase f")
    (auto simp: forward_turn_def turn_request_def requests_of_def unsent_ok_def not_accepted_def forward_ok_def next_node_def tries_def Let_def
      replicate_append_same [symmetric] split: if_splits result.splits prod.splits)

section \<open>The tasks of a pool\<close>

record 'w pool_tasks =
  pt_pool :: ExitPool
  pt_forwards :: "forward_task list"
  pt_round :: "(i32 \<times> nat) list"
  pt_world :: 'w
  pt_requests :: "(nat \<times> bytes \<times> bool) list"

definition group_nodes :: "ExitPool \<Rightarrow> i32 \<Rightarrow> ExitClient list" where
  "group_nodes p gid = (case dget (xp_groups p) gid of None \<Rightarrow> [] | Some g \<Rightarrow> gp_clients g)"

definition set_group_nodes :: "ExitPool \<Rightarrow> i32 \<Rightarrow> ExitClient list \<Rightarrow> ExitPool" where
  "set_group_nodes p gid clients = (case dget (xp_groups p) gid of
     None \<Rightarrow> p
   | Some g \<Rightarrow> p\<lparr>xp_groups := dinsert gid (g\<lparr>gp_clients := clients\<rparr>) (xp_groups p)\<rparr>)"

definition all_nodes :: "ExitPool \<Rightarrow> (i32 \<times> nat) list" where
  "all_nodes p = concat (map (\<lambda>(k, g). map (Pair k) [0..<length (gp_clients g)]) (xp_groups p))"

text \<open>The first part of \<^verbatim>\<open>forward\<close>: the counter is read and advanced at once.\<close>

definition call_begin :: "'w pool_tasks \<Rightarrow> PlainPacket \<Rightarrow> i32 \<Rightarrow> GroupPool \<Rightarrow> 'w pool_tasks" where
  "call_begin s packet gid g = s
     \<lparr>pt_pool := (pt_pool s)\<lparr>xp_groups := dinsert gid (g\<lparr>gp_next_index := gp_next_index g + 1\<rparr>) (xp_groups (pt_pool s))\<rparr>,
      pt_forwards := pt_forwards s @ [\<lparr>fw_packet = packet, fw_group = gid,
        fw_start = unat (gp_next_index g) mod length (gp_clients g), fw_attempts = 0, fw_phase = Choosing,
        fw_nodes = length (gp_clients g), fw_tried = []\<rparr>]\<rparr>"

definition found_group :: "ExitPool \<Rightarrow> i32 \<Rightarrow> i32" where
  "found_group p group_id = (if dget (xp_groups p) group_id \<noteq> None then group_id else 0)"

text \<open>A round of health checks visits the nodes in the order of the hash map, which may be any. A
  subscription sets or clears the flag of its node when it connects; where it gives its packets is
  of no concern here. A node can be added when no reader has the lock.\<close>

inductive pool_step :: "'w http_ext \<Rightarrow> pkt_ext \<Rightarrow> 'w pool_tasks \<Rightarrow> 'w pool_tasks \<Rightarrow> bool" for H P where
  begins: "dget (xp_groups (pt_pool s)) (found_group (pt_pool s) group_id) = Some g \<Longrightarrow> gp_clients g \<noteq> [] \<Longrightarrow>
     pool_step H P s (call_begin s packet (found_group (pt_pool s) group_id) g)"
| turns: "j < length (pt_forwards s) \<Longrightarrow> f = pt_forwards s ! j \<Longrightarrow> running (fw_phase f) \<Longrightarrow>
     forward_turn H P (group_nodes (pt_pool s) (fw_group f)) f (pt_world s) = (f', clients, w) \<Longrightarrow>
     pool_step H P s (s\<lparr>pt_pool := set_group_nodes (pt_pool s) (fw_group f) clients,
       pt_forwards := (pt_forwards s)[j := f'], pt_world := w, pt_requests := pt_requests s @ map (Pair j) (turn_request f f')\<rparr>)"
| round_begins: "pt_round s = [] \<Longrightarrow> mset nodes = mset (all_nodes (pt_pool s)) \<Longrightarrow>
     pool_step H P s (s\<lparr>pt_round := nodes\<rparr>)"
| checks: "pt_round s = (gid, i) # rest \<Longrightarrow> i < length (group_nodes (pt_pool s) gid) \<Longrightarrow>
     ex_health_check H (group_nodes (pt_pool s) gid ! i) (pt_world s) = (answer, client, w) \<Longrightarrow>
     pool_step H P s (s\<lparr>pt_pool := set_group_nodes (pt_pool s) gid ((group_nodes (pt_pool s) gid)[i := client]),
       pt_round := rest, pt_world := w\<rparr>)"
| subscribes: "i < length (group_nodes (pt_pool s) gid) \<Longrightarrow>
     subscribe_turn P (\<lambda>_ _. ()) resp (group_nodes (pt_pool s) gid ! i) backoff () = (delay, backoff', client, u) \<Longrightarrow>
     pool_step H P s (s\<lparr>pt_pool := set_group_nodes (pt_pool s) gid ((group_nodes (pt_pool s) gid)[i := client])\<rparr>)"
| adds: "\<forall>f\<in>set (pt_forwards s). \<not> running (fw_phase f) \<Longrightarrow> pt_round s = [] \<Longrightarrow>
     add_node H (pt_pool s) url group_id = (res, p) \<Longrightarrow> pool_step H P s (s\<lparr>pt_pool := p\<rparr>)"

inductive_cases pool_stepE: "pool_step H P s t"

section \<open>The invariant\<close>

text \<open>The number of nodes of a group and its counter.\<close>

definition pool_shape :: "ExitPool \<Rightarrow> i32 \<Rightarrow> (nat \<times> u64) option" where
  "pool_shape p gid = map_option (\<lambda>g. (length (gp_clients g), gp_next_index g)) (dget (xp_groups p) gid)"

lemma pool_shape_nodes: "pool_shape p gid = Some (n, x) \<Longrightarrow> length (group_nodes p gid) = n"
  by (auto simp: pool_shape_def group_nodes_def)

lemma set_group_nodes_shape:
  "length clients = length (group_nodes p gid) \<Longrightarrow> pool_shape (set_group_nodes p gid clients) = pool_shape p"
  by (rule ext) (auto simp: pool_shape_def set_group_nodes_def group_nodes_def split: option.split)

lemma call_begin_shape:
  "dget (xp_groups (pt_pool s)) gid = Some g \<Longrightarrow>
   pool_shape (pt_pool (call_begin s packet gid g)) = (pool_shape (pt_pool s))(gid \<mapsto> (length (gp_clients g), gp_next_index g + 1))"
  by (rule ext) (auto simp: pool_shape_def call_begin_def)

lemma add_node_shape:
  assumes "add_node H p url group_id = (res, p')"
  shows "pool_shape p' = pool_shape p \<or>
    (\<exists>n x. pool_shape p' = (pool_shape p)(group_id \<mapsto> (n, x)) \<and>
       (case pool_shape p group_id of None \<Rightarrow> x = 0 | Some (_, y) \<Rightarrow> x = y))"
proof (cases "ex_new H (client_config (xp_config p) url)")
  case (Ok client)
  let ?g = "case dget (xp_groups p) group_id of Some g \<Rightarrow> g | None \<Rightarrow> \<lparr>gp_clients = [], gp_next_index = 0\<rparr>"
  have "pool_shape p' = (pool_shape p)(group_id \<mapsto> (length (gp_clients ?g) + 1, gp_next_index ?g))"
    using assms Ok by (intro ext) (auto simp: add_node_def pool_shape_def Let_def)
  moreover have "case pool_shape p group_id of None \<Rightarrow> gp_next_index ?g = 0 | Some (_, y) \<Rightarrow> gp_next_index ?g = y"
    by (auto simp: pool_shape_def split: option.split)
  ultimately show ?thesis by blast
qed (use assms in \<open>simp add: add_node_def\<close>)

text \<open>Each call is well-formed and has the nodes its group has.\<close>

definition nodes_inv :: "pkt_ext \<Rightarrow> 'w pool_tasks \<Rightarrow> bool" where
  "nodes_inv P s \<longleftrightarrow> (\<forall>f\<in>set (pt_forwards s). forward_ok P f \<and>
     (running (fw_phase f) \<longrightarrow> (\<exists>x. pool_shape (pt_pool s) (fw_group f) = Some (fw_nodes f, x))))"

text \<open>The requests made are those of the calls.\<close>

definition requests_inv :: "pkt_ext \<Rightarrow> ('w \<Rightarrow> (bytes \<times> bool) list) \<Rightarrow> 'w pool_tasks \<Rightarrow> bool" where
  "requests_inv P requests s \<longleftrightarrow>
     (\<forall>j<length (pt_forwards s). unsent_ok P (pt_forwards s ! j) \<and>
        map snd (filter (\<lambda>x. fst x = j) (pt_requests s)) = requests_of P (pt_forwards s ! j)) \<and>
     (\<forall>x\<in>set (pt_requests s). fst x < length (pt_forwards s)) \<and> requests (pt_world s) = map snd (pt_requests s)"

text \<open>The rotation: the counter of a group is the number of calls begun in it, at 64 bits, and each call started at
  the node next to that of the call before.\<close>

definition begun :: "i32 \<Rightarrow> i32 list \<Rightarrow> u64" where
  "begun gid groups = word_of_nat (length (filter (\<lambda>k. k = gid) groups))"

definition rotation_inv :: "'w pool_tasks \<Rightarrow> bool" where
  "rotation_inv s \<longleftrightarrow>
     (\<forall>gid n x. pool_shape (pt_pool s) gid = Some (n, x) \<longrightarrow> x = begun gid (map fw_group (pt_forwards s))) \<and>
     (\<forall>gid\<in>set (map fw_group (pt_forwards s)). pool_shape (pt_pool s) gid \<noteq> None) \<and>
     (\<forall>j<length (pt_forwards s). map fw_start (pt_forwards s) ! j =
        unat (begun (map fw_group (pt_forwards s) ! j) (take j (map fw_group (pt_forwards s)))) mod
          (map fw_nodes (pt_forwards s) ! j))"

lemma begun_append: "begun gid (ks @ ls) = begun gid ks + begun gid ls"
  by (simp add: begun_def)

lemma begun_notin: "gid \<notin> set ks \<Longrightarrow> begun gid ks = 0"
proof -
  assume "gid \<notin> set ks"
  then have "filter (\<lambda>k. k = gid) ks = []" by (auto simp: filter_empty_conv)
  then show ?thesis by (simp add: begun_def)
qed

lemma rotation_same:
  assumes "rotation_inv s" "pool_shape (pt_pool t) = pool_shape (pt_pool s)"
    "map fw_group (pt_forwards t) = map fw_group (pt_forwards s)" "map fw_start (pt_forwards t) = map fw_start (pt_forwards s)"
    "map fw_nodes (pt_forwards t) = map fw_nodes (pt_forwards s)"
  shows "rotation_inv t"
  using assms map_eq_imp_length_eq [OF assms(3)] unfolding rotation_inv_def by simp

text \<open>What a step on the flags of some nodes keeps.\<close>

lemma shape_same:
  assumes "nodes_inv P s \<and> rotation_inv s" "pool_shape (pt_pool t) = pool_shape (pt_pool s)" "pt_forwards t = pt_forwards s"
  shows "nodes_inv P t \<and> rotation_inv t"
  using assms rotation_same [of s t] by (auto simp: nodes_inv_def)

lemma requests_same:
  "requests_inv P requests s \<Longrightarrow> pt_forwards t = pt_forwards s \<Longrightarrow> pt_requests t = pt_requests s \<Longrightarrow>
     requests (pt_world t) = requests (pt_world s) \<Longrightarrow> requests_inv P requests t"
  unfolding requests_inv_def by simp

text \<open>The other request carries no packet.\<close>

definition gets_send_nothing :: "'w http_ext \<Rightarrow> ('w \<Rightarrow> (bytes \<times> bool) list) \<Rightarrow> bool" where
  "gets_send_nothing H requests \<longleftrightarrow> (\<forall>url w res w'. hx_get H url w = (res, w') \<longrightarrow> requests w' = requests w)"

lemma health_check_requests:
  "gets_send_nothing H requests \<Longrightarrow> ex_health_check H c w = (answer, c', w') \<Longrightarrow> requests w' = requests w"
  unfolding ex_health_check_def gets_send_nothing_def by (auto split: prod.splits result.splits if_splits)

text \<open>A turn of a call, from the invariant.\<close>

lemma turn_of_call:
  assumes "nodes_inv P s" "f \<in> set (pt_forwards s)" "running (fw_phase f)"
    "forward_turn H P (group_nodes (pt_pool s) (fw_group f)) f (pt_world s) = (f', clients, w)"
  shows "forward_ok P f \<and> forward_ok P f' \<and> steps_left f' < steps_left f \<and>
    fw_packet f' = fw_packet f \<and> fw_group f' = fw_group f \<and> fw_start f' = fw_start f \<and> fw_nodes f' = fw_nodes f \<and>
    pool_shape (set_group_nodes (pt_pool s) (fw_group f) clients) = pool_shape (pt_pool s)"
proof -
  obtain x where f: "forward_ok P f" "pool_shape (pt_pool s) (fw_group f) = Some (fw_nodes f, x)"
    using assms(1-3) unfolding nodes_inv_def by blast
  note turn = forward_turn_ok [OF f(1) assms(3) pool_shape_nodes [OF f(2)] assms(4)]
  have "length clients = length (group_nodes (pt_pool s) (fw_group f))" using turn map_eq_imp_length_eq by blast
  from set_group_nodes_shape [OF this] turn f(1) show ?thesis by blast
qed

lemma turn_nodes_inv:
  assumes "nodes_inv P s" "rotation_inv s" "j < length (pt_forwards s)" "f = pt_forwards s ! j" "running (fw_phase f)"
    "forward_turn H P (group_nodes (pt_pool s) (fw_group f)) f (pt_world s) = (f', clients, w)"
    "pt_pool t = set_group_nodes (pt_pool s) (fw_group f) clients" "pt_forwards t = (pt_forwards s)[j := f']"
  shows "nodes_inv P t \<and> rotation_inv t"
proof -
  have f: "f \<in> set (pt_forwards s)" using assms(3,4) by simp
  from turn_of_call [OF assms(1) f assms(5,6)] assms(7)
  have turn: "forward_ok P f'" "fw_group f' = fw_group f" "fw_start f' = fw_start f" "fw_nodes f' = fw_nodes f"
    and shape: "pool_shape (pt_pool t) = pool_shape (pt_pool s)" by simp_all
  have "map fw_group ((pt_forwards s)[j := f']) = map fw_group (pt_forwards s)"
    "map fw_start ((pt_forwards s)[j := f']) = map fw_start (pt_forwards s)"
    "map fw_nodes ((pt_forwards s)[j := f']) = map fw_nodes (pt_forwards s)"
    by (simp_all add: map_update_same assms(3) turn assms(4) [symmetric])
  then have "rotation_inv t" by (intro rotation_same [OF assms(2) shape]) (simp_all only: assms(8))
  moreover have "\<exists>x. pool_shape (pt_pool s) (fw_group f') = Some (fw_nodes f', x)"
    using assms(1,5) f unfolding nodes_inv_def turn by blast
  then have "nodes_inv P t"
    using assms(1) turn(1) unfolding nodes_inv_def shape assms(8)
    by (blast dest: set_update_subset_insert [THEN subsetD])
  ultimately show ?thesis by blast
qed

lemma turn_requests_inv:
  assumes "nodes_inv P s" "requests_inv P requests s" "http_logs H requests" "j < length (pt_forwards s)" "f = pt_forwards s ! j"
    "running (fw_phase f)" "forward_turn H P (group_nodes (pt_pool s) (fw_group f)) f (pt_world s) = (f', clients, w)"
    "pt_forwards t = (pt_forwards s)[j := f']" "pt_world t = w" "pt_requests t = pt_requests s @ map (Pair j) (turn_request f f')"
  shows "requests_inv P requests t"
proof -
  have "f \<in> set (pt_forwards s)" using assms(4,5) by simp
  then have "forward_ok P f" using assms(1) unfolding nodes_inv_def by blast
  moreover have own: "unsent_ok P f" "map snd (filter (\<lambda>x. fst x = j) (pt_requests s)) = requests_of P f"
    using assms(2,4,5) by (simp_all add: requests_inv_def)
  ultimately have turn: "requests_of P f' = requests_of P f @ turn_request f f'" "unsent_ok P f'"
    using turn_requests_of [OF _ _ assms(6,7)] by simp_all
  have "unsent_ok P (pt_forwards t ! k) \<and> map snd (filter (\<lambda>x. fst x = k) (pt_requests t)) = requests_of P (pt_forwards t ! k)"
    if "k < length (pt_forwards t)" for k
  proof (cases "k = j")
    case True
    with own turn assms(4) show ?thesis by (simp add: assms(8,10) filter_map o_def)
  next
    case False
    then have "filter (\<lambda>x. fst x = k) (pt_requests t) = filter (\<lambda>x. fst x = k) (pt_requests s)"
      by (simp add: assms(10) filter_empty_conv)
    with assms(2) that False show ?thesis by (simp add: requests_inv_def assms(8))
  qed
  moreover have "\<forall>x\<in>set (pt_requests t). fst x < length (pt_forwards t)"
    using assms(2,4) by (auto simp: requests_inv_def assms(8,10))
  moreover have "requests (pt_world t) = map snd (pt_requests t)"
    using forward_turn_request [OF assms(3,7)] assms(2) by (simp add: requests_inv_def assms(9,10) o_def)
  ultimately show ?thesis unfolding requests_inv_def by blast
qed

lemma begin_nodes_inv:
  assumes "nodes_inv P s" "dget (xp_groups (pt_pool s)) gid = Some g" "gp_clients g \<noteq> []"
  shows "nodes_inv P (call_begin s packet gid g)"
proof -
  have "\<exists>x. pool_shape (pt_pool (call_begin s packet gid g)) k = Some (n, x)" if "pool_shape (pt_pool s) k = Some (n, y)" for k n y
    using that call_begin_shape [OF assms(2), of packet] assms(2) by (auto simp: pool_shape_def)
  then have "\<forall>f\<in>set (pt_forwards s). forward_ok P f \<and> (running (fw_phase f) \<longrightarrow>
      (\<exists>x. pool_shape (pt_pool (call_begin s packet gid g)) (fw_group f) = Some (fw_nodes f, x)))"
    using assms(1) unfolding nodes_inv_def by blast
  moreover have "pt_forwards (call_begin s packet gid g) = pt_forwards s @ [f] \<Longrightarrow> forward_ok P f \<and>
      (\<exists>x. pool_shape (pt_pool (call_begin s packet gid g)) (fw_group f) = Some (fw_nodes f, x))" for f
    using assms(3) call_begin_shape [OF assms(2), of packet] by (auto simp: call_begin_def forward_ok_def)
  ultimately show ?thesis unfolding nodes_inv_def by (auto simp: call_begin_def)
qed

lemma begin_requests_inv:
  assumes "requests_inv P requests s"
  shows "requests_inv P requests (call_begin s packet gid g)"
proof -
  have "filter (\<lambda>x. fst x = length (pt_forwards s)) (pt_requests s) = []"
    using assms by (auto simp: requests_inv_def filter_empty_conv)
  with assms show ?thesis
    by (auto simp: requests_inv_def call_begin_def nth_append requests_of_def unsent_ok_def not_accepted_def less_Suc_eq split: result.split)
qed

lemma begin_rotation_inv:
  assumes "rotation_inv s" "dget (xp_groups (pt_pool s)) gid = Some g"
  shows "rotation_inv (call_begin s packet gid g)" (is "rotation_inv ?t")
proof -
  have fs: "map fw_group (pt_forwards ?t) = map fw_group (pt_forwards s) @ [gid]"
    "map fw_nodes (pt_forwards ?t) = map fw_nodes (pt_forwards s) @ [length (gp_clients g)]"
    "map fw_start (pt_forwards ?t) = map fw_start (pt_forwards s) @ [unat (gp_next_index g) mod length (gp_clients g)]"
    "length (pt_forwards ?t) = Suc (length (pt_forwards s))"
    by (simp_all add: call_begin_def)
  note shape = call_begin_shape [OF assms(2), of packet]
  have g: "pool_shape (pt_pool s) gid = Some (length (gp_clients g), gp_next_index g)"
    using assms(2) by (simp add: pool_shape_def)
  then have now: "gp_next_index g = begun gid (map fw_group (pt_forwards s))"
    using assms(1) unfolding rotation_inv_def by blast
  have one: "begun k [gid] = (if k = gid then 1 else 0)" for k by (simp add: begun_def)
  have "x = begun k (map fw_group (pt_forwards s) @ [gid])" if "pool_shape (pt_pool ?t) k = Some (n, x)" for k n x
    using that assms(1) now unfolding shape rotation_inv_def begun_append one
    by (cases "k = gid") (auto split: if_splits)
  moreover have "\<forall>k\<in>set (map fw_group (pt_forwards s) @ [gid]). pool_shape (pt_pool ?t) k \<noteq> None"
    using assms(1) unfolding shape rotation_inv_def by auto
  moreover have "(map fw_start (pt_forwards s) @ [unat (gp_next_index g) mod length (gp_clients g)]) ! j =
      unat (begun ((map fw_group (pt_forwards s) @ [gid]) ! j) (take j (map fw_group (pt_forwards s) @ [gid]))) mod
        ((map fw_nodes (pt_forwards s) @ [length (gp_clients g)]) ! j)" if "j < Suc (length (pt_forwards s))" for j
    using that assms(1) now unfolding rotation_inv_def
    by (cases "j = length (pt_forwards s)") (auto simp: nth_append)
  ultimately show ?thesis unfolding rotation_inv_def fs by blast
qed

lemma add_rotation_inv:
  assumes "rotation_inv s" "add_node H (pt_pool s) url group_id = (res, p)"
  shows "rotation_inv (s\<lparr>pt_pool := p\<rparr>)"
  using add_node_shape [OF assms(2)]
proof (elim disjE exE conjE)
  assume "pool_shape p = pool_shape (pt_pool s)"
  then show ?thesis by (intro rotation_same [OF assms(1)]) simp_all
next
  fix n x
  assume shape: "pool_shape p = (pool_shape (pt_pool s))(group_id \<mapsto> (n, x))"
    and x: "case pool_shape (pt_pool s) group_id of None \<Rightarrow> x = 0 | Some (_, y) \<Rightarrow> x = y"
  have "x = begun group_id (map fw_group (pt_forwards s))"
  proof (cases "pool_shape (pt_pool s) group_id")
    case None
    then have "group_id \<notin> set (map fw_group (pt_forwards s))" using assms(1) unfolding rotation_inv_def by blast
    with None x show ?thesis by (simp add: begun_notin del: set_map)
  next
    case (Some ny)
    then show ?thesis using x assms(1) unfolding rotation_inv_def by (cases ny) auto
  qed
  with assms(1) show ?thesis unfolding rotation_inv_def by (simp add: shape)
qed

lemma pool_step_nodes:
  "pool_step H P s t \<Longrightarrow> nodes_inv P s \<and> rotation_inv s \<Longrightarrow> nodes_inv P t \<and> rotation_inv t"
proof (induction rule: pool_step.induct)
  case (turns j s f f' clients w)
  show ?case by (rule turn_nodes_inv [OF turns.prems [THEN conjunct1] turns.prems [THEN conjunct2] turns.hyps]) simp_all
next
  case (adds s url group_id res p)
  have "nodes_inv P (s\<lparr>pt_pool := p\<rparr>)" using adds.prems adds.hyps(1) by (simp add: nodes_inv_def)
  then show ?case using adds by (simp add: add_rotation_inv)
next
  case (begins s group_id g packet)
  then show ?case by (simp add: begin_nodes_inv begin_rotation_inv)
qed (rule shape_same, assumption, simp_all add: set_group_nodes_shape)+

lemma pool_step_requests:
  assumes "http_logs H requests" "gets_send_nothing H requests"
  shows "pool_step H P s t \<Longrightarrow> nodes_inv P s \<Longrightarrow> requests_inv P requests s \<Longrightarrow> requests_inv P requests t"
proof (induction rule: pool_step.induct)
  case (begins s group_id g packet)
  then show ?case by (simp add: begin_requests_inv)
next
  case (turns j s f f' clients w)
  show ?case by (rule turn_requests_inv [OF turns.prems assms(1) turns.hyps]) simp_all
next
  case (checks s gid i rest answer client w)
  show ?case
    by (rule requests_same [OF checks.prems(2)]) (simp_all add: health_check_requests [OF assms(2) checks.hyps(3)])
next
  case (round_begins s nodes)
  show ?case by (rule requests_same [OF round_begins.prems(2)]) simp_all
next
  case (subscribes i s gid resp backoff delay backoff' client u)
  show ?case by (rule requests_same [OF subscribes.prems(2)]) simp_all
next
  case (adds s url group_id res p)
  show ?case by (rule requests_same [OF adds.prems(2)]) simp_all
qed

definition pool_init :: "'w http_ext \<Rightarrow> ('w \<Rightarrow> (bytes \<times> bool) list) \<Rightarrow> 'w pool_tasks \<Rightarrow> bool" where
  "pool_init H requests s \<longleftrightarrow> (\<exists>config handler_id. xp_new H config handler_id = Ok (pt_pool s)) \<and>
     pt_forwards s = [] \<and> pt_round s = [] \<and> pt_requests s = [] \<and> requests (pt_world s) = []"

lemma xp_new_shape:
  assumes "xp_new H config handler_id = Ok p" "pool_shape p gid = Some (n, x)"
  shows "x = 0"
proof -
  have "map_of (map (\<lambda>(k, clients). (k, \<lparr>gp_clients = clients, gp_next_index = 0\<rparr>)) m) gid = Some g \<Longrightarrow> gp_next_index g = 0"
    for m :: "(i32, ExitClient list) dmap" and g
    by (induction m) (auto split: if_splits)
  with assms show ?thesis by (auto simp: xp_new_def pool_shape_def dget_def split: result.splits)
qed

lemma pool_init_inv: "pool_init H requests s \<Longrightarrow> nodes_inv P s \<and> rotation_inv s \<and> requests_inv P requests s"
  by (auto simp: pool_init_def nodes_inv_def requests_inv_def rotation_inv_def begun_def dest: xp_new_shape)

interpretation pool: invariant_system "pool_init H requests" "pool_step H P" "\<lambda>s. nodes_inv P s \<and> rotation_inv s" for H P requests
  by unfold_locales (use pool_init_inv in blast, rule pool_step_nodes)

interpretation logged_pool: invariant_system "pool_init H requests"
  "\<lambda>s t. http_logs H requests \<and> gets_send_nothing H requests \<and> pool_step H P s t"
  "\<lambda>s. (nodes_inv P s \<and> rotation_inv s) \<and> requests_inv P requests s" for H P requests
  by unfold_locales (use pool_init_inv in blast, use pool_step_nodes pool_step_requests in blast)

lemma tried_all:
  assumes "forward_ok P f"
  shows "distinct (map fst (fw_tried f))" "set (map fst (fw_tried f)) \<subseteq> {..<fw_nodes f}"
    "fw_attempts f = fw_nodes f \<Longrightarrow> set (map fst (fw_tried f)) = {..<fw_nodes f}"
proof -
  have m: "map fst (fw_tried f) = map (\<lambda>k. (fw_start f + k) mod fw_nodes f) [0..<fw_attempts f]"
    and le: "fw_attempts f \<le> fw_nodes f" "0 < fw_nodes f"
    using assms by (auto simp: forward_ok_def)
  have "inj_on (\<lambda>k. (fw_start f + k) mod fw_nodes f) {0..<fw_attempts f}"
    using rotation_distinct [of _ _ "fw_nodes f" "fw_start f"] le(1)
    by (intro linorder_inj_onI) auto
  then show d: "distinct (map fst (fw_tried f))" unfolding m by (simp add: distinct_map)
  show sub: "set (map fst (fw_tried f)) \<subseteq> {..<fw_nodes f}" unfolding m using le(2) by auto
  assume "fw_attempts f = fw_nodes f"
  then have "card (set (map fst (fw_tried f))) = card {..<fw_nodes f}" using distinct_card [OF d] m
    by (metis card_lessThan length_map length_upt minus_nat.diff_0)
  with sub show "set (map fst (fw_tried f)) = {..<fw_nodes f}" by (intro card_subset_eq) simp_all
qed

text \<open>The requests of a well-formed call.\<close>

lemma not_accepted_bound:
  assumes "forward_ok P f"
  shows "not_accepted f \<le> fw_attempts f"
proof -
  have "length (fw_tried f) = fw_attempts f" using assms by (auto simp: forward_ok_def dest: map_eq_imp_length_eq)
  then show ?thesis unfolding not_accepted_def using length_filter_le [of _ "fw_tried f"] by metis
qed

lemma call_requests:
  assumes "forward_ok P f" "unsent_ok P f"
  shows "if fw_phase f = Ended (Ok ())
     then \<exists>b. px_to_bytes P (fw_packet f) = Ok b \<and> requests_of P f = tries (not_accepted f) b \<and> not_accepted f < fw_nodes f
     else (\<forall>x\<in>set (requests_of P f). px_to_bytes P (fw_packet f) = Ok (fst x) \<and> \<not> snd x) \<and>
       length (requests_of P f) = not_accepted f \<and> not_accepted f \<le> fw_nodes f"
proof -
  have "not_accepted f \<le> fw_attempts f" by (rule not_accepted_bound [OF assms(1)])
  with assms show ?thesis
    by (cases "px_to_bytes P (fw_packet f)") (auto simp: forward_ok_def unsent_ok_def requests_of_def)
qed

section \<open>Calls come to an end\<close>

lemma pool_step_forwards:
  assumes "nodes_inv P s" "pool_step H P s t" "j < length (pt_forwards s)"
  shows "j < length (pt_forwards t) \<and>
    (pt_forwards t ! j = pt_forwards s ! j \<or> steps_left (pt_forwards t ! j) < steps_left (pt_forwards s ! j))"
  using assms(2)
proof (cases rule: pool_step.cases)
  case (turns k f f' clients w)
  have "f \<in> set (pt_forwards s)" using turns(2,3) by simp
  from turn_of_call [OF assms(1) this turns(4,5)] have "steps_left f' < steps_left f" by blast
  with turns(1-3) assms(3) show ?thesis by (cases "j = k") simp_all
qed (use assms(3) in \<open>simp_all add: call_begin_def nth_append\<close>)

lemma running_turns:
  assumes "nodes_inv P s" "j < length (pt_forwards s)" "running (fw_phase (pt_forwards s ! j))"
  shows "\<exists>t. pool_step H P s t \<and> steps_left (pt_forwards t ! j) < steps_left (pt_forwards s ! j)"
proof -
  let ?f = "pt_forwards s ! j"
  obtain f' cs w where t: "forward_turn H P (group_nodes (pt_pool s) (fw_group ?f)) ?f (pt_world s) = (f', cs, w)"
    by (metis prod_cases3)
  from turn_of_call [OF assms(1) nth_mem [OF assms(2)] assms(3) t] pool_step.turns [OF assms(2) refl assms(3) t] assms(2)
  show ?thesis by (auto intro!: exI)
qed

lemma steps_left_bound: "steps_left f \<le> 3 * fw_nodes f + 1" "forward_ok P f \<Longrightarrow> steps_left f = 0 \<longleftrightarrow> \<not> running (fw_phase f)"
  by (auto simp: steps_left_def forward_ok_def split: forward_phase.split)

section \<open>A call alone\<close>

lemma set_group_nodes_simps [simp]:
  "set_group_nodes (set_group_nodes p gid a) gid b = set_group_nodes p gid b"
  "set_group_nodes p gid (group_nodes p gid) = p"
  by (auto simp: set_group_nodes_def group_nodes_def dinsert_again dinsert_same split: option.split)

lemma group_nodes_set: "dget (xp_groups p) gid = Some g \<Longrightarrow> group_nodes (set_group_nodes p gid cs) gid = cs"
  by (simp add: set_group_nodes_def group_nodes_def)

text \<open>The state in which a call stands after some of its steps.\<close>

definition call_state :: "'w pool_tasks \<Rightarrow> nat \<Rightarrow> forward_task \<Rightarrow> ExitClient list \<Rightarrow> 'w \<Rightarrow> 'w pool_tasks \<Rightarrow> bool" where
  "call_state s j f clients w t \<longleftrightarrow> pt_pool t = set_group_nodes (pt_pool s) (fw_group f) clients \<and>
     pt_forwards t = (pt_forwards s)[j := f] \<and> pt_world t = w \<and> pt_round t = pt_round s"

lemma call_turn:
  assumes "(pool_step H P)\<^sup>*\<^sup>* t0 t" "call_state s j f clients w t" "j < length (pt_forwards s)"
    "dget (xp_groups (pt_pool s)) (fw_group f) = Some g"
    "running (fw_phase f)" "forward_turn H P clients f w = (f', clients', w')" "fw_group f' = fw_group f"
  shows "\<exists>u. (pool_step H P)\<^sup>*\<^sup>* t0 u \<and> call_state s j f' clients' w' u"
proof -
  have t: "j < length (pt_forwards t)" "f = pt_forwards t ! j" "group_nodes (pt_pool t) (fw_group f) = clients" "pt_world t = w"
    using assms(2,3) group_nodes_set [OF assms(4)] by (simp_all add: call_state_def)
  have "forward_turn H P (group_nodes (pt_pool t) (fw_group f)) f (pt_world t) = (f', clients', w')"
    using assms(6) t by simp
  from rtranclp.rtrancl_into_rtrancl [of "pool_step H P", OF assms(1) pool_step.turns [OF t(1,2) assms(5) this]] assms(2,7)
  show ?thesis by (intro exI conjI) (assumption, simp add: call_state_def)
qed

lemmas turn_simps = forward_turn_def ex_forward_def next_node_def Let_def

text \<open>One node: the turns of an attempt are the call of its client.\<close>

lemma attempt_run:
  assumes "call_state s j f clients w t" "j < length (pt_forwards s)" "dget (xp_groups (pt_pool s)) (fw_group f) = Some g"
    "fw_phase f = Choosing" "fw_attempts f < length clients" "i = (fw_start f + fw_attempts f) mod length clients"
    "ex_is_healthy (clients ! i)" "ex_forward H P (clients ! i) (fw_packet f) w = (res, c, w')"
  shows "\<exists>u f' why. (pool_step H P)\<^sup>*\<^sup>* t u \<and> call_state s j f' (clients[i := c]) w' u \<and>
    f' = (if is_ok res then f\<lparr>fw_phase := Ended (Ok ())\<rparr> else next_node i why f)"
proof -
  let ?run = "(pool_step H P)\<^sup>*\<^sup>*" and ?f1 = "f\<lparr>fw_phase := Calling\<rparr>"
  have "forward_turn H P clients f w = (?f1, clients, w)" using assms(4-7) by (simp add: turn_simps)
  from call_turn [OF rtranclp.rtrancl_refl assms(1-3) _ this] assms(4)
  obtain u1 where u1: "?run t u1" "call_state s j ?f1 clients w u1" by auto
  have turn1: "\<exists>u. ?run t u \<and> call_state s j f' cs v u"
    if "forward_turn H P clients ?f1 w = (f', cs, v)" "fw_group f' = fw_group f" for f' cs v
    using call_turn [OF u1 assms(2) _ _ that(1)] assms(3) that(2) by simp
  show ?thesis
  proof (cases "px_to_bytes P (fw_packet f)")
    case (Err e)
    then have "forward_turn H P clients ?f1 w = (next_node i NotSerialised f, clients, w)"
      using assms(6,7) by (simp add: turn_simps)
    from turn1 [OF this] obtain u where "?run t u" "call_state s j (next_node i NotSerialised f) clients w u" by auto
    moreover have "\<not> is_ok res \<and> clients[i := c] = clients \<and> w' = w" using assms(7,8) Err by (auto simp: ex_forward_def)
    ultimately show ?thesis by (intro exI [of _ u] exI [of _ "next_node i NotSerialised f"] exI [of _ NotSerialised]) simp
  next
    case (Ok b)
    let ?f2 = "f\<lparr>fw_phase := Sending b\<rparr>"
    have "forward_turn H P clients ?f1 w = (?f2, clients, w)" using assms(6,7) Ok by (simp add: turn_simps)
    from turn1 [OF this] obtain u2 where u2: "?run t u2" "call_state s j ?f2 clients w u2" by auto
    have "\<exists>why. forward_turn H P clients ?f2 w =
        (if is_ok res then f\<lparr>fw_phase := Ended (Ok ())\<rparr> else next_node i why f, clients[i := c], w')"
      using assms(6-8) Ok by (auto simp: turn_simps split: prod.splits result.splits if_splits)
    then obtain why f' where f': "forward_turn H P clients ?f2 w = (f', clients[i := c], w')"
      "f' = (if is_ok res then f\<lparr>fw_phase := Ended (Ok ())\<rparr> else next_node i why f)" by blast
    then have "fw_group f' = fw_group f" by simp
    then obtain u where "?run t u" "call_state s j f' (clients[i := c]) w' u"
      using call_turn [OF u2 assms(2) _ _ f'(1)] assms(3) by auto
    with f'(2) show ?thesis by blast
  qed
qed

text \<open>One turn of the loop: the call ends, or goes on to the next node.\<close>

lemma loop_turn_run:
  assumes "call_state s j f clients w t" "j < length (pt_forwards s)" "dget (xp_groups (pt_pool s)) (fw_group f) = Some g"
    "fw_phase f = Choosing" "fw_attempts f < length clients"
  shows "\<exists>u f' cs v. (pool_step H P)\<^sup>*\<^sup>* t u \<and> call_state s j f' cs v u \<and>
    (f' = f\<lparr>fw_phase := Ended (Ok ())\<rparr> \<and>
       forward_attempts H P (fw_packet f) (fw_start f) (fw_attempts f) clients w = (Ok (), cs, v) \<or>
     (\<exists>i why. f' = next_node i why f \<and> length cs = length clients \<and>
       forward_attempts H P (fw_packet f) (fw_start f) (fw_attempts f) clients w =
         forward_attempts H P (fw_packet f) (fw_start f) (Suc (fw_attempts f)) cs v))"
proof -
  let ?i = "(fw_start f + fw_attempts f) mod length clients" and ?run = "(pool_step H P)\<^sup>*\<^sup>*"
  note fa = forward_attempts.simps [of H P "fw_packet f" "fw_start f" "fw_attempts f"]
  show ?thesis
  proof (cases "ex_is_healthy (clients ! ?i)")
    case False
    then have "forward_turn H P clients f w = (next_node ?i NotHealthy f, clients, w)"
      using assms(4,5) by (simp add: turn_simps)
    from call_turn [OF rtranclp.rtrancl_refl assms(1-3) _ this] assms(4)
    obtain u where "?run t u" "call_state s j (next_node ?i NotHealthy f) clients w u" by auto
    moreover have "forward_attempts H P (fw_packet f) (fw_start f) (fw_attempts f) clients w =
        forward_attempts H P (fw_packet f) (fw_start f) (Suc (fw_attempts f)) clients w"
      by (subst fa) (use assms(5) False in \<open>simp add: Let_def\<close>)
    ultimately show ?thesis by blast
  next
    case True
    obtain r c v where e: "ex_forward H P (clients ! ?i) (fw_packet f) w = (r, c, v)" by (metis prod_cases3)
    obtain u f' why where u: "?run t u" "call_state s j f' (clients[?i := c]) v u"
      "f' = (if is_ok r then f\<lparr>fw_phase := Ended (Ok ())\<rparr> else next_node ?i why f)"
      using attempt_run [OF assms refl True e] by blast
    have "forward_attempts H P (fw_packet f) (fw_start f) (fw_attempts f) clients w =
        (if is_ok r then (Ok (), clients[?i := c], v)
         else forward_attempts H P (fw_packet f) (fw_start f) (Suc (fw_attempts f)) (clients[?i := c]) v)"
      by (subst fa) (use assms(5) True e in \<open>simp add: Let_def split: result.split\<close>)
    with u show ?thesis
      by (intro exI [of _ u] exI [of _ f'] exI [of _ "clients[?i := c]"] exI [of _ v]) (cases "is_ok r"; auto)
  qed
qed

text \<open>All nodes: the loop of \<^verbatim>\<open>forward\<close>.\<close>

lemma attempts_run:
  assumes "j < length (pt_forwards s)" "dget (xp_groups (pt_pool s)) gid = Some g"
  shows "call_state s j f clients w t \<Longrightarrow> fw_group f = gid \<Longrightarrow> fw_phase f = Choosing \<Longrightarrow>
    forward_attempts H P (fw_packet f) (fw_start f) (fw_attempts f) clients w = (res, clients', w') \<Longrightarrow>
    \<exists>u f'. (pool_step H P)\<^sup>*\<^sup>* t u \<and> call_state s j f' clients' w' u \<and> fw_phase f' = Ended res \<and>
      fw_packet f' = fw_packet f \<and> fw_group f' = gid"
proof (induction "length clients - fw_attempts f" arbitrary: f clients w t)
  case 0
  let ?f = "f\<lparr>fw_phase := Ended (Err (ExitConnectionFailed ''All exit nodes failed''))\<rparr>"
  have turn: "forward_turn H P clients f w = (?f, clients, w)" using 0 by (simp add: turn_simps)
  obtain u where "(pool_step H P)\<^sup>*\<^sup>* t u" "call_state s j ?f clients w u"
    using call_turn [OF rtranclp.rtrancl_refl 0(2) assms(1) _ _ turn] 0(3,4) assms(2) by auto
  moreover have "res = Err (ExitConnectionFailed ''All exit nodes failed'') \<and> clients' = clients \<and> w' = w"
    using 0(1,5) by (subst (asm) forward_attempts.simps) auto
  ultimately show ?case using 0(3) by (intro exI [of _ u] exI [of _ ?f]) auto
next
  case (Suc d)
  have lt: "fw_attempts f < length clients" using Suc.hyps(2) by simp
  have g: "dget (xp_groups (pt_pool s)) (fw_group f) = Some g" using Suc.prems(2) assms(2) by simp
  obtain u f' cs v where u: "(pool_step H P)\<^sup>*\<^sup>* t u" "call_state s j f' cs v u"
    and alt: "f' = f\<lparr>fw_phase := Ended (Ok ())\<rparr> \<and> (res, clients', w') = (Ok (), cs, v) \<or>
      (\<exists>i why. f' = next_node i why f \<and> length cs = length clients \<and>
         forward_attempts H P (fw_packet f) (fw_start f) (Suc (fw_attempts f)) cs v = (res, clients', w'))"
    using loop_turn_run [OF Suc.prems(1) assms(1) g Suc.prems(3) lt, of H P] unfolding Suc.prems(4) by metis
  from alt show ?case
  proof (elim disjE exE conjE)
    assume "f' = f\<lparr>fw_phase := Ended (Ok ())\<rparr>" "(res, clients', w') = (Ok (), cs, v)"
    with u Suc.prems(2) show ?thesis by (intro exI [of _ u] exI [of _ f']) simp
  next
    fix i why
    assume n: "f' = next_node i why f" "length cs = length clients"
      "forward_attempts H P (fw_packet f) (fw_start f) (Suc (fw_attempts f)) cs v = (res, clients', w')"
    have "d = length cs - fw_attempts f'" using Suc.hyps(2) n(1,2) by (simp add: next_node_def)
    then obtain u' h where u': "(pool_step H P)\<^sup>*\<^sup>* u u'" "call_state s j h clients' w' u'" "fw_phase h = Ended res"
        "fw_packet h = fw_packet f" "fw_group h = gid"
      using Suc.hyps(1) [OF _ u(2)] n(1,3) Suc.prems(2) by (auto simp: next_node_def)
    from rtranclp_trans [OF u(1) u'(1)] u'(2-5) show ?thesis by blast
  qed
qed

lemma begun_call:
  assumes "dget (xp_groups (pt_pool s)) gid = Some g" "gp_clients g \<noteq> []"
    "forward_attempts H P packet (unat (gp_next_index g) mod length (gp_clients g)) 0 (gp_clients g) (pt_world s) = (res, clients, w)"
  shows "\<exists>u f. (pool_step H P)\<^sup>*\<^sup>* (call_begin s packet gid g) u \<and> pt_world u = w \<and> pt_round u = pt_round s \<and>
    pt_pool u = (pt_pool s)\<lparr>xp_groups := dinsert gid \<lparr>gp_clients = clients, gp_next_index = gp_next_index g + 1\<rparr> (xp_groups (pt_pool s))\<rparr> \<and>
    pt_forwards u = pt_forwards s @ [f] \<and> fw_packet f = packet \<and> fw_phase f = Ended res"
proof -
  let ?s = "call_begin s packet gid g" and ?j = "length (pt_forwards s)" and ?f = "last (pt_forwards (call_begin s packet gid g))"
  let ?g = "g\<lparr>gp_next_index := gp_next_index g + 1\<rparr>"
  have f: "fw_group ?f = gid" "fw_phase ?f = Choosing" "fw_packet ?f = packet" "fw_attempts ?f = 0"
    "fw_start ?f = unat (gp_next_index g) mod length (gp_clients g)" by (simp_all add: call_begin_def)
  have d: "dget (xp_groups (pt_pool ?s)) gid = Some ?g" by (simp add: call_begin_def)
  then have "set_group_nodes (pt_pool ?s) gid (gp_clients g) = pt_pool ?s"
    using set_group_nodes_simps(2) [of "pt_pool ?s" gid] by (simp add: group_nodes_def)
  then have "call_state ?s ?j ?f (gp_clients g) (pt_world s) ?s" by (simp add: call_state_def f(1)) (simp add: call_begin_def)
  then obtain u f' where u: "(pool_step H P)\<^sup>*\<^sup>* ?s u" "call_state ?s ?j f' clients w u" "fw_phase f' = Ended res"
      "fw_packet f' = packet" "fw_group f' = gid"
    using attempts_run [OF _ d, of ?j ?f "gp_clients g" "pt_world s" ?s H P res clients w] assms(3) f
    by (auto simp: call_begin_def)
  have "g\<lparr>gp_next_index := gp_next_index g + 1, gp_clients := clients\<rparr> = \<lparr>gp_clients = clients, gp_next_index = gp_next_index g + 1\<rparr>"
    by (cases g) simp
  with u d show ?thesis
    by (intro exI [of _ u] exI [of _ f'])
      (simp add: call_state_def set_group_nodes_def dinsert_again, simp add: call_begin_def dinsert_again)
qed

text \<open>A call that is not disturbed is the operation of the pool: from any state, \<^verbatim>\<open>forward\<close> as a function
  is a run of the step relation, with the same result, the same pool and the same requests.\<close>

lemma forward_run:
  assumes "xp_forward H P (pt_pool s) packet group_id (pt_world s) = (res, p, w)"
  shows "\<exists>t. (pool_step H P)\<^sup>*\<^sup>* s t \<and> pt_pool t = p \<and> pt_world t = w \<and> pt_round t = pt_round s \<and>
    (pt_forwards t = pt_forwards s \<and> \<not> is_ok res \<or>
     (\<exists>f. pt_forwards t = pt_forwards s @ [f] \<and> fw_packet f = packet \<and> fw_phase f = Ended res))"
proof (cases "dget (xp_groups (pt_pool s)) (found_group (pt_pool s) group_id)")
  case None
  with assms show ?thesis by (intro exI [of _ s]) (auto simp: xp_forward_def found_group_def)
next
  case (Some g)
  show ?thesis
  proof (cases "gp_clients g = []")
    case True
    with assms Some show ?thesis by (intro exI [of _ s]) (auto simp: xp_forward_def found_group_def)
  next
    case False
    let ?gid = "found_group (pt_pool s) group_id"
    obtain clients v r where a: "forward_attempts H P packet (unat (gp_next_index g) mod length (gp_clients g)) 0 (gp_clients g) (pt_world s) =
        (r, clients, v)" by (metis prod_cases3)
    have "r = res \<and> v = w \<and>
        p = (pt_pool s)\<lparr>xp_groups := dinsert ?gid \<lparr>gp_clients = clients, gp_next_index = gp_next_index g + 1\<rparr> (xp_groups (pt_pool s))\<rparr>"
      using assms Some [unfolded found_group_def] False a unfolding xp_forward_def found_group_def by (simp add: Let_def)
    with begun_call [OF Some False a]
      converse_rtranclp_into_rtranclp [of "pool_step H P", OF pool_step.begins [OF Some False, of H P packet]]
    show ?thesis by blast
  qed
qed

section \<open>Properties\<close>

text \<open>C14. What exit nodes are asked to take, whatever runs at the same time: however calls of \<^verbatim>\<open>forward\<close>, health checks,
  subscriptions and additions of nodes interleave, every request that carries a packet belongs to one call and carries the
  packet of that call. A call that ended well had exactly one request accepted, its last; a call that
  failed or has not ended has had none accepted. The requests that failed are one for each node that was
  passed over for it, so fewer than the nodes of the group in a call that ended well: a node may have taken a request that failed,
  for example by the time-out of the client, so its packet may have been taken by several nodes, but none is passed over twice. A call
  that failed has passed over every node of its group, each once. No call is lost in the rotation: the counter of a group is the number of calls begun in it, modulo 2 to the 64.\<close>

theorem packets_accepted_once:
  assumes "http_logs H requests" and "gets_send_nothing H requests"
    and "reach (pool_init H requests) (pool_step H P) s"
    and "j < length (pt_forwards s)" and "f = pt_forwards s ! j"
    and "own = map snd (filter (\<lambda>x. fst x = j) (pt_requests s))"
  shows "requests (pt_world s) = map snd (pt_requests s) \<and>
    (if fw_phase f = Ended (Ok ()) then \<exists>b. px_to_bytes P (fw_packet f) = Ok b \<and> own = tries (not_accepted f) b \<and> not_accepted f < fw_nodes f
     else (\<forall>x\<in>set own. px_to_bytes P (fw_packet f) = Ok (fst x) \<and> \<not> snd x) \<and> length own = not_accepted f \<and> not_accepted f \<le> fw_nodes f) \<and>
    distinct (map fst (fw_tried f)) \<and>
    (\<forall>e. fw_phase f = Ended (Err e) \<longrightarrow> set (map fst (fw_tried f)) = {..<fw_nodes f}) \<and>
    (\<forall>gid g. dget (xp_groups (pt_pool s)) gid = Some g \<longrightarrow>
       gp_next_index g = word_of_nat (length (filter (\<lambda>f. fw_group f = gid) (pt_forwards s))))"
proof -
  have inv: "nodes_inv P s" "rotation_inv s" "requests_inv P requests s"
    using logged_pool.reach_inv [of H requests P s] assms(1-3) by simp_all
  have ok: "forward_ok P f" using inv(1) assms(4,5) by (simp add: nodes_inv_def)
  have own: "own = requests_of P f" "unsent_ok P f" using inv(3) assms(4-6) by (simp_all add: requests_inv_def)
  have "if fw_phase f = Ended (Ok ()) then \<exists>b. px_to_bytes P (fw_packet f) = Ok b \<and> own = tries (not_accepted f) b \<and> not_accepted f < fw_nodes f
     else (\<forall>x\<in>set own. px_to_bytes P (fw_packet f) = Ok (fst x) \<and> \<not> snd x) \<and> length own = not_accepted f \<and> not_accepted f \<le> fw_nodes f"
    unfolding own(1) using call_requests [OF ok own(2)] .
  moreover have "requests (pt_world s) = map snd (pt_requests s)" using inv(3) by (simp add: requests_inv_def)
  moreover have "\<forall>e. fw_phase f = Ended (Err e) \<longrightarrow> set (map fst (fw_tried f)) = {..<fw_nodes f}"
    using ok tried_all(3) [OF ok] by (auto simp: forward_ok_def)
  moreover have "gp_next_index g = word_of_nat (length (filter (\<lambda>f. fw_group f = gid) (pt_forwards s)))"
    if "dget (xp_groups (pt_pool s)) gid = Some g" for gid g
    using inv(2) that unfolding rotation_inv_def by (auto simp: pool_shape_def begun_def filter_map o_def)
  ultimately show ?thesis using tried_all(1) [OF ok] by blast
qed

text \<open>C34. Every call ends: a call that runs can always make a step, whatever the flags of the nodes have become,
  no step of any other task sets it back, and it has at most three steps for each node of its group
  and one more.\<close>

theorem forwards_end:
  assumes "reach (pool_init H requests) (pool_step H P) s" and "j < length (pt_forwards s)"
  shows "(running (fw_phase (pt_forwards s ! j)) \<longrightarrow>
      (\<exists>t. pool_step H P s t \<and> steps_left (pt_forwards t ! j) < steps_left (pt_forwards s ! j))) \<and>
    (\<forall>t. pool_step H P s t \<longrightarrow> pt_forwards t ! j = pt_forwards s ! j \<or>
      steps_left (pt_forwards t ! j) < steps_left (pt_forwards s ! j)) \<and>
    steps_left (pt_forwards s ! j) \<le> 3 * fw_nodes (pt_forwards s ! j) + 1 \<and>
    (steps_left (pt_forwards s ! j) = 0 \<longleftrightarrow> (\<exists>res. fw_phase (pt_forwards s ! j) = Ended res))"
proof -
  have inv: "nodes_inv P s" using pool.reach_inv [OF assms(1)] by blast
  have "forward_ok P (pt_forwards s ! j)" using inv assms(2) by (simp add: nodes_inv_def)
  moreover have "\<not> running ph \<longleftrightarrow> (\<exists>res. ph = Ended res)" for ph by (cases ph) simp_all
  ultimately show ?thesis
    using running_turns [OF inv assms(2)] pool_step_forwards [OF inv _ assms(2)] steps_left_bound by blast
qed

text \<open>A pool of two nodes, of which \<open>b\<close> takes packets.\<close>

definition demo_taking :: "(bytes \<times> bool) list http_ext" where
  "demo_taking = \<lparr>hx_post = \<lambda>url b w. if url = ''b/forward'' then (Ok 200, w @ [(b, True)]) else (Err ''timed out'', w @ [(b, False)]),
     hx_get = \<lambda>url w. (Err ''refused'', w), hx_build = \<lambda>c. Ok ()\<rparr>"

definition demo_pool_config :: ExitPoolConfig where
  "demo_pool_config = \<lparr>pc_exit_nodes = [\<lparr>nd_url = ''a'', nd_group_id = 0\<rparr>, \<lparr>nd_url = ''b'', nd_group_id = 0\<rparr>],
     pc_health_check_interval = 10000, pc_client_timeout = 10000, pc_http2 = True\<rparr>"

definition demo_start :: "(bytes \<times> bool) list pool_tasks" where
  "demo_start = \<lparr>pt_pool = \<lparr>xp_groups = [(0, \<lparr>gp_clients = [demo_client ''a'', demo_client ''b''], gp_next_index = 0\<rparr>)],
     xp_config = demo_pool_config, xp_handler_id = 1\<rparr>, pt_forwards = [], pt_round = [], pt_world = [], pt_requests = []\<rparr>"

definition demo_packets :: pkt_ext where
  "demo_packets = \<lparr>px_to_bytes = \<lambda>p. Ok (pp_payload p), px_from_bytes = \<lambda>a b. Err ''''\<rparr>"

lemma demo_start_reach: "reach (pool_init demo_taking (\<lambda>w. w)) (pool_step demo_taking demo_packets) demo_start"
proof (rule reach.at_start)
  have "xp_new demo_taking demo_pool_config 1 = Ok (pt_pool demo_start)"
    by (simp add: xp_new_def demo_pool_config_def demo_start_def demo_taking_def ex_new_def client_config_def or_default_push_def
        demo_client_def dempty_def dget_def dinsert_def)
  then show "pool_init demo_taking (\<lambda>w. w) demo_start" by (auto simp: pool_init_def demo_start_def)
qed

lemma demo_taking_ok: "http_logs demo_taking (\<lambda>w. w)" "gets_send_nothing demo_taking (\<lambda>w. w)"
  by (auto simp: http_logs_def gets_send_nothing_def demo_taking_def http_success_def accepted_answer_def)

lemma demo_forward:
  "\<exists>p. xp_forward demo_taking demo_packets (pt_pool demo_start) (response (\<lambda>_. 0) 1 2 [7]) 3 (pt_world demo_start) =
     (Ok (), p, [([7], False), ([7], True)])"
  by (simp add: xp_forward_def demo_start_def dget_def forward_attempts.simps Let_def demo_client_def ex_is_healthy_def ex_forward_def
      demo_packets_def demo_taking_def ex_base_url_def mark_unhealthy_def http_success_def response_def)

theorem packets_accepted_once_witness:
  "\<exists>t f. reach (pool_init demo_taking (\<lambda>w. w)) (pool_step demo_taking demo_packets) t \<and>
     pt_forwards t = [f] \<and> fw_phase f = Ended (Ok ()) \<and>
     map snd (filter (\<lambda>x. fst x = 0) (pt_requests t)) = tries (not_accepted f) [7] \<and> not_accepted f < fw_nodes f"
proof -
  obtain p where p: "xp_forward demo_taking demo_packets (pt_pool demo_start) (response (\<lambda>_. 0) 1 2 [7]) 3 (pt_world demo_start) =
      (Ok (), p, [([7], False), ([7], True)])"
    using demo_forward by blast
  obtain t f where t: "(pool_step demo_taking demo_packets)\<^sup>*\<^sup>* demo_start t" "pt_forwards t = [f]"
      "fw_packet f = response (\<lambda>_. 0) 1 2 [7]" "fw_phase f = Ended (Ok ())"
    using forward_run [OF p] by (auto simp: demo_start_def)
  have "0 < length (pt_forwards t)" "f = pt_forwards t ! 0" by (simp_all add: t(2))
  note once = packets_accepted_once [OF demo_taking_ok reach_steps [OF demo_start_reach t(1)] this refl, THEN conjunct2, THEN conjunct1]
  obtain b where b: "px_to_bytes demo_packets (fw_packet f) = Ok b"
      "map snd (filter (\<lambda>x. fst x = 0) (pt_requests t)) = tries (not_accepted f) b" "not_accepted f < fw_nodes f"
    using once unfolding if_P [OF t(4)] by (elim exE conjE) (rule that)
  from b(1) t(3) have "b = [7]" by (simp add: demo_packets_def response_def)
  with b(2,3) t(2,4) reach_steps [OF demo_start_reach t(1)] show ?thesis by (intro exI [of _ t] exI [of _ f]) simp
qed

theorem forwards_end_witness:
  "\<exists>s t. pt_forwards s \<noteq> [] \<and> steps_left (pt_forwards s ! 0) = 7 \<and> pool_step demo_taking demo_packets s t \<and>
     steps_left (pt_forwards t ! 0) < 7"
proof -
  let ?g = "\<lparr>gp_clients = [demo_client ''a'', demo_client ''b''], gp_next_index = 0\<rparr>"
  let ?s = "call_begin demo_start (response (\<lambda>_. 0) 1 2 [7]) 0 ?g"
  have "found_group (pt_pool demo_start) 0 = 0" by (simp add: found_group_def)
  then have "pool_step demo_taking demo_packets demo_start ?s"
    using pool_step.begins [of demo_start 0 ?g demo_taking demo_packets "response (\<lambda>_. 0) 1 2 [7]"]
    by (simp add: demo_start_def dget_def)
  from forwards_end [OF reach.after_step [OF demo_start_reach this], of 0]
  have "\<exists>t. pool_step demo_taking demo_packets ?s t \<and> steps_left (pt_forwards t ! 0) < 7"
    by (simp add: call_begin_def demo_start_def steps_left_def)
  moreover have "pt_forwards ?s \<noteq> []" "steps_left (pt_forwards ?s ! 0) = 7"
    by (simp_all add: call_begin_def demo_start_def steps_left_def)
  ultimately show ?thesis by blast
qed

end
