(* ===== verification/Client_Config.thy ===== *)
theory Client_Config
  imports Rust_Std
begin

text \<open>
  The configuration of the client, \<^verbatim>\<open>client/src/config.rs\<close>, with its defaults, and the start of its TUN
  mode, \<^verbatim>\<open>client/src/lib.rs\<close> and \<^verbatim>\<open>client/src/tun_device.rs\<close>: the address in CIDR notation is split into an
  address and a netmask. Arithmetic is that of a release build: \<^verbatim>\<open>1u32 << n\<close> shifts by \<open>n mod 32\<close>, and
  \<^verbatim>\<open>32 - bits\<close> wraps. A floating-point ratio is kept as its bit pattern. The TOML reader and the
  device are parameters.
\<close>

section \<open>Sections and defaults\<close>

record Socks5Config =
  so_bind :: SocketAddr
  so_auth :: bool

definition socks5_config_default :: Socks5Config where
  "socks5_config_default = \<lparr>so_bind = SocketV4 [127, 0, 0, 1] 1080, so_auth = False\<rparr>"

record TunConfig =
  tu_device :: string
  tu_address :: string
  tu_mtu :: u16

definition tun_config_default :: TunConfig where
  "tun_config_default = \<lparr>tu_device = ''tun-apfsds'', tu_address = ''10.0.0.2/24'', tu_mtu = 1500\<rparr>"

record ConnectionConfig =
  cn_pool_size :: u64
  cn_endpoints :: "string list"
  cn_token_endpoint :: "string option"
  cn_reconnect_interval :: "u64 \<times> u64"
  cn_timeout :: u64

definition connection_config_default :: ConnectionConfig where
  "connection_config_default =
     \<lparr>cn_pool_size = 6, cn_endpoints = [], cn_token_endpoint = None, cn_reconnect_interval = (60, 180),
      cn_timeout = 30\<rparr>"

record SecurityConfig =
  se_credentials_path :: "string option"
  se_client_sk :: "string option"
  se_server_pk :: "string option"
  se_hmac_secret :: "string option"

definition security_config_default :: SecurityConfig where
  "security_config_default =
     \<lparr>se_credentials_path = None, se_client_sk = None, se_server_pk = None, se_hmac_secret = None\<rparr>"

record EmergencyConfig =
  ey_enabled :: bool
  ey_crate_name :: string
  ey_check_interval :: u64

definition emergency_config_default :: EmergencyConfig where
  "emergency_config_default = \<lparr>ey_enabled = True, ey_crate_name = ''apfsds'', ey_check_interval = 300\<rparr>"

record ObfuscationConfig =
  ob_noise_ratio :: f32
  ob_fake_json_enabled :: bool
  ob_sse_keepalive :: bool

definition default_noise_ratio :: f32 where
  "default_noise_ratio = 0x3E19999A"

definition obfuscation_config_default :: ObfuscationConfig where
  "obfuscation_config_default =
     \<lparr>ob_noise_ratio = default_noise_ratio, ob_fake_json_enabled = True, ob_sse_keepalive = True\<rparr>"

record DnsConfig =
  dn_enabled :: bool
  dn_bind :: SocketAddr

definition dns_config_default :: DnsConfig where
  "dns_config_default = \<lparr>dn_enabled = True, dn_bind = SocketV4 [127, 0, 0, 1] 53\<rparr>"

record ClientConfig =
  cc_socks5 :: Socks5Config
  cc_tun :: TunConfig
  cc_connection :: ConnectionConfig
  cc_security :: SecurityConfig
  cc_emergency :: EmergencyConfig
  cc_obfuscation :: ObfuscationConfig
  cc_dns :: DnsConfig

definition client_config_default :: ClientConfig where
  "client_config_default =
     \<lparr>cc_socks5 = socks5_config_default, cc_tun = tun_config_default,
      cc_connection = connection_config_default, cc_security = security_config_default,
      cc_emergency = emergency_config_default, cc_obfuscation = obfuscation_config_default,
      cc_dns = dns_config_default\<rparr>"

definition client_config_load ::
  "(string \<Rightarrow> (string, string) result) \<Rightarrow> (string \<Rightarrow> (ClientConfig, string) result) \<Rightarrow> string \<Rightarrow>
     (ClientConfig, string) result" where
  "client_config_load read_to_string from_str path =
     (case read_to_string path of
        Err e \<Rightarrow> Err e
      | Ok content \<Rightarrow> (case from_str content of Err e \<Rightarrow> Err e | Ok config \<Rightarrow> Ok config))"

section \<open>TUN mode\<close>

definition parse_u32 :: "bytes \<Rightarrow> u32 option" where
  "parse_u32 s = map_option word_of_nat (parse_uint (2 ^ 32) s)"

text \<open>The release build masks the shift distance.\<close>

definition u32_shl :: "u32 \<Rightarrow> u32 \<Rightarrow> u32" where
  "u32_shl x n = push_bit (unat n mod 32) x"

definition cidr_mask :: "u32 \<Rightarrow> u32" where
  "cidr_mask bits = NOT (u32_shl 1 (32 - bits) - 1)"

definition parse_cidr :: "bytes \<Rightarrow> (bytes \<times> bytes) option" where
  "parse_cidr cidr =
     (case split_on 47 cidr of
        [a, b] \<Rightarrow>
          (case parse_ipv4 a of
             None \<Rightarrow> None
           | Some ip \<Rightarrow>
               (case parse_u32 b of
                  None \<Rightarrow> None
                | Some bits \<Rightarrow> Some (ip, u32_to_be (cidr_mask bits))))
      | _ \<Rightarrow> None)"

record TunDeviceConfig =
  td_name :: string
  td_address :: bytes
  td_netmask :: bytes
  td_mtu :: u16

definition tun_device_config_default :: TunDeviceConfig where
  "tun_device_config_default =
     \<lparr>td_name = ''apfsds0'', td_address = [10, 0, 0, 1], td_netmask = [255, 255, 255, 0], td_mtu = 1500\<rparr>"

definition tun_setup :: "ClientConfig \<Rightarrow> TunDeviceConfig" where
  "tun_setup config =
     (let (addr, netmask) = (case parse_cidr (ascii (tu_address (cc_tun config))) of
            Some p \<Rightarrow> p | None \<Rightarrow> ([10, 0, 0, 2], [255, 255, 255, 0])) in
      \<lparr>td_name = tu_device (cc_tun config), td_address = addr, td_netmask = netmask, td_mtu = tu_mtu (cc_tun config)\<rparr>)"

text \<open>The loop reads and logs packets until a read fails; nothing is forwarded. The reads are given
  as a list, the number of packets read is the result.\<close>

fun tun_loop :: "(bytes, string) result list \<Rightarrow> nat" where
  "tun_loop [] = 0"
| "tun_loop (Ok packet # reads) = Suc (tun_loop reads)"
| "tun_loop (Err e # reads) = 0"

definition run_tun ::
  "(TunDeviceConfig \<Rightarrow> (unit, string) result) \<Rightarrow> ClientConfig \<Rightarrow> (bytes, string) result list \<Rightarrow>
     (nat, string) result" where
  "run_tun tun_create config reads =
     (case tun_create (tun_setup config) of Err e \<Rightarrow> Err e | Ok _ \<Rightarrow> Ok (tun_loop reads))"

section \<open>Netmasks\<close>

lemma u32_shl_one: "1 \<le> b \<Longrightarrow> b \<le> 32 \<Longrightarrow> u32_shl 1 (32 - b) = 2 ^ (32 - unat b)"
proof -
  assume b: "1 \<le> b" "b \<le> 32"
  then have "1 \<le> unat b" "unat b \<le> 32" by (simp_all add: word_le_nat_alt)
  moreover have "unat (32 - b) = 32 - unat b" using unat_sub [OF b(2)] by simp
  ultimately show ?thesis by (simp add: u32_shl_def push_bit_eq_mult)
qed

text \<open>The mask of a prefix of \<open>b\<close> bits: ones in the \<open>b\<close> highest places.\<close>

lemma cidr_mask_bits:
  assumes "1 \<le> b" "b \<le> 32" "n < 32"
  shows "bit (cidr_mask b) n \<longleftrightarrow> 32 - unat b \<le> n"
proof -
  have "u32_shl 1 (32 - b) - 1 = mask (32 - unat b)"
    using u32_shl_one [OF assms(1,2)] by (simp add: mask_eq_exp_minus_1)
  then show ?thesis
    using assms(3) by (auto simp: cidr_mask_def bit_simps not_less)
qed

lemma cidr_mask_zero: "cidr_mask 0 = cidr_mask 32"
  by (simp add: cidr_mask_def u32_shl_def)

lemma parse_u32_dec: "parse_u32 (dec (unat b)) = Some b"
  using parse_uint_dec [of "unat b" "2 ^ 32"] unsigned_less [of b, where ?'a = nat] by (simp add: parse_u32_def)

section \<open>Properties\<close>

text \<open>C36. The prefix length in the address of the TUN device becomes its netmask: for 1 to 32 bits, the mask
  has ones in exactly that many highest places. A prefix length of 0, which should give the empty
  mask, gives the mask of 32 bits, since the shift distance 32 is taken modulo 32.\<close>

theorem cidr_netmask:
  assumes "length ip = 4" and "1 \<le> b" and "b \<le> 32"
  shows "parse_cidr (fmt_ipv4 ip @ 47 # dec (unat b)) = Some (ip, u32_to_be (cidr_mask b)) \<and>
    (\<forall>n<32. bit (cidr_mask b) n = (32 - unat b \<le> n)) \<and>
    parse_cidr (fmt_ipv4 ip @ 47 # dec 0) = Some (ip, u32_to_be 0xFFFFFFFF)"
proof -
  have slash: "47 \<notin> set (dec k)" for k using dec_digits [of k] digit_neq(2) by blast
  then have "47 \<notin> set (fmt_ipv4 ip)"
    using set_join [of "[46]" "map (\<lambda>b. dec (unat b)) ip"] by (auto simp: fmt_ipv4_def)
  then have "split_on 47 (fmt_ipv4 ip @ 47 # dec k) = [fmt_ipv4 ip, dec k]" for k
    using slash by (simp add: split_on_append split_on_none)
  then have p: "parse_cidr (fmt_ipv4 ip @ 47 # dec (unat c)) = Some (ip, u32_to_be (cidr_mask c))" for c
    using assms(1) by (simp add: parse_cidr_def parse_u32_dec parse_fmt_ipv4)
  have "cidr_mask 0 = 0xFFFFFFFF" by (simp add: cidr_mask_def u32_shl_def)
  with p [of b] p [of 0] cidr_mask_bits [OF assms(2,3)] show ?thesis by simp
qed

theorem cidr_netmask_witness:
  "parse_cidr (fmt_ipv4 [10, 0, 0, 2] @ 47 # dec 24) = Some ([10, 0, 0, 2], u32_to_be (cidr_mask 24)) \<and>
   bit (cidr_mask 24) 8 \<and> \<not> bit (cidr_mask 24) 7"
  using cidr_netmask [of "[10, 0, 0, 2]" 24] by simp

end
