(* ===== verification/Client_Session.thy ===== *)
theory Client_Session
  imports Handler Client_Config
begin

text \<open>
  Opening a session from the client, \<^verbatim>\<open>client/src/wss.rs\<close>: the first endpoint of the configuration, the connection, which
  is a parameter, and the first message, which carries the connection id and so the session key. The
  halves of a split session share that key; sending and receiving are in \<open>Frame_Codec\<close>.
\<close>

section \<open>Sessions\<close>

record WssSession =
  ws_session_key :: u64
  ws_conn_id :: u64
  ws_rx :: "(u64 \<times> ws_event) list"

text \<open>\<open>connect\<close> opens a URL and yields what will be received, or the error.\<close>

definition session_connect ::
  "(string \<Rightarrow> ((u64 \<times> ws_event) list, string) result) \<Rightarrow> ClientConfig \<Rightarrow> (WssSession, string) result" where
  "session_connect connect config =
     (case cn_endpoints (cc_connection config) of
        [] \<Rightarrow> Err ''No endpoints configured''
      | endpoint # _ \<Rightarrow>
          (case connect (wss_url endpoint) of
             Err e \<Rightarrow> Err e
           | Ok rx \<Rightarrow>
               (case wss_handshake rx of
                  Err e \<Rightarrow> Err e
                | Ok conn_id \<Rightarrow> Ok \<lparr>ws_session_key = conn_id, ws_conn_id = conn_id, ws_rx = tl rx\<rparr>)))"

record WssSender =
  wt_session_key :: u64

record WssReceiver =
  wr_session_key :: u64
  wr_rx :: "(u64 \<times> ws_event) list"

definition session_split :: "WssSession \<Rightarrow> WssSender \<times> WssReceiver" where
  "session_split s = (\<lparr>wt_session_key = ws_session_key s\<rparr>, \<lparr>wr_session_key = ws_session_key s, wr_rx = ws_rx s\<rparr>)"

definition sender_send_frame ::
  "frame_ext \<Rightarrow> target \<Rightarrow> rng \<Rightarrow> WssSender \<Rightarrow> u64 \<Rightarrow> ProxyFrame \<Rightarrow> (bytes, string) result option" where
  "sender_send_frame F tgt G w now frame = send_frame F tgt G (wt_session_key w) now frame"

definition receiver_recv_frame ::
  "frame_ext \<Rightarrow> target \<Rightarrow> WssReceiver \<Rightarrow> (ProxyFrame option, string) result option \<times> WssReceiver" where
  "receiver_recv_frame F tgt r =
     (case recv_frame F tgt (wr_session_key r) (wr_rx r) of (res, rx) \<Rightarrow> (res, r\<lparr>wr_rx := rx\<rparr>))"

section \<open>Lemmas\<close>

lemma handshake_hello: "wss_handshake ((now, WsBinary (u64_to_le conn_id)) # rx) = Ok conn_id"
  by (simp add: wss_handshake_def)

lemma session_hello:
  assumes "cn_endpoints (cc_connection config) = endpoint # es"
    "connect (wss_url endpoint) = Ok ((now, WsBinary (u64_to_le conn_id)) # rx)"
  shows "session_connect connect config = Ok \<lparr>ws_session_key = conn_id, ws_conn_id = conn_id, ws_rx = rx\<rparr>"
  using assms by (simp add: session_connect_def handshake_hello)

text \<open>A session opened on the greeting of the daemon's session has the daemon's connection id as its key,
  so that frames go through in both directions.\<close>

lemma session_keys_agree:
  assumes "cn_endpoints (cc_connection config) = endpoint # es"
    "client_session X user_id conn_id tx True dns_ok joins events st = (hello, st')"
    "connect (wss_url endpoint) = Ok ((now, WsBinary (the hello)) # rx)"
  shows "session_connect connect config = Ok \<lparr>ws_session_key = conn_id, ws_conn_id = conn_id, ws_rx = rx\<rparr>"
proof -
  have "hello = Some (u64_to_le conn_id)"
    using assms(2) by (auto simp: client_session_def Let_def split: if_splits)
  with assms(1,3) show ?thesis by (simp add: session_hello)
qed

lemma split_frame_exchange:
  assumes "frame_ext_ok F" "session_connect connect config = Ok s" "session_split s = (w, r)"
    "sender_send_frame F tgt1 G w t1 f = Some (Ok m)" "t1 div 60 = t2 div 60" "length m < 2 ^ 32"
  shows "fst (receiver_recv_frame F tgt2 (r\<lparr>wr_rx := [(t2, WsBinary m)]\<rparr>)) = Some (Ok (Some f))"
proof -
  have k: "wt_session_key w = ws_session_key s" "wr_session_key r = ws_session_key s"
    using assms(3) by (auto simp: session_split_def)
  obtain p b where "xm_apply tgt2 (xm_new (ws_session_key s)) t2 m = Some p" "unpad p = Some b" "fx_from_bytes F b = Ok f"
    using send_frame_decodes [OF assms(1) _ assms(5,6)] assms(4) k unfolding sender_send_frame_def by metis
  then show ?thesis by (simp add: receiver_recv_frame_def k)
qed

end
