(* ===== verification/Socks5.thy ===== *)
theory Socks5
  imports Client_Session
begin

text \<open>
  The SOCKS5 server of the client, \<^verbatim>\<open>client/src/socks5.rs\<close>. The TCP stream is the list of bytes the
  application sends until it closes its side, and the list of bytes written back; a read past the
  end is the error of \<^verbatim>\<open>read_exact\<close>. Name resolution and the opening of a WebSocket are parameters; the session with the
  daemon is that of \<open>Client_Session\<close>.
  Host names and addresses are bytes, printed as Rust prints them.
\<close>

section \<open>Reading\<close>

definition early_eof :: string where
  "early_eof = ''early eof''"

definition read_u8 :: "bytes \<Rightarrow> (u8 \<times> bytes, string) result" where
  "read_u8 s = (case s of [] \<Rightarrow> Err early_eof | b # rest \<Rightarrow> Ok (b, rest))"

definition read_exact :: "nat \<Rightarrow> bytes \<Rightarrow> (bytes \<times> bytes, string) result" where
  "read_exact n s = (if length s < n then Err early_eof else Ok (take n s, drop n s))"

definition read_u16 :: "bytes \<Rightarrow> (u16 \<times> bytes, string) result" where
  "read_u16 s =
     (case s of a # b # rest \<Rightarrow> Ok (word_of_nat (unat a * 256 + unat b), rest) | _ \<Rightarrow> Err early_eof)"

section \<open>Printing addresses\<close>

definition hex_digit :: "nat \<Rightarrow> u8" where
  "hex_digit n = (if n < 10 then word_of_nat (48 + n) else word_of_nat (87 + n))"

fun hex :: "nat \<Rightarrow> bytes" where
  "hex n = (if n < 16 then [hex_digit n] else hex (n div 16) @ [hex_digit (n mod 16)])"

declare hex.simps [simp del]

fun segments :: "bytes \<Rightarrow> nat list" where
  "segments (a # b # rest) = (unat a * 256 + unat b) # segments rest"
| "segments _ = []"

text \<open>\<^verbatim>\<open>Ipv6Addr\<close>: the first longest run of zero segments, as start and length.\<close>

fun longest_zeroes :: "nat list \<Rightarrow> nat \<Rightarrow> nat \<times> nat \<Rightarrow> nat \<times> nat \<Rightarrow> nat \<times> nat" where
  "longest_zeroes [] i longest current = longest"
| "longest_zeroes (s # segs) i longest current =
     (if s = 0
      then let current' = (if snd current = 0 then (i, 1) else (fst current, snd current + 1));
               longest' = (if snd current' > snd longest then current' else longest) in
        longest_zeroes segs (i + 1) longest' current'
      else longest_zeroes segs (i + 1) longest (0, 0))"

definition fmt_ipv6 :: "bytes \<Rightarrow> bytes" where
  "fmt_ipv6 addr =
     (case mapped_to_ipv4 addr of
        Some ip4 \<Rightarrow> [58, 58, 102, 102, 102, 102, 58] @ fmt_ipv4 ip4
      | None \<Rightarrow>
          let segs = segments addr; (start, len) = longest_zeroes segs 0 (0, 0) (0, 0) in
          if len > 1
          then join [58] (map hex (take start segs)) @ [58, 58] @ join [58] (map hex (drop (start + len) segs))
          else join [58] (map hex segs))"

section \<open>Requests\<close>

definition SOCKS5_VERSION :: u8 where "SOCKS5_VERSION = 5"

definition parse_target :: "u8 \<Rightarrow> bytes \<Rightarrow> (bytes \<times> bytes, string) result" where
  "parse_target atyp s =
     (if atyp = 1 then
        and_then (read_exact 4 s) (\<lambda>(addr, s). and_then (read_u16 s) (\<lambda>(port, s).
          Ok (fmt_ipv4 addr @ [58] @ dec (unat port), s)))
      else if atyp = 3 then
        and_then (read_u8 s) (\<lambda>(len, s). and_then (read_exact (unat len) s) (\<lambda>(domain, s).
          and_then (read_u16 s) (\<lambda>(port, s).
            if utf8_valid domain then Ok (domain @ [58] @ dec (unat port), s)
            else Err ''invalid utf-8 sequence'')))
      else if atyp = 4 then
        and_then (read_exact 16 s) (\<lambda>(addr, s). and_then (read_u16 s) (\<lambda>(port, s).
          Ok ([91] @ fmt_ipv6 addr @ [93, 58] @ dec (unat port), s)))
      else Err (''Unknown address type: '' @ dec_str (unat atyp)))"

definition send_reply :: "u8 \<Rightarrow> bytes" where
  "send_reply rep = [SOCKS5_VERSION, rep, 0, 1, 0, 0, 0, 0, 0, 0]"

record socks_ext =
  sk_lookup_host :: "bytes \<Rightarrow> ((IpAddr \<times> u16) list, string) result"
  sk_open :: "string \<Rightarrow> ((u64 \<times> ws_event) list, string) result"

record tunnel =
  tn_conn_id :: u64
  tn_rip :: bytes
  tn_rport :: u16
  tn_data :: bytes

definition rip_of :: "IpAddr \<Rightarrow> bytes" where
  "rip_of ip = (case ip of IpV4 a \<Rightarrow> ipv4_to_mapped a | IpV6 a \<Rightarrow> a)"

text \<open>The greeting: the rest of the stream or an error, and the bytes written.\<close>

definition greet :: "bytes \<Rightarrow> (bytes, string) result \<times> bytes" where
  "greet s =
     (case and_then (read_u8 s) (\<lambda>(version, s).
             if version \<noteq> SOCKS5_VERSION then Err (''Invalid SOCKS version: '' @ dec_str (unat version))
             else and_then (read_u8 s) (\<lambda>(nmethods, s). read_exact (unat nmethods) s)) of
        Err e \<Rightarrow> (Err e, [])
      | Ok (methods, s) \<Rightarrow>
          if 0 \<notin> set methods then (Err ''No acceptable auth method'', [SOCKS5_VERSION, 0xFF])
          else (Ok s, [SOCKS5_VERSION, 0]))"

definition request_header :: "bytes \<Rightarrow> ((u8 \<times> u8 \<times> u8) \<times> bytes, string) result" where
  "request_header s =
     and_then (read_u8 s) (\<lambda>(version, s). and_then (read_u8 s) (\<lambda>(cmd, s).
       and_then (read_u8 s) (\<lambda>(rsv, s). and_then (read_u8 s) (\<lambda>(atyp, s). Ok ((version, cmd, atyp), s)))))"

text \<open>The result of the connection, the bytes written to the application, and the tunnel opened with
  the bytes that follow the request.\<close>

definition socks_connection ::
  "socks_ext \<Rightarrow> ClientConfig \<Rightarrow> bool \<Rightarrow> bytes \<Rightarrow> (unit, string) result \<times> bytes \<times> tunnel option" where
  "socks_connection X config emergency s =
     (if emergency then (Ok (), [], None)
      else case greet s of
          (Err e, out) \<Rightarrow> (Err e, out, None)
        | (Ok s, out) \<Rightarrow>
            (case request_header s of
               Err e \<Rightarrow> (Err e, out, None)
             | Ok ((version, cmd, atyp), s) \<Rightarrow>
                 if version \<noteq> SOCKS5_VERSION then (Err ''Invalid version in request'', out, None)
                 else if cmd \<noteq> 1 then (Err (''Unsupported command: '' @ dec_str (unat cmd)), out @ send_reply 1, None)
                 else (case parse_target atyp s of
                         Err e \<Rightarrow> (Err e, out, None)
                       | Ok (target, s) \<Rightarrow>
                           (case sk_lookup_host X target of
                              Err _ \<Rightarrow> (Ok (), out @ send_reply 4, None)
                            | Ok [] \<Rightarrow> (Err ''No IP found for target'', out, None)
                            | Ok ((ip, port) # _) \<Rightarrow>
                                (case session_connect (sk_open X) config of
                                   Err _ \<Rightarrow> (Ok (), out @ send_reply 5, None)
                                 | Ok session \<Rightarrow>
                                     (Ok (), out @ send_reply 0,
                                      Some \<lparr>tn_conn_id = ws_conn_id session, tn_rip = rip_of ip, tn_rport = port, tn_data = s\<rparr>))))))"

text \<open>A tunnel belongs to a session that was opened.\<close>

lemma tunnel_session:
  assumes "socks_connection X config emergency s = (res, out, Some tn)"
  shows "\<exists>session. session_connect (sk_open X) config = Ok session \<and> tn_conn_id tn = ws_conn_id session"
  using assms
  by (auto simp: socks_connection_def split: if_splits prod.splits result.splits list.splits)

section \<open>Relaying\<close>

text \<open>From the application to the session: each turn is what one read of at most 8192 bytes gives, the
  identifier and clock of the frame, and whether the session takes it. The frames sent.\<close>

fun tcp_to_wss ::
  "(bytes \<Rightarrow> u32) \<Rightarrow> tunnel \<Rightarrow> ((bytes, string) result \<times> bytes \<times> u64 \<times> bool) list \<Rightarrow> ProxyFrame list" where
  "tcp_to_wss crc t [] = []"
| "tcp_to_wss crc t ((r, uuid, now, sent) # turns) =
     (case r of
        Err _ \<Rightarrow> []
      | Ok chunk \<Rightarrow>
          if chunk = [] then []
          else if sent
            then new_data crc (tn_conn_id t) (tn_rip t) (tn_rport t) chunk uuid now # tcp_to_wss crc t turns
            else [])"

text \<open>From the session to the application: the frames received, each with whether the write succeeds.\<close>

fun wss_to_tcp :: "(ProxyFrame \<times> bool) list \<Rightarrow> bytes" where
  "wss_to_tcp [] = []"
| "wss_to_tcp ((f, written) # rest) =
     (if is_control (pf_flags f) then wss_to_tcp rest
      else if written then pf_payload f @ wss_to_tcp rest else [])"

section \<open>Well-formed requests\<close>

datatype socks_target = Target4 bytes u16 | TargetName bytes u16 | Target6 bytes u16

definition port_bytes :: "u16 \<Rightarrow> bytes" where
  "port_bytes p = [word_of_nat (unat p div 256), word_of_nat (unat p mod 256)]"

fun target_ok :: "socks_target \<Rightarrow> bool" where
  "target_ok (Target4 a p) \<longleftrightarrow> length a = 4"
| "target_ok (TargetName n p) \<longleftrightarrow> length n < 256 \<and> utf8_valid n"
| "target_ok (Target6 a p) \<longleftrightarrow> length a = 16"

fun target_bytes :: "socks_target \<Rightarrow> bytes" where
  "target_bytes (Target4 a p) = a @ port_bytes p"
| "target_bytes (TargetName n p) = word_of_nat (length n) # n @ port_bytes p"
| "target_bytes (Target6 a p) = a @ port_bytes p"

fun target_type :: "socks_target \<Rightarrow> u8" where
  "target_type (Target4 a p) = 1"
| "target_type (TargetName n p) = 3"
| "target_type (Target6 a p) = 4"

fun target_text :: "socks_target \<Rightarrow> bytes" where
  "target_text (Target4 a p) = fmt_ipv4 a @ [58] @ dec (unat p)"
| "target_text (TargetName n p) = n @ [58] @ dec (unat p)"
| "target_text (Target6 a p) = [91] @ fmt_ipv6 a @ [93, 58] @ dec (unat p)"

definition connect_request :: "bytes \<Rightarrow> u8 \<Rightarrow> socks_target \<Rightarrow> bytes" where
  "connect_request methods rsv t =
     [5, word_of_nat (length methods)] @ methods @ [5, 1, rsv, target_type t] @ target_bytes t"

lemma read_u16_port: "read_u16 (port_bytes p @ s) = Ok (p, s)"
proof -
  have "unat p < 65536" using unsigned_less [of p] by simp
  then have "unat p div 256 < 256" "unat p mod 256 < 256" by simp_all
  then have "unat (word_of_nat (unat p div 256) :: u8) * 256 + unat (word_of_nat (unat p mod 256) :: u8) =
      unat p div 256 * 256 + unat p mod 256"
    by (simp only: unat_of_nat) simp
  also have "\<dots> = unat p" by (rule div_mult_mod_eq)
  finally show ?thesis by (simp add: read_u16_def port_bytes_def del: of_nat_add of_nat_mult)
qed

lemma parse_target_bytes:
  assumes "target_ok t"
  shows "parse_target (target_type t) (target_bytes t @ s) = Ok (target_text t, s)"
proof (cases t)
  case (TargetName n p)
  with assms have "unat (word_of_nat (length n) :: u8) = length n" by (simp add: unat_of_nat)
  with TargetName assms show ?thesis
    by (simp add: parse_target_def read_u8_def read_exact_def read_u16_port)
qed (use assms in \<open>simp_all add: parse_target_def read_exact_def read_u16_port\<close>)

lemma greet_request:
  assumes "length methods < 256" "0 \<in> set methods"
  shows "greet ([5, word_of_nat (length methods)] @ methods @ s) = (Ok s, [5, 0])"
proof -
  have "unat (word_of_nat (length methods) :: u8) = length methods" using assms(1) by (simp add: unat_of_nat)
  with assms(2) show ?thesis by (simp add: greet_def read_u8_def read_exact_def SOCKS5_VERSION_def)
qed

lemma tcp_to_wss_payloads:
  "\<forall>t\<in>set turns. \<exists>c u n. t = (Ok c, u, n, True) \<and> c \<noteq> [] \<Longrightarrow>
     concat (map pf_payload (tcp_to_wss crc tn turns)) = concat (map (\<lambda>(r, _). case r of Ok c \<Rightarrow> c | Err _ \<Rightarrow> []) turns)"
  by (induction crc tn turns rule: tcp_to_wss.induct) (auto simp: new_data_def)

section \<open>Properties\<close>

text \<open>C22. A SOCKS5 client that offers no-authentication and asks to connect is served, for IPv4, IPv6 and
  named targets: the method is accepted, the target is resolved from exactly the address or name
  and port in the request, success is reported, and the tunnel goes to the first address resolved,
  IPv4 addresses mapped, with every byte after the request as its data, under the connection id the daemon
  sent when the session was opened.\<close>

theorem connect_request_served:
  assumes "length methods < 256" and "0 \<in> set methods" and "target_ok t"
    and "sk_lookup_host X (target_text t) = Ok ((ip, port) # others)" and "cn_endpoints (cc_connection config) = endpoint # es"
    and "sk_open X (wss_url endpoint) = Ok ((now, WsBinary (u64_to_le conn_id)) # rx)"
  shows "socks_connection X config False (connect_request methods rsv t @ app_data) =
    (Ok (), [5, 0] @ [5, 0, 0, 1, 0, 0, 0, 0, 0, 0],
     Some \<lparr>tn_conn_id = conn_id, tn_rip = rip_of ip, tn_rport = port, tn_data = app_data\<rparr>)"
  using greet_request [OF assms(1,2), of "[5, 1, rsv, target_type t] @ target_bytes t @ app_data"]
    parse_target_bytes [OF assms(3), of app_data] assms(4) session_hello [of config endpoint es "sk_open X" now conn_id rx, OF assms(5,6)]
  by (simp add: socks_connection_def connect_request_def request_header_def read_u8_def send_reply_def SOCKS5_VERSION_def)

lemma wss_to_tcp_data:
  "\<forall>f\<in>set fs. \<not> is_control (pf_flags f) \<Longrightarrow> wss_to_tcp (map (\<lambda>f. (f, True)) fs) = concat (map pf_payload fs)"
  by (induction fs) simp_all

definition demo_socks :: socks_ext where
  "demo_socks = \<lparr>sk_lookup_host = \<lambda>t. Ok [(IpV4 [93, 184, 216, 34], 80)], 
     sk_open = \<lambda>url. if url = ''ws://a/ws'' then Ok [(0, WsBinary (u64_to_le 7))] else Err ''refused''\<rparr>"

definition demo_client_config :: ClientConfig where
  "demo_client_config = client_config_default\<lparr>cc_connection := (cc_connection client_config_default)\<lparr>cn_endpoints := [''a'']\<rparr>\<rparr>"

theorem connect_request_served_witness:
  "socks_connection demo_socks demo_client_config False
     ([5, 1, 0] @ [5, 1, 0, 3] @ [3, 97, 46, 98, 0, 80] @ [71, 69, 84]) =
   (Ok (), [5, 0, 5, 0, 0, 1, 0, 0, 0, 0, 0, 0],
    Some \<lparr>tn_conn_id = 7, tn_rip = ipv4_to_mapped [93, 184, 216, 34], tn_rport = 80, tn_data = [71, 69, 84]\<rparr>)"
  using connect_request_served [of "[0]" "TargetName [97, 46, 98] 80" demo_socks "IpV4 [93, 184, 216, 34]" 80 "[]" demo_client_config "''a''" "[]" 0 7 "[]" 0 "[71, 69, 84]"]
  by (simp add: demo_socks_def demo_client_config_def wss_url_def starts_with_def connect_request_def port_bytes_def rip_of_def)

end
