(* ===== verification/Dns_Client.thy ===== *)
theory Dns_Client
  imports Protocol_Frames Client_Config
begin

text \<open>
  Name resolution in the client: the query and response format of \<^verbatim>\<open>client/src/doh.rs\<close>, and the local
  DNS server, \<^verbatim>\<open>client/src/local_dns.rs\<close>, which puts queries into control frames. The UDP socket is the
  list of the datagrams read; rkyv is a parameter.
\<close>

section \<open>Queries and responses\<close>

datatype DohError = QueryFailed string | InvalidResponse | DohTimeout | NoResults

datatype QueryType = A | AAAA

record DohQueryBuilder =
  dq_domain :: bytes
  dq_query_type :: QueryType

definition query_a :: "bytes \<Rightarrow> DohQueryBuilder" where
  "query_a domain = \<lparr>dq_domain = domain, dq_query_type = A\<rparr>"

definition query_aaaa :: "bytes \<Rightarrow> DohQueryBuilder" where
  "query_aaaa domain = \<lparr>dq_domain = domain, dq_query_type = AAAA\<rparr>"

definition query_to_bytes :: "DohQueryBuilder \<Rightarrow> bytes" where
  "query_to_bytes q = (case dq_query_type q of A \<Rightarrow> 0x01 | AAAA \<Rightarrow> 0x1C) # dq_domain q"

definition to_control_message :: "DohQueryBuilder \<Rightarrow> ControlMessage" where
  "to_control_message q = DohQuery (query_to_bytes q)"

text \<open>The loop over the records: at most \<open>count\<close> of them, from the bytes left. A record cut short is
  passed over, its bytes being read as further records.\<close>

fun doh_records :: "nat \<Rightarrow> bytes \<Rightarrow> IpAddr list" where
  "doh_records 0 s = []"
| "doh_records (Suc n) [] = []"
| "doh_records (Suc n) (record_type # s) =
     (if record_type = 0x01 then
        (if 4 \<le> length s then IpV4 (take 4 s) # doh_records n (drop 4 s) else doh_records n s)
      else if record_type = 0x1C then
        (if 16 \<le> length s then IpV6 (take 16 s) # doh_records n (drop 16 s) else doh_records n s)
      else [])"

definition parse_doh_response :: "ControlMessage \<Rightarrow> (IpAddr list, DohError) result" where
  "parse_doh_response msg =
     (case msg of
        DohResponse bs \<Rightarrow>
          (case bs of
             [] \<Rightarrow> Err NoResults
           | count # s \<Rightarrow>
               let results = doh_records (unat count) s in
               if results = [] then Err NoResults else Ok results)
      | _ \<Rightarrow> Err InvalidResponse)"

definition address_record :: "IpAddr \<Rightarrow> bytes" where
  "address_record addr = (case addr of IpV4 ip \<Rightarrow> 0x01 # ip | IpV6 ip \<Rightarrow> 0x1C # ip)"

definition build_doh_response :: "IpAddr list \<Rightarrow> bytes" where
  "build_doh_response addresses = word_of_nat (length addresses) # concat (map address_record addresses)"

section \<open>The local server\<close>

text \<open>Datagrams to frames: each datagram read, or an error of the socket, with the identifier and clock
  of the frame and whether the session takes it.\<close>

fun dns_to_wss ::
  "(ControlMessage \<Rightarrow> (bytes, string) result) \<Rightarrow> (bytes \<Rightarrow> u32) \<Rightarrow> u64 \<Rightarrow>
     ((bytes, string) result \<times> bytes \<times> u64 \<times> bool) list \<Rightarrow> ProxyFrame list" where
  "dns_to_wss to_bytes crc conn_id [] = []"
| "dns_to_wss to_bytes crc conn_id ((r, uuid, now, sent) # turns) =
     (case r of
        Err _ \<Rightarrow> dns_to_wss to_bytes crc conn_id turns
      | Ok query \<Rightarrow>
          (case to_bytes (DohQuery query) of
             Err _ \<Rightarrow> dns_to_wss to_bytes crc conn_id turns
           | Ok payload \<Rightarrow>
               if sent
               then (new_control crc payload uuid now)\<lparr>pf_conn_id := conn_id\<rparr> # dns_to_wss to_bytes crc conn_id turns
               else []))"

text \<open>Frames to datagrams: the answers written to the socket. Every answer is dropped, because the
  sender of the query is not known any more.\<close>

fun wss_to_dns :: "(bytes \<Rightarrow> (ControlMessage, string) result) \<Rightarrow> ProxyFrame list \<Rightarrow> bytes list" where
  "wss_to_dns from_bytes [] = []"
| "wss_to_dns from_bytes (frame # frames) =
     (if is_control (pf_flags frame)
      then (case from_bytes (pf_payload frame) of
              Ok (DohResponse answer) \<Rightarrow> wss_to_dns from_bytes frames
            | _ \<Rightarrow> wss_to_dns from_bytes frames)
      else wss_to_dns from_bytes frames)"

text \<open>The server: each attempt to reach the daemon fails or is a session with its connection id, the
  datagrams read while it lasts and the frames received; what it sends and what it writes.\<close>

definition local_dns_run ::
  "(ControlMessage \<Rightarrow> (bytes, string) result) \<Rightarrow> (bytes \<Rightarrow> (ControlMessage, string) result) \<Rightarrow> (bytes \<Rightarrow> u32) \<Rightarrow>
     ClientConfig \<Rightarrow> (unit, string) result \<Rightarrow>
     (u64 \<times> ((bytes, string) result \<times> bytes \<times> u64 \<times> bool) list \<times> ProxyFrame list, string) result list \<Rightarrow>
     ((ProxyFrame list \<times> bytes list) list, string) result" where
  "local_dns_run to_bytes from_bytes crc config bound sessions =
     (if \<not> dn_enabled (cc_dns config) then Ok []
      else case bound of
          Err e \<Rightarrow> Err e
        | Ok _ \<Rightarrow> Ok (concat (map (\<lambda>s. case s of
              Err _ \<Rightarrow> []
            | Ok (conn_id, turns, frames) \<Rightarrow>
                [(dns_to_wss to_bytes crc conn_id turns, wss_to_dns from_bytes frames)]) sessions)))"

section \<open>The format\<close>

fun ip_ok :: "IpAddr \<Rightarrow> bool" where
  "ip_ok (IpV4 a) \<longleftrightarrow> length a = 4"
| "ip_ok (IpV6 a) \<longleftrightarrow> length a = 16"

lemma doh_records_build:
  "list_all ip_ok as \<Longrightarrow> doh_records n (concat (map address_record as)) = take n as"
proof (induction as arbitrary: n)
  case Nil
  then show ?case by (cases n) simp_all
next
  case (Cons a as)
  then show ?case by (cases n; cases a) (simp_all add: address_record_def)
qed

lemma doh_records_ok: "list_all ip_ok (doh_records n s)"
  by (induction n s rule: doh_records.induct) auto

lemma length_doh_records: "length (doh_records n s) \<le> n"
  by (induction n s rule: doh_records.induct) auto

lemma wss_to_dns_nothing: "wss_to_dns from_bytes frames = []"
  by (induction frames) (auto split: result.splits ControlMessage.splits)

section \<open>Properties\<close>

text \<open>The answer to a name query reads back: up to 255 addresses, IPv4 and IPv6 mixed, are returned as
  they were written. The count is one byte, so of more addresses the number modulo 256 is
  returned, and none of 256; whatever bytes arrive, the addresses returned are well formed and at
  most as many as the first byte says.\<close>

lemma doh_response_roundtrip:
  assumes "list_all ip_ok addresses"
  shows "parse_doh_response (DohResponse (build_doh_response addresses)) =
      (if length addresses mod 256 = 0 then Err NoResults else Ok (take (length addresses mod 256) addresses)) \<and>
    (\<forall>bs results. parse_doh_response (DohResponse bs) = Ok results \<longrightarrow>
       list_all ip_ok results \<and> results \<noteq> [] \<and> length results \<le> unat (hd bs))"
proof
  have "unat (word_of_nat (length addresses) :: u8) = length addresses mod 256"
    by (simp add: unat_of_nat)
  then show "parse_doh_response (DohResponse (build_doh_response addresses)) =
      (if length addresses mod 256 = 0 then Err NoResults else Ok (take (length addresses mod 256) addresses))"
    using doh_records_build [OF assms]
    by (auto simp: parse_doh_response_def build_doh_response_def)
  show "\<forall>bs results. parse_doh_response (DohResponse bs) = Ok results \<longrightarrow>
       list_all ip_ok results \<and> results \<noteq> [] \<and> length results \<le> unat (hd bs)"
    using doh_records_ok length_doh_records
    by (auto simp: parse_doh_response_def Let_def split: list.splits if_splits)
qed

end
