(* ===== verification/Emergency.thy ===== *)
theory Emergency
  imports Client_Config
begin

text \<open>
  Emergency shutdown: the monitor of the daemon, \<^verbatim>\<open>daemon/src/emergency.rs\<close>, and the checker of the
  client, \<^verbatim>\<open>client/src/emergency.rs\<close>. Both poll crates.io, whose answers, the clock in seconds and the
  random delays are arguments. The loop of the monitor is \<open>em_start\<close>; \<open>monitor_step\<close> is the loop beside
  other threads that call \<^verbatim>\<open>trigger\<close>, with the two relaxed stores of each trigger as separate steps.
\<close>

section \<open>The monitor of the daemon\<close>

record EmergencyConfig =
  eg_crate_name :: string
  eg_trigger_version :: string
  eg_check_interval :: u64
  eg_trigger_delay_range :: "u64 \<times> u64"

definition monitor_config_default :: EmergencyConfig where
  "monitor_config_default =
     \<lparr>eg_crate_name = ''apfsds'', eg_trigger_version = ''0.0.0-EMERGENCY'', eg_check_interval = 300,
      eg_trigger_delay_range = (0, 3600)\<rparr>"

record EmergencyMonitor =
  em_config :: EmergencyConfig
  em_triggered :: bool
  em_trigger_time :: u64

definition em_new :: "EmergencyConfig \<Rightarrow> EmergencyMonitor" where
  "em_new config = \<lparr>em_config = config, em_triggered = False, em_trigger_time = 0\<rparr>"

definition is_triggered :: "EmergencyMonitor \<Rightarrow> bool" where
  "is_triggered m = em_triggered m"

definition trigger_at :: "EmergencyMonitor \<Rightarrow> u64" where
  "trigger_at m = em_trigger_time m"

text \<open>Triggering is two stores, first of the time, then of the flag; other threads can run in between.\<close>

definition store_trigger_at :: "EmergencyMonitor \<Rightarrow> u64 \<Rightarrow> u64 \<Rightarrow> EmergencyMonitor" where
  "store_trigger_at m now delay_secs = m\<lparr>em_trigger_time := now + delay_secs\<rparr>"

definition store_triggered :: "EmergencyMonitor \<Rightarrow> EmergencyMonitor" where
  "store_triggered m = m\<lparr>em_triggered := True\<rparr>"

definition em_trigger :: "EmergencyMonitor \<Rightarrow> u64 \<Rightarrow> u64 \<Rightarrow> EmergencyMonitor" where
  "em_trigger m now delay_secs = store_triggered (store_trigger_at m now delay_secs)"

definition version_matches :: "string \<Rightarrow> string \<Rightarrow> bool" where
  "version_matches prefix num \<longleftrightarrow> take (length prefix) num = prefix"

definition alarm :: "EmergencyConfig \<Rightarrow> (string list, string) result \<Rightarrow> bool" where
  "alarm config resp =
     (case resp of Err _ \<Rightarrow> False | Ok versions \<Rightarrow> list_ex (version_matches (eg_trigger_version config)) versions)"

text \<open>One turn of the loop, when nobody else triggers: the monitor afterwards, and whether the shutdown
  was sent, which ends the loop. \<open>resp\<close> is the answer of crates.io, a list of version numbers.\<close>

definition em_turn :: "EmergencyMonitor \<Rightarrow> u64 \<Rightarrow> (string list, string) result \<Rightarrow> u64 \<Rightarrow> EmergencyMonitor \<times> bool" where
  "em_turn m now resp delay =
     (if is_triggered m then (if trigger_at m \<le> now then (m, True) else (m, False))
      else if alarm (em_config m) resp then (em_trigger m now delay, False) else (m, False))"

fun em_start :: "EmergencyMonitor \<Rightarrow> (u64 \<times> (string list, string) result \<times> u64) list \<Rightarrow> EmergencyMonitor \<times> u64 option" where
  "em_start m [] = (m, None)"
| "em_start m ((now, resp, delay) # turns) =
     (case em_turn m now resp delay of
        (m', True) \<Rightarrow> (m', Some now) | (m', False) \<Rightarrow> em_start m' turns)"

definition em_run ::
  "bool \<Rightarrow> EmergencyMonitor \<Rightarrow> (u64 \<times> (string list, string) result \<times> u64) list \<Rightarrow> EmergencyMonitor \<times> u64 option" where
  "em_run client_ok m turns = (if client_ok then em_start m turns else (m, None))"

section \<open>The checker of the client\<close>

record crate_version =
  cv_num :: string
  cv_yanked :: bool

definition check_crate_status :: "(crate_version list, string) result \<Rightarrow> (bool, string) result" where
  "check_crate_status resp =
     (case resp of
        Err e \<Rightarrow> Err e
      | Ok versions \<Rightarrow> (case versions of [] \<Rightarrow> Ok True | v # _ \<Rightarrow> Ok (cv_yanked v)))"

text \<open>The flag \<^verbatim>\<open>EMERGENCY_MODE\<close> and the delay after which the process ends, once there is one.\<close>

fun checker_loop :: "((crate_version list, string) result \<times> u64) list \<Rightarrow> bool \<Rightarrow> bool \<times> u64 option" where
  "checker_loop [] mode = (mode, None)"
| "checker_loop ((resp, delay) # turns) mode =
     (case check_crate_status resp of
        Ok True \<Rightarrow> (True, Some delay)
      | Ok False \<Rightarrow> checker_loop turns mode
      | Err _ \<Rightarrow> checker_loop turns mode)"

definition start_checker ::
  "Client_Config.EmergencyConfig \<Rightarrow> bool \<Rightarrow> ((crate_version list, string) result \<times> u64) list \<Rightarrow> bool \<Rightarrow> bool \<times> u64 option" where
  "start_checker config client_ok turns mode =
     (if \<not> ey_enabled config then (mode, None)
      else if \<not> client_ok then (mode, None) else checker_loop turns mode)"

lemma checker_loop_mode:
  "checker_loop turns mode = (mode', e) \<Longrightarrow> (e \<noteq> None \<longrightarrow> mode') \<and> (e = None \<longrightarrow> mode' = mode)"
  by (induction turns mode rule: checker_loop.induct) (auto split: result.splits bool.splits)

lemma checker_ignores_failures:
  "\<forall>(resp, d)\<in>set turns. \<exists>e. resp = Err e \<Longrightarrow> checker_loop turns mode = (mode, None)"
  by (induction turns mode rule: checker_loop.induct) (auto simp: check_crate_status_def)

section \<open>The monitor and other threads\<close>

text \<open>
  \<^verbatim>\<open>trigger\<close> is public, so other threads may call it while the loop runs, and both atomics are accessed
  with \<^verbatim>\<open>Ordering::Relaxed\<close>: a load of the loop may return an old value of the variable, as long as it is not
  older than one the loop has read or written itself. The state keeps all values \<^verbatim>\<open>trigger_at\<close> has had, the
  oldest one the loop may still read, whether the loop has seen the flag set, whether it is between
  the two stores of its own trigger, and how many other callers are between theirs. The history of
  triggers has the answer of crates.io for those of the loop. Clock readings are unrelated.
\<close>

record trigger_call =
  tc_answer :: "(string list, string) result option"
  tc_now :: u64
  tc_delay :: u64

record monitor_state =
  ms_monitor :: EmergencyMonitor
  ms_times :: "u64 list"
  ms_from :: nat
  ms_knows :: bool
  ms_storing :: bool
  ms_callers :: nat
  ms_triggers :: "trigger_call list"
  ms_sent :: "u64 option"

definition monitor_init :: "EmergencyConfig \<Rightarrow> monitor_state" where
  "monitor_init config =
     \<lparr>ms_monitor = em_new config, ms_times = [trigger_at (em_new config)], ms_from = 0, ms_knows = False,
      ms_storing = False, ms_callers = 0, ms_triggers = [], ms_sent = None\<rparr>"

text \<open>The first store of a trigger, which becomes the newest value of \<^verbatim>\<open>trigger_at\<close>.\<close>

definition begins_trigger :: "trigger_call \<Rightarrow> monitor_state \<Rightarrow> monitor_state" where
  "begins_trigger c s =
     (let m = store_trigger_at (ms_monitor s) (tc_now c) (tc_delay c) in
      s\<lparr>ms_monitor := m, ms_times := ms_times s @ [trigger_at m], ms_triggers := ms_triggers s @ [c]\<rparr>)"

definition by_loop :: "trigger_call \<Rightarrow> bool" where
  "by_loop c \<longleftrightarrow> tc_answer c \<noteq> None"

definition due_at :: "trigger_call \<Rightarrow> u64" where
  "due_at c = tc_now c + tc_delay c"

text \<open>The loop runs until it has sent the shutdown; the delay it draws is within the configured
  range. A turn that finds no alarm changes nothing.\<close>

inductive monitor_step :: "monitor_state \<Rightarrow> monitor_state \<Rightarrow> bool" where
  loop_looks: "ms_sent s = None \<Longrightarrow> \<not> ms_storing s \<Longrightarrow> is_triggered (ms_monitor s) \<Longrightarrow>
     ms_from s \<le> k \<Longrightarrow> k < length (ms_times s) \<Longrightarrow>
     monitor_step s (s\<lparr>ms_from := k, ms_knows := True,
       ms_sent := (if ms_times s ! k \<le> now then Some now else None)\<rparr>)"
| loop_begins: "ms_sent s = None \<Longrightarrow> \<not> ms_storing s \<Longrightarrow> \<not> ms_knows s \<Longrightarrow>
     alarm (em_config (ms_monitor s)) resp \<Longrightarrow>
     fst (eg_trigger_delay_range (em_config (ms_monitor s))) \<le> delay \<Longrightarrow>
     delay \<le> snd (eg_trigger_delay_range (em_config (ms_monitor s))) \<Longrightarrow>
     monitor_step s ((begins_trigger \<lparr>tc_answer = Some resp, tc_now = now, tc_delay = delay\<rparr> s)
       \<lparr>ms_from := length (ms_times s), ms_storing := True\<rparr>)"
| loop_ends: "ms_storing s \<Longrightarrow>
     monitor_step s (s\<lparr>ms_monitor := store_triggered (ms_monitor s), ms_knows := True, ms_storing := False\<rparr>)"
| caller_begins:
    "monitor_step s ((begins_trigger \<lparr>tc_answer = None, tc_now = now, tc_delay = delay\<rparr> s)
       \<lparr>ms_callers := ms_callers s + 1\<rparr>)"
| caller_ends: "0 < ms_callers s \<Longrightarrow>
     monitor_step s (s\<lparr>ms_monitor := store_triggered (ms_monitor s), ms_callers := ms_callers s - 1\<rparr>)"

definition monitor_reachable :: "EmergencyConfig \<Rightarrow> monitor_state \<Rightarrow> bool" where
  "monitor_reachable config = reach (\<lambda>s. s = monitor_init config) monitor_step"

text \<open>The loop triggers at most once, on an alarm and with a delay in range, and from then on reads no
  time older than its own.\<close>

definition loop_calls :: "EmergencyConfig \<Rightarrow> trigger_call list \<Rightarrow> bool" where
  "loop_calls config cs \<longleftrightarrow> length (filter by_loop cs) \<le> 1 \<and>
     (\<forall>c\<in>set cs. \<forall>resp. tc_answer c = Some resp \<longrightarrow> alarm config resp \<and>
        fst (eg_trigger_delay_range config) \<le> tc_delay c \<and> tc_delay c \<le> snd (eg_trigger_delay_range config))"

definition monitor_inv :: "EmergencyConfig \<Rightarrow> monitor_state \<Rightarrow> bool" where
  "monitor_inv config s \<longleftrightarrow> em_config (ms_monitor s) = config \<and>
     ms_times s = 0 # map due_at (ms_triggers s) \<and> ms_from s \<le> length (ms_triggers s) \<and>
     loop_calls config (ms_triggers s) \<and>
     (\<forall>j<length (ms_triggers s). by_loop (ms_triggers s ! j) \<longrightarrow> j < ms_from s \<and> (ms_storing s \<or> ms_knows s)) \<and>
     ((is_triggered (ms_monitor s) \<or> ms_storing s \<or> 0 < ms_callers s) \<longrightarrow> ms_triggers s \<noteq> []) \<and>
     (\<forall>t. ms_sent s = Some t \<longrightarrow> ms_triggers s \<noteq> [] \<and> ms_times s ! ms_from s \<le> t)"

lemmas monitor_defs = begins_trigger_def store_trigger_at_def store_triggered_def trigger_at_def
  is_triggered_def due_at_def Let_def

lemma loop_calls_caller: "loop_calls config cs \<Longrightarrow> loop_calls config (cs @ [\<lparr>tc_answer = None, tc_now = n, tc_delay = d\<rparr>])"
  by (auto simp: loop_calls_def by_loop_def)

lemma loop_calls_loop:
  "loop_calls config cs \<Longrightarrow> \<forall>c\<in>set cs. \<not> by_loop c \<Longrightarrow> alarm config resp \<Longrightarrow>
     fst (eg_trigger_delay_range config) \<le> d \<Longrightarrow> d \<le> snd (eg_trigger_delay_range config) \<Longrightarrow>
     loop_calls config (cs @ [\<lparr>tc_answer = Some resp, tc_now = n, tc_delay = d\<rparr>])"
  by (auto simp: loop_calls_def by_loop_def filter_empty_conv)

lemma monitor_step_inv:
  assumes "monitor_inv config s" "monitor_step s t"
  shows "monitor_inv config t"
  using assms(2,1)
proof (induction rule: monitor_step.induct)
  case (loop_begins s resp delay now)
  then have "\<forall>c\<in>set (ms_triggers s). \<not> by_loop c"
    by (metis in_set_conv_nth monitor_inv_def)
  with loop_begins show ?case
    by (auto simp: monitor_inv_def monitor_defs nth_append intro!: loop_calls_loop)
next
  case (caller_begins s now delay)
  then have "(0 # map due_at (ms_triggers s) @ [now + delay]) ! ms_from s = (0 # map due_at (ms_triggers s)) ! ms_from s"
    by (cases "ms_from s") (auto simp: monitor_inv_def nth_append)
  with caller_begins show ?case
    by (auto simp: monitor_inv_def monitor_defs nth_append [of "ms_triggers s"] by_loop_def intro!: loop_calls_caller)
qed (auto simp: monitor_inv_def monitor_defs)

interpretation monitor: invariant_system "\<lambda>s. s = monitor_init config" monitor_step "monitor_inv config" for config
proof
  show "s = monitor_init config \<Longrightarrow> monitor_inv config s" for s
    by (simp add: monitor_inv_def monitor_init_def monitor_defs em_new_def loop_calls_def)
qed (blast intro: monitor_step_inv)

lemma em_start_triggered:
  "is_triggered m \<Longrightarrow> em_start m turns = (m, find (\<lambda>now. trigger_at m \<le> now) (map fst turns))"
  by (induction m turns rule: em_start.induct) (auto simp: em_turn_def)

section \<open>Properties\<close>

text \<open>C31. What the monitoring loop does, completely: without a client for crates.io, or as long as no answer
  has a version that starts with the trigger version, nothing is triggered and no shutdown is sent;
  the first such answer, in a turn at time \<open>n\<close> with the delay \<open>d\<close> drawn, triggers the emergency for the time
  \<open>n + d\<close>, and the first later turn at or after that time sends the shutdown, whatever crates.io
  answers meanwhile. (Nobody else triggers here.)\<close>

theorem monitor_loop_exact:
  "em_run client_ok (em_new config) turns =
     (case (if client_ok then dropWhile (\<lambda>(_, resp, _). \<not> alarm config resp) turns else []) of
        [] \<Rightarrow> (em_new config, None)
      | (n, _, d) # later \<Rightarrow>
          (\<lparr>em_config = config, em_triggered = True, em_trigger_time = n + d\<rparr>,
           find (\<lambda>now. n + d \<le> now) (map fst later)))"
proof -
  have "em_start (em_new config) turns =
     (case dropWhile (\<lambda>(_, resp, _). \<not> alarm config resp) turns of
        [] \<Rightarrow> (em_new config, None)
      | (n, _, d) # later \<Rightarrow>
          (\<lparr>em_config = config, em_triggered = True, em_trigger_time = n + d\<rparr>,
           find (\<lambda>now. n + d \<le> now) (map fst later)))"
    by (induction turns)
      (auto simp: em_turn_def em_start_triggered em_new_def em_trigger_def monitor_defs)
  then show ?thesis by (simp add: em_run_def)
qed

text \<open>C32. No shutdown without cause, whatever other threads call \<^verbatim>\<open>trigger\<close> and however their two stores
  interleave with the loop: if the loop has sent the shutdown at \<open>t\<close>, there was a trigger; the loop acted
  on a time that was due at \<open>t\<close>, that of the \<open>i\<close>-th trigger, counted from 1, never one older than its
  own trigger; only if it has not triggered itself it may, since the accesses are relaxed, have read
  the initial 0 (\<open>i = 0\<close>). The loop triggers at most once, on an alarm of crates.io and with a delay in
  the configured range; and if nobody else triggered, that trigger was due.\<close>

theorem shutdown_has_cause:
  assumes "monitor_reachable config s" "ms_sent s = Some t"
  shows "\<exists>i\<le>length (ms_triggers s).
    ms_triggers s \<noteq> [] \<and> (0 < i \<longrightarrow> tc_now (ms_triggers s ! (i - 1)) + tc_delay (ms_triggers s ! (i - 1)) \<le> t) \<and>
    (\<forall>j<length (ms_triggers s). by_loop (ms_triggers s ! j) \<longrightarrow> j < i) \<and>
    length (filter by_loop (ms_triggers s)) \<le> 1 \<and>
    (\<forall>c\<in>set (ms_triggers s). \<forall>resp. tc_answer c = Some resp \<longrightarrow> alarm config resp \<and>
       fst (eg_trigger_delay_range config) \<le> tc_delay c \<and> tc_delay c \<le> snd (eg_trigger_delay_range config)) \<and>
    ((\<forall>c\<in>set (ms_triggers s). by_loop c) \<longrightarrow> (\<exists>c. ms_triggers s = [c] \<and> tc_now c + tc_delay c \<le> t))"
proof -
  have inv: "monitor_inv config s"
    using monitor.reach_inv assms(1) by (simp add: monitor_reachable_def)
  then have lc: "loop_calls config (ms_triggers s)" and ne: "ms_triggers s \<noteq> []"
    and own: "\<forall>j<length (ms_triggers s). by_loop (ms_triggers s ! j) \<longrightarrow> j < ms_from s"
    and due: "(0 # map due_at (ms_triggers s)) ! ms_from s \<le> t" and le: "ms_from s \<le> length (ms_triggers s)"
    using assms(2) by (auto simp: monitor_inv_def)
  have at: "0 < ms_from s \<longrightarrow> due_at (ms_triggers s ! (ms_from s - 1)) \<le> t"
    using due le by (cases "ms_from s") simp_all
  have "\<exists>c. ms_triggers s = [c] \<and> due_at c \<le> t" if all: "\<forall>c\<in>set (ms_triggers s). by_loop c"
  proof -
    have "filter by_loop (ms_triggers s) = ms_triggers s" using all by (simp add: filter_id_conv)
    with lc have "length (ms_triggers s) \<le> 1" by (simp add: loop_calls_def)
    with ne obtain c where c: "ms_triggers s = [c]" by (cases "ms_triggers s") auto
    with own all le have "ms_from s = 1" by simp
    with at c show ?thesis by simp
  qed
  with lc ne own at le show ?thesis
    unfolding loop_calls_def due_at_def by (intro exI [of _ "ms_from s"]) blast
qed

text \<open>A run: the loop finds the alarm at 1300 and draws a delay of 60 seconds; another thread triggers
  with the same delay at 1320; the loop sends the shutdown at 1400.\<close>

definition demo_calls :: "trigger_call list" where
  "demo_calls = [\<lparr>tc_answer = Some (Ok [''0.1.0'', ''0.0.0-EMERGENCY.1'']), tc_now = 1300, tc_delay = 60\<rparr>,
     \<lparr>tc_answer = None, tc_now = 1320, tc_delay = 60\<rparr>]"

definition demo_monitor :: "nat \<Rightarrow> nat \<Rightarrow> bool \<Rightarrow> bool \<Rightarrow> bool \<Rightarrow> nat \<Rightarrow> u64 option \<Rightarrow> monitor_state" where
  "demo_monitor n from triggered knows storing callers sent =
     \<lparr>ms_monitor = \<lparr>em_config = monitor_config_default, em_triggered = triggered,
        em_trigger_time = (0 # map due_at (take n demo_calls)) ! n\<rparr>,
      ms_times = 0 # map due_at (take n demo_calls), ms_from = from, ms_knows = knows,
      ms_storing = storing, ms_callers = callers, ms_triggers = take n demo_calls, ms_sent = sent\<rparr>"

lemmas demo_monitor_defs = demo_monitor_def demo_calls_def monitor_config_default_def em_new_def alarm_def
  version_matches_def monitor_defs

lemma demo_monitor_reachable:
  "monitor_reachable monitor_config_default (demo_monitor 2 2 True True False 1 (Some 1400))"
proof -
  let ?r = "monitor_reachable monitor_config_default"
  have "?r (monitor_init monitor_config_default)"
    unfolding monitor_reachable_def by (rule reach.at_start) (rule refl)
  then have "?r (demo_monitor 0 0 False False False 0 None)"
    by (simp add: monitor_init_def demo_monitor_defs)
  moreover have "monitor_step (demo_monitor 0 0 False False False 0 None) (demo_monitor 1 1 False False True 0 None)"
    using monitor_step.loop_begins [of "demo_monitor 0 0 False False False 0 None" "Ok [''0.1.0'', ''0.0.0-EMERGENCY.1'']" 60 1300]
    by (simp add: demo_monitor_defs)
  ultimately have "?r (demo_monitor 1 1 False False True 0 None)" unfolding monitor_reachable_def by (rule reach.after_step)
  moreover have "monitor_step (demo_monitor 1 1 False False True 0 None) (demo_monitor 2 1 False False True 1 None)"
    using monitor_step.caller_begins [of "demo_monitor 1 1 False False True 0 None" 1320 60]
    by (simp add: demo_monitor_defs)
  ultimately have "?r (demo_monitor 2 1 False False True 1 None)" unfolding monitor_reachable_def by (rule reach.after_step)
  moreover have "monitor_step (demo_monitor 2 1 False False True 1 None) (demo_monitor 2 1 True True False 1 None)"
    using monitor_step.loop_ends [of "demo_monitor 2 1 False False True 1 None"]
    by (simp add: demo_monitor_defs)
  ultimately have "?r (demo_monitor 2 1 True True False 1 None)" unfolding monitor_reachable_def by (rule reach.after_step)
  moreover have "monitor_step (demo_monitor 2 1 True True False 1 None) (demo_monitor 2 2 True True False 1 (Some 1400))"
    using monitor_step.loop_looks [of "demo_monitor 2 1 True True False 1 None" 2 1400]
    by (simp add: demo_monitor_defs)
  ultimately show ?thesis unfolding monitor_reachable_def by (rule reach.after_step)
qed

theorem shutdown_has_cause_witness:
  "ms_sent (demo_monitor 2 2 True True False 1 (Some 1400)) = Some 1400 \<and>
   (\<exists>i\<le>2. 0 < i \<and> tc_now (demo_calls ! (i - 1)) + tc_delay (demo_calls ! (i - 1)) \<le> 1400)"
proof -
  have s: "ms_sent (demo_monitor 2 2 True True False 1 (Some 1400)) = Some 1400"
    "ms_triggers (demo_monitor 2 2 True True False 1 (Some 1400)) = demo_calls"
    "length demo_calls = 2" "by_loop (demo_calls ! 0)"
    by (simp_all add: demo_monitor_def demo_calls_def by_loop_def)
  from shutdown_has_cause [OF demo_monitor_reachable s(1), unfolded s(2,3)] s(4)
  obtain i where "i \<le> 2" "0 < i" "0 < i \<longrightarrow> tc_now (demo_calls ! (i - 1)) + tc_delay (demo_calls ! (i - 1)) \<le> 1400"
    by (metis zero_less_numeral)
  with s(1) show ?thesis by blast
qed

text \<open>The relaxed accesses matter: when another thread triggers with a delay of an hour, the loop may
  see the flag and still read the initial 0 as the time, and sends the shutdown at once.\<close>

lemma stale_time_shuts_down:
  "\<exists>s. monitor_reachable config s \<and> ms_sent s = Some 1001 \<and>
     ms_triggers s = [\<lparr>tc_answer = None, tc_now = 1000, tc_delay = 3600\<rparr>]"
proof -
  define s0 where "s0 = monitor_init config"
  define s1 where "s1 = (begins_trigger \<lparr>tc_answer = None, tc_now = 1000, tc_delay = 3600\<rparr> s0)\<lparr>ms_callers := ms_callers s0 + 1\<rparr>"
  define s2 where "s2 = s1\<lparr>ms_monitor := store_triggered (ms_monitor s1), ms_callers := ms_callers s1 - 1\<rparr>"
  define s3 where "s3 = s2\<lparr>ms_from := 0, ms_knows := True, ms_sent := (if ms_times s2 ! 0 \<le> 1001 then Some 1001 else None)\<rparr>"
  note defs = s0_def s1_def s2_def monitor_init_def em_new_def monitor_defs
  have "monitor_reachable config s0"
    unfolding monitor_reachable_def s0_def by (rule reach.at_start) (rule refl)
  moreover have "monitor_step s0 s1" unfolding s1_def by (rule monitor_step.caller_begins)
  moreover have "monitor_step s1 s2" unfolding s2_def by (rule monitor_step.caller_ends) (simp add: s1_def)
  moreover have "monitor_step s2 s3" unfolding s3_def by (rule monitor_step.loop_looks) (simp_all add: defs)
  ultimately have "monitor_reachable config s3"
    unfolding monitor_reachable_def by (meson reach.after_step)
  moreover have "ms_sent s3 = Some 1001" "ms_triggers s3 = [\<lparr>tc_answer = None, tc_now = 1000, tc_delay = 3600\<rparr>]"
    by (simp_all add: s3_def defs)
  ultimately show ?thesis by blast
qed

end
