(* ===== verification/Client_Main.thy ===== *)
theory Client_Main
  imports Client_Session Socks5 Dns_Client Emergency
begin

text \<open>
  The start of the client, \<^verbatim>\<open>client/src/main.rs\<close>, and the accept loop of its SOCKS5 server. What the process meets
  is a \<open>client_env\<close>: the file, the answers of crates.io, the device, the datagrams and the connections.
  The tasks share \<^verbatim>\<open>EMERGENCY_MODE\<close> only, so their interleaving is given by how many turns of the
  checker were over when a connection was accepted. The arguments are
  parsed before; the process ends when the delay of an emergency is over.
\<close>

section \<open>The SOCKS5 server\<close>

record accepted =
  ac_checks :: nat
  ac_lookup_host :: "bytes \<Rightarrow> ((IpAddr \<times> u16) list, string) result"
  ac_connect :: "string \<Rightarrow> ((u64 \<times> ws_event) list, string) result"
  ac_stream :: bytes

definition socks_session :: "accepted \<Rightarrow> socks_ext" where
  "socks_session a = \<lparr>sk_lookup_host = ac_lookup_host a, sk_open = ac_connect a\<rparr>"

text \<open>The connections handled, and the error that ended the loop. An error of a connection is logged.\<close>

fun socks5_accepts ::
  "ClientConfig \<Rightarrow> (nat \<Rightarrow> bool) \<Rightarrow> (accepted, string) result list \<Rightarrow> (bytes \<times> tunnel option) list \<times> string option" where
  "socks5_accepts config emergency [] = ([], None)"
| "socks5_accepts config emergency (r # rs) =
     (case r of
        Err e \<Rightarrow> ([], Some e)
      | Ok a \<Rightarrow>
          (case socks5_accepts config emergency rs of
             (served, end) \<Rightarrow>
               (snd (socks_connection (socks_session a) config (emergency (ac_checks a)) (ac_stream a)) # served, end)))"

definition socks5_run ::
  "ClientConfig \<Rightarrow> (nat \<Rightarrow> bool) \<Rightarrow> (unit, string) result \<Rightarrow> (accepted, string) result list \<Rightarrow>
     (bytes \<times> tunnel option) list \<times> string option" where
  "socks5_run config emergency bound incoming =
     (case bound of Err e \<Rightarrow> ([], Some e) | Ok _ \<Rightarrow> socks5_accepts config emergency incoming)"

section \<open>The process\<close>

record client_env =
  ce_read_to_string :: "string \<Rightarrow> (string, string) result"
  ce_from_str :: "string \<Rightarrow> (ClientConfig, string) result"
  ce_checker_ok :: bool
  ce_checks :: "((crate_version list, string) result \<times> u64) list"
  ce_tun_create :: "TunDeviceConfig \<Rightarrow> (unit, string) result"
  ce_tun_reads :: "(bytes, string) result list"
  ce_to_bytes :: "ControlMessage \<Rightarrow> (bytes, string) result"
  ce_from_bytes :: "bytes \<Rightarrow> (ControlMessage, string) result"
  ce_crc :: "bytes \<Rightarrow> u32"
  ce_dns_bound :: "(unit, string) result"
  ce_dns_sessions :: "(u64 \<times> ((bytes, string) result \<times> bytes \<times> u64 \<times> bool) list \<times> ProxyFrame list, string) result list"
  ce_socks_bound :: "(unit, string) result"
  ce_accepts :: "(accepted, string) result list"

text \<open>The flag after \<open>n\<close> turns of the checker.\<close>

definition emergency_after :: "client_env \<Rightarrow> ClientConfig \<Rightarrow> nat \<Rightarrow> bool" where
  "emergency_after env config n =
     fst (start_checker (cc_emergency config) (ce_checker_ok env) (take n (ce_checks env)) False)"

datatype client_run =
    TunMode "(nat, string) result"
  | Socks5Mode "((ProxyFrame list \<times> bytes list) list, string) result" "(bytes \<times> tunnel option) list \<times> string option"

definition client_main :: "client_env \<Rightarrow> string \<Rightarrow> bool \<Rightarrow> (client_run, string) result" where
  "client_main env path tun =
     (case client_config_load (ce_read_to_string env) (ce_from_str env) path of
        Err e \<Rightarrow> Err e
      | Ok config \<Rightarrow>
          if tun then Ok (TunMode (run_tun (ce_tun_create env) config (ce_tun_reads env)))
          else Ok (Socks5Mode
            (local_dns_run (ce_to_bytes env) (ce_from_bytes env) (ce_crc env) config (ce_dns_bound env) (ce_dns_sessions env))
            (socks5_run config (emergency_after env config) (ce_socks_bound env) (ce_accepts env))))"

section \<open>Lemmas\<close>

text \<open>Every connection accepted before the loop ends is handled on its own.\<close>

lemma socks5_accepts_served:
  "socks5_accepts config emergency (map Ok as) =
     (map (\<lambda>a. snd (socks_connection (socks_session a) config (emergency (ac_checks a)) (ac_stream a))) as, None)"
  by (induction as) simp_all

lemma socks5_accepts_error:
  "socks5_accepts config emergency (map Ok as @ Err e # rs) =
     (map (\<lambda>a. snd (socks_connection (socks_session a) config (emergency (ac_checks a)) (ac_stream a))) as, Some e)"
  by (induction as) simp_all

text \<open>The flag follows the first answer with a yanked or missing release.\<close>

definition alarming :: "(crate_version list, string) result \<times> u64 \<Rightarrow> bool" where
  "alarming t \<longleftrightarrow> check_crate_status (fst t) = Ok True"

lemma checker_loop_flag: "fst (checker_loop turns mode) \<longleftrightarrow> mode \<or> (\<exists>t\<in>set turns. alarming t)"
  by (induction turns mode rule: checker_loop.induct) (auto simp: alarming_def split: result.splits bool.splits)

lemma emergency_after_iff:
  "emergency_after env config n \<longleftrightarrow>
     ey_enabled (cc_emergency config) \<and> ce_checker_ok env \<and> (\<exists>t\<in>set (take n (ce_checks env)). alarming t)"
  by (simp add: emergency_after_def start_checker_def checker_loop_flag)

lemma emergency_after_mono: "emergency_after env config m \<Longrightarrow> m \<le> n \<Longrightarrow> emergency_after env config n"
  unfolding emergency_after_iff by (meson set_take_subset_set_take subsetD)

lemma refused_in_emergency: "snd (socks_connection X config True s) = ([], None)"
  by (simp add: socks_connection_def)

section \<open>Properties\<close>

text \<open>Once the checker of the client has seen that the newest release is yanked, every connection
  to the SOCKS5 server is dropped without a byte; until then, and however many checks fail, each
  connection is served from its own stream and no other connection changes what it gets.\<close>

lemma client_stops_in_emergency:
  assumes "client_config_load (ce_read_to_string env) (ce_from_str env) path = Ok config"
    "ce_socks_bound env = Ok ()" "ce_accepts env = map Ok as" "ey_enabled (cc_emergency config)" "ce_checker_ok env"
  shows "\<exists>dns served. client_main env path False = Ok (Socks5Mode dns (served, None)) \<and> length served = length as \<and>
    (\<forall>i<length as.
       served ! i =
         (if \<exists>t\<in>set (take (ac_checks (as ! i)) (ce_checks env)). alarming t then ([], None)
          else snd (socks_connection (socks_session (as ! i)) config False (ac_stream (as ! i)))))"
proof -
  let ?served = "map (\<lambda>a. snd (socks_connection (socks_session a) config
      (emergency_after env config (ac_checks a)) (ac_stream a))) as"
  have at: "\<forall>i<length as. ?served ! i =
       (if \<exists>t\<in>set (take (ac_checks (as ! i)) (ce_checks env)). alarming t then ([], None)
        else snd (socks_connection (socks_session (as ! i)) config False (ac_stream (as ! i))))"
    using assms(4,5) by (simp add: emergency_after_iff refused_in_emergency)
  obtain dns where "client_main env path False = Ok (Socks5Mode dns (?served, None))"
    using assms(1-3) by (simp add: client_main_def socks5_run_def socks5_accepts_served)
  with at show ?thesis by (intro exI [of _ dns] exI [of _ ?served] conjI) simp_all
qed

end
