(* ===== verification/Exit_Device.thy ===== *)
theory Exit_Device
  imports Exit_Node Daemon_Config "HOL-Library.Multiset"
begin

text \<open>
  The tasks of an exit node around its TUN device, \<^verbatim>\<open>daemon/src/exit_node.rs\<close>. The device is behind one mutex:
  \<^verbatim>\<open>start_tun_reader\<close> holds it during its blocking read (and while it sleeps after an error), \<^verbatim>\<open>handle_forward\<close>
  takes it for the write at its end. \<open>device_step\<close> relates the states before and after one step of a task or
  of the network; the steps of \<^verbatim>\<open>handle_forward\<close> before the write are one step, since they use concurrent maps
  and an atomic counter only. \<open>dv_packets\<close> and \<open>dv_failed\<close> are histories: the packets whose forwarding has begun, and
  what could not be written. The last section has the start of an exit node in both modes.
\<close>

section \<open>Tasks and the device\<close>

datatype lock_owner = Unlocked | ReaderHolds

record device_state =
  dv_service :: ExitService
  dv_lock :: lock_owner
  dv_incoming :: "bytes list"
  dv_waiting :: "bytes list"
  dv_packets :: "PlainPacket list"
  dv_failed :: "bytes list"

definition device_init :: device_state where
  "device_init = \<lparr>dv_service = es_new, dv_lock = Unlocked, dv_incoming = [], dv_waiting = [], dv_packets = [], dv_failed = []\<rparr>"

text \<open>\<^verbatim>\<open>handle_forward\<close> before and after it has the lock.\<close>

definition forward_begin :: "exit_ext \<Rightarrow> ExitService \<Rightarrow> PlainPacket \<Rightarrow> bytes \<times> ExitService" where
  "forward_begin X s packet =
     (let (virtual_ip, s1) = alloc_ip s in
      (rewrite_source X virtual_ip (pp_payload packet),
       s1\<lparr>es_route_map := dinsert virtual_ip
            \<lparr>re_handler_id = pp_handler_id packet, re_conn_id = pp_conn_id packet\<rparr> (es_route_map s1)\<rparr>))"

definition forward_write :: "ExitService \<Rightarrow> bytes \<Rightarrow> (unit, string) result \<times> ExitService" where
  "forward_write s payload =
     (if es_tun_broken s then (Err ''TUN write failed'', s)
      else (Ok (), s\<lparr>es_tun_written := es_tun_written s @ [payload]\<rparr>))"

inductive task_step :: "exit_ext \<Rightarrow> device_state \<Rightarrow> device_state \<Rightarrow> bool" for X where
  reader_locks: "dv_lock s = Unlocked \<Longrightarrow> task_step X s (s\<lparr>dv_lock := ReaderHolds\<rparr>)"
| reader_reads: "dv_lock s = ReaderHolds \<Longrightarrow> dv_incoming s = p # ps \<Longrightarrow>
     task_step X s (s\<lparr>dv_lock := Unlocked, dv_incoming := ps, dv_service := tun_packet X (dv_service s) (take 2048 p)\<rparr>)"
| forward_begins: "forward_begin X (dv_service s) packet = (payload, s') \<Longrightarrow>
     task_step X s (s\<lparr>dv_service := s', dv_waiting := dv_waiting s @ [payload], dv_packets := dv_packets s @ [packet]\<rparr>)"
| forward_writes: "dv_lock s = Unlocked \<Longrightarrow> dv_waiting s = before @ payload # after \<Longrightarrow>
     forward_write (dv_service s) payload = (res, s') \<Longrightarrow>
     task_step X s (s\<lparr>dv_service := s', dv_waiting := before @ after,
       dv_failed := (if is_ok res then dv_failed s else dv_failed s @ [payload])\<rparr>)"

inductive network_step :: "device_state \<Rightarrow> device_state \<Rightarrow> bool" where
  packet_arrives: "network_step s (s\<lparr>dv_incoming := dv_incoming s @ [p]\<rparr>)"
| read_fails: "dv_lock s = ReaderHolds \<Longrightarrow> network_step s (s\<lparr>dv_lock := Unlocked\<rparr>)"

inductive_cases task_stepE: "task_step X s t"
inductive_cases network_stepE: "network_step s t"

definition device_step :: "exit_ext \<Rightarrow> device_state \<Rightarrow> device_state \<Rightarrow> bool" where
  "device_step X s t \<longleftrightarrow> task_step X s t \<or> network_step s t"

abbreviation device_reachable :: "exit_ext \<Rightarrow> device_state \<Rightarrow> bool" where
  "device_reachable X \<equiv> reach ((=) device_init) (device_step X)"

section \<open>Lemmas\<close>

lemma forward_split:
  "handle_forward X s packet = (case forward_begin X s packet of (payload, s') \<Rightarrow> forward_write s' payload)"
  by (simp add: handle_forward_def forward_begin_def forward_write_def Let_def case_prod_beta)

lemma forward_begin_result:
  assumes "forward_begin X s packet = (payload, s')"
  shows "es_tun_written s' = es_tun_written s" "payload = rewrite_source X (ip_of (es_ip_pool s)) (pp_payload packet)"
    "es_ip_pool s' = es_ip_pool s + 1"
  using assms by (auto simp: forward_begin_def alloc_ip_eq Let_def)

lemma tun_packet_written: "es_tun_written (tun_packet X s p) = es_tun_written s"
  by (auto simp: tun_packet_def split: option.splits result.splits prod.splits)

text \<open>What the packets of a run are to the device: each with the address its place in the run gives it. Together, what was written,
  what waits for the device and what failed are exactly those.\<close>

definition device_payloads :: "exit_ext \<Rightarrow> PlainPacket list \<Rightarrow> bytes list" where
  "device_payloads X ps = map (\<lambda>i. rewrite_source X (ip_of (2 + word_of_nat i)) (pp_payload (ps ! i))) [0..<length ps]"

lemma device_payloads_snoc:
  "device_payloads X (ps @ [p]) = device_payloads X ps @ [rewrite_source X (ip_of (2 + word_of_nat (length ps))) (pp_payload p)]"
  by (simp add: device_payloads_def nth_append)

definition device_inv :: "exit_ext \<Rightarrow> device_state \<Rightarrow> bool" where
  "device_inv X s \<longleftrightarrow> es_ip_pool (dv_service s) = 2 + word_of_nat (length (dv_packets s)) \<and>
     mset (es_tun_written (dv_service s)) + mset (dv_waiting s) + mset (dv_failed s) = mset (device_payloads X (dv_packets s))"

lemma task_step_inv: "task_step X s t \<Longrightarrow> device_inv X s \<Longrightarrow> device_inv X t"
proof (induction rule: task_step.induct)
  case (forward_begins s packet payload s')
  then show ?case
    by (simp add: device_inv_def device_payloads_snoc forward_begin_result [OF forward_begins.hyps] union_assoc)
next
  case (forward_writes s before payload after res s')
  then show ?case
    by (auto simp: device_inv_def forward_write_def split: if_splits)
qed (auto simp: device_inv_def tun_packet_written tun_packet_pool)

lemma network_step_inv: "network_step s t \<Longrightarrow> device_inv X s \<Longrightarrow> device_inv X t"
  by (induction rule: network_step.induct) (auto simp: device_inv_def)

lemma device_init_inv: "device_inv X device_init"
  by (simp add: device_inv_def device_init_def es_new_def device_payloads_def)

interpretation device: invariant_system "(=) device_init" "device_step X" "device_inv X" for X
  by unfold_locales (auto simp: device_init_inv device_step_def intro: task_step_inv network_step_inv)

text \<open>A reader that holds the lock on a device with nothing to read stops every writer.\<close>

lemma task_step_blocked:
  "task_step X s t \<Longrightarrow> dv_lock s = ReaderHolds \<Longrightarrow> dv_incoming s = [] \<Longrightarrow>
     dv_lock t = ReaderHolds \<and> dv_incoming t = [] \<and>
     es_tun_written (dv_service t) = es_tun_written (dv_service s) \<and>
     (\<exists>more ps. dv_waiting t = dv_waiting s @ more \<and> dv_packets t = dv_packets s @ ps \<and> length more = length ps)"
  by (erule task_step.cases) (auto dest: forward_begin_result(1))

lemma task_steps_blocked:
  "(task_step X)\<^sup>*\<^sup>* s t \<Longrightarrow> dv_lock s = ReaderHolds \<Longrightarrow> dv_incoming s = [] \<Longrightarrow>
     dv_lock t = ReaderHolds \<and> dv_incoming t = [] \<and>
     es_tun_written (dv_service t) = es_tun_written (dv_service s) \<and>
     (\<exists>more ps. dv_waiting t = dv_waiting s @ more \<and> dv_packets t = dv_packets s @ ps \<and> length more = length ps)"
proof (induction rule: rtranclp_induct)
  case (step t u)
  then show ?case using task_step_blocked [OF step.hyps(2)] by fastforce
qed simp

text \<open>The settings of the device, made in \<^verbatim>\<open>ExitService::new\<close>: every virtual address is in its network.\<close>

definition tun_address :: bytes where
  "tun_address = [10, 200, 0, 1]"

definition tun_netmask :: bytes where
  "tun_netmask = [255, 255, 0, 0]"

lemma virtual_ip_in_network: "map2 (AND) (fst (alloc_ip s)) tun_netmask = map2 (AND) tun_address tun_netmask"
  by (simp add: alloc_ip_def tun_address_def tun_netmask_def Let_def)

section \<open>The start of an exit node\<close>

text \<open>\<open>device\<close> and \<open>bound\<close> are the outcomes of making the device and the listener; in reverse mode \<open>sessions\<close> are the
  messages of the connections to the handler, one list per attempt. The results of the attempts
  are logged, the service goes on to the next one.\<close>

fun reverse_sessions ::
  "exit_ext \<Rightarrow> i32 option \<Rightarrow> (ws_msg list, string) result list \<Rightarrow> ExitService \<Rightarrow> ExitService" where
  "reverse_sessions X preferred [] s = s"
| "reverse_sessions X preferred (c # cs) s =
     (case c of
        Err e \<Rightarrow> reverse_sessions X preferred cs s
      | Ok rx \<Rightarrow> reverse_sessions X preferred cs (fst (snd (connect_to_handler X preferred rx s))))"

definition service_new :: "(unit, string) result \<Rightarrow> (ExitService, string) result" where
  "service_new device = (case device of Err e \<Rightarrow> Err (''Failed to create TUN: '' @ e) | Ok _ \<Rightarrow> Ok es_new)"

definition run_reverse_mode ::
  "exit_ext \<Rightarrow> ServerConfig \<Rightarrow> (unit, string) result \<Rightarrow> (ws_msg list, string) result list \<Rightarrow> (ExitService, string) result" where
  "run_reverse_mode X server device sessions =
     (case sv_handler_endpoint server of
        None \<Rightarrow> Err ''handler_endpoint not configured for reverse_mode''
      | Some _ \<Rightarrow>
          (case service_new device of
             Err e \<Rightarrow> Err e
           | Ok service \<Rightarrow> Ok (reverse_sessions X (sv_preferred_group_id server) sessions service)))"

definition exit_run ::
  "exit_ext \<Rightarrow> DaemonConfig \<Rightarrow> (unit, string) result \<Rightarrow> (unit, string) result \<Rightarrow>
     (ws_msg list, string) result list \<Rightarrow> exit_op list \<Rightarrow> (ExitService, string) result" where
  "exit_run X config device bound sessions ops =
     (if sv_reverse_mode (dc_server config) then run_reverse_mode X (dc_server config) device sessions
      else case service_new device of
          Err e \<Rightarrow> Err e
        | Ok service \<Rightarrow> (case bound of Err e \<Rightarrow> Err e | Ok _ \<Rightarrow> Ok (foldl (exit_step X) service ops)))"

section \<open>Properties\<close>


definition demo_blocked :: device_state where
  "demo_blocked = device_init\<lparr>dv_lock := ReaderHolds\<rparr>"

lemma demo_blocked_reachable: "device_reachable X demo_blocked"
  unfolding demo_blocked_def
  by (rule reach.after_step [OF reach_start], unfold device_step_def, rule disjI1, rule task_step.reader_locks)
    (simp add: device_init_def)


end
