(* ===== verification/Wss_Client.thy ===== *)
theory Wss_Client
  imports Handler
begin

text \<open>
  The WebSocket client with a browser-like handshake, \<^verbatim>\<open>crates/transport/src/wss_client.rs\<close>.
  tungstenite and the types of the http crate are the parameter \<open>wss_ext\<close>: the request made from a
  URL, the syntax of header names and values, and a stream of type \<open>'c\<close> that sends, yields
  messages and is closed. A \<^verbatim>\<open>HeaderMap\<close> is a finite map from lower-case names; \<^verbatim>\<open>insert\<close> replaces.
  \<^verbatim>\<open>None\<close> is a panic, in \<open>receive_binary\<close> a loop that does not end.
\<close>

section \<open>Configuration\<close>

definition CHROME_UA :: string where
  "CHROME_UA = ''Mozilla/5.0 (Windows NT 10.0; Win64; x64) AppleWebKit/537.36 (KHTML, like Gecko) Chrome/120.0.0.0 Safari/537.36''"

record BrowserProfile =
  bp_user_agent :: string
  bp_accept_language :: string
  bp_accept_encoding :: string
  bp_sec_fetch_site :: string
  bp_sec_fetch_mode :: string
  bp_sec_fetch_dest :: string
  bp_plugin_headers :: "(string \<times> string) list"

definition chrome_120_windows :: BrowserProfile where
  "chrome_120_windows =
     \<lparr>bp_user_agent = CHROME_UA, bp_accept_language = ''en-US,en;q=0.9'', bp_accept_encoding = ''gzip, deflate, br'',
      bp_sec_fetch_site = ''cross-site'', bp_sec_fetch_mode = ''websocket'', bp_sec_fetch_dest = ''empty'',
      bp_plugin_headers = []\<rparr>"

definition chrome_120_with_adblock :: BrowserProfile where
  "chrome_120_with_adblock =
     (let profile = chrome_120_windows in
      profile\<lparr>bp_plugin_headers := bp_plugin_headers profile @
        [(''X-Client-Data'', ''CIW2yQEIprbJAQjBtskBCKmdygEIlaHKAQiVocoBGI6jygE='')]\<rparr>)"

definition chrome_120_macos :: BrowserProfile where
  "chrome_120_macos =
     \<lparr>bp_user_agent = ''Mozilla/5.0 (Macintosh; Intel Mac OS X 10_15_7) AppleWebKit/537.36 (KHTML, like Gecko) Chrome/120.0.0.0 Safari/537.36'',
      bp_accept_language = ''en-US,en;q=0.9'', bp_accept_encoding = ''gzip, deflate, br'',
      bp_sec_fetch_site = ''cross-site'', bp_sec_fetch_mode = ''websocket'', bp_sec_fetch_dest = ''empty'',
      bp_plugin_headers = []\<rparr>"

datatype WssClientError =
    ConnectionFailed string
  | HandshakeFailed string
  | SendFailed string
  | ReceiveFailed string
  | ConnectionClosed
  | InvalidUrl string

record WssClientConfig =
  wc_url :: string
  wc_token :: "string option"
  wc_browser_profile :: BrowserProfile
  wc_cookies :: "(string \<times> string) list"
  wc_origin :: "string option"
  wc_referer :: "string option"
  wc_headers :: "(string \<times> string) list"
  wc_compression :: bool
  wc_timeout_secs :: u64

definition wss_client_config_default :: WssClientConfig where
  "wss_client_config_default =
     \<lparr>wc_url = [], wc_token = None, wc_browser_profile = chrome_120_windows, wc_cookies = [], wc_origin = None,
      wc_referer = None, wc_headers = [], wc_compression = True, wc_timeout_secs = 30\<rparr>"

section \<open>The libraries\<close>

datatype Message = Text bytes | Binary bytes | Ping bytes | Pong bytes | Close | RawFrame bytes

type_synonym header_map = "(string, string) dmap"

record client_request =
  cr_scheme :: "string option"
  cr_host :: "string option"
  cr_headers :: header_map

record 'c wss_ext =
  wx_into_client_request :: "string \<Rightarrow> (client_request, string) result"
  wx_header_name :: "string \<Rightarrow> string option"
  wx_header_value :: "string \<Rightarrow> bool"
  wx_connect :: "string \<Rightarrow> client_request \<Rightarrow> nat \<Rightarrow> nat \<Rightarrow> ('c, string) result"
  wx_send :: "'c \<Rightarrow> Message \<Rightarrow> 'c \<times> (unit, string) result"
  wx_next :: "'c \<Rightarrow> 'c \<times> (Message, string) result option"
  wx_close :: "'c \<Rightarrow> 'c \<times> (unit, string) result"

text \<open>What the client relies on: the request of tungstenite asks for an upgrade, and the names
  written out in the source are names, stored in lower case.\<close>

definition wss_ext_ok :: "'c wss_ext \<Rightarrow> bool" where
  "wss_ext_ok X \<longleftrightarrow>
     (\<forall>url r. wx_into_client_request X url = Ok r \<longrightarrow> dget (cr_headers r) ''upgrade'' = Some ''websocket'') \<and>
     (\<forall>n n'. wx_header_name X n = Some n' \<longrightarrow> n' = map to_ascii_lower n)"

section \<open>The request\<close>

text \<open>\<^verbatim>\<open>headers.insert(name, value.parse().unwrap())\<close>, on a map or after a panic.\<close>

definition put_header :: "'c wss_ext \<Rightarrow> string \<Rightarrow> string \<Rightarrow> header_map option \<Rightarrow> header_map option" where
  "put_header X name v hs =
     (case hs of None \<Rightarrow> None | Some m \<Rightarrow> if wx_header_value X v then Some (dinsert name v m) else None)"

text \<open>The loops over plugin and custom headers leave out what does not parse.\<close>

fun put_headers :: "'c wss_ext \<Rightarrow> (string \<times> string) list \<Rightarrow> header_map \<Rightarrow> header_map" where
  "put_headers X [] m = m"
| "put_headers X ((k, v) # rest) m =
     (case wx_header_name X k of
        None \<Rightarrow> put_headers X rest m
      | Some name \<Rightarrow>
          if wx_header_value X v then put_headers X rest (dinsert name v m) else put_headers X rest m)"

fun join_str :: "string \<Rightarrow> string list \<Rightarrow> string" where
  "join_str sep [] = []"
| "join_str sep [x] = x"
| "join_str sep (x # y # xs) = x @ sep @ join_str sep (y # xs)"

definition request_host :: "client_request \<Rightarrow> string" where
  "request_host r = (case cr_host r of None \<Rightarrow> ''localhost'' | Some h \<Rightarrow> h)"

definition request_origin :: "WssClientConfig \<Rightarrow> client_request \<Rightarrow> string" where
  "request_origin config r =
     (case wc_origin config of
        Some o' \<Rightarrow> o'
      | None \<Rightarrow>
          let scheme = (case cr_scheme r of None \<Rightarrow> ''wss'' | Some s \<Rightarrow> s);
              origin_scheme = (if scheme = ''wss'' then ''https'' else ''http'') in
          origin_scheme @ ''://'' @ request_host r)"

definition fixed_headers :: "'c wss_ext \<Rightarrow> WssClientConfig \<Rightarrow> client_request \<Rightarrow> header_map option" where
  "fixed_headers X config r =
     (let bp = wc_browser_profile config;
          h1 = put_header X ''host'' (request_host r) (Some (cr_headers r));
          h2 = put_header X ''pragma'' ''no-cache'' h1;
          h3 = put_header X ''cache-control'' ''no-cache'' h2;
          h4 = put_header X ''user-agent'' (bp_user_agent bp) h3;
          h5 = put_header X ''origin'' (request_origin config r) h4;
          h6 = put_header X ''accept-encoding'' (bp_accept_encoding bp) h5;
          h7 = put_header X ''accept-language'' (bp_accept_language bp) h6;
          h8 = (if wc_cookies config = [] then h7
                else put_header X ''cookie'' (join_str ''; '' (map (\<lambda>(k, v). k @ ''='' @ v) (wc_cookies config))) h7);
          h9 = put_header X ''sec-websocket-extensions'' ''permessage-deflate; client_max_window_bits'' h8;
          h10 = put_header X ''sec-fetch-site'' (bp_sec_fetch_site bp) h9;
          h11 = put_header X ''sec-fetch-mode'' (bp_sec_fetch_mode bp) h10;
          h12 = put_header X ''sec-fetch-dest'' (bp_sec_fetch_dest bp) h11 in
      (case wc_referer config of None \<Rightarrow> h12 | Some referer \<Rightarrow> put_header X ''referer'' referer h12))"

definition build_request :: "'c wss_ext \<Rightarrow> WssClientConfig \<Rightarrow> (client_request, WssClientError) result option" where
  "build_request X config =
     (case wx_into_client_request X (wc_url config) of
        Err e \<Rightarrow> Some (Err (InvalidUrl e))
      | Ok r \<Rightarrow>
          (case fixed_headers X config r of
             None \<Rightarrow> None
           | Some h13 \<Rightarrow>
               let h15 = put_headers X (bp_plugin_headers (wc_browser_profile config)) h13;
                   h16 = (case wc_token config of
                            None \<Rightarrow> Some h15
                          | Some token \<Rightarrow> put_header X ''authorization'' (''Bearer '' @ token) (Some h15)) in
               (case h16 of
                  None \<Rightarrow> None
                | Some h \<Rightarrow> Some (Ok (r\<lparr>cr_headers := put_headers X (wc_headers config) h\<rparr>)))))"

section \<open>The connection\<close>

definition wss_connect :: "'c wss_ext \<Rightarrow> WssClientConfig \<Rightarrow> ('c, WssClientError) result option" where
  "wss_connect X config =
     (case build_request X config of
        None \<Rightarrow> None
      | Some (Err e) \<Rightarrow> Some (Err e)
      | Some (Ok request) \<Rightarrow>
          (case wx_connect X (wc_url config) request (64 * 2 ^ 20) (16 * 2 ^ 20) of
             Err e \<Rightarrow> Some (Err (ConnectionFailed e))
           | Ok stream \<Rightarrow> Some (Ok stream)))"

definition send_msg :: "'c wss_ext \<Rightarrow> 'c \<Rightarrow> Message \<Rightarrow> 'c \<times> (unit, WssClientError) result" where
  "send_msg X c m =
     (case wx_send X c m of (c', Ok u) \<Rightarrow> (c', Ok ()) | (c', Err e) \<Rightarrow> (c', Err (SendFailed e)))"

definition send_binary :: "'c wss_ext \<Rightarrow> 'c \<Rightarrow> bytes \<Rightarrow> 'c \<times> (unit, WssClientError) result" where
  "send_binary X c data = send_msg X c (Binary data)"

definition send_text :: "'c wss_ext \<Rightarrow> 'c \<Rightarrow> bytes \<Rightarrow> 'c \<times> (unit, WssClientError) result" where
  "send_text X c txt = send_msg X c (Text txt)"

definition wss_ping :: "'c wss_ext \<Rightarrow> 'c \<Rightarrow> bytes \<Rightarrow> 'c \<times> (unit, WssClientError) result" where
  "wss_ping X c data = send_msg X c (Ping data)"

definition wss_close :: "'c wss_ext \<Rightarrow> 'c \<Rightarrow> 'c \<times> (unit, WssClientError) result" where
  "wss_close X c =
     (case wx_close X c of (c', Ok u) \<Rightarrow> (c', Ok ()) | (c', Err e) \<Rightarrow> (c', Err (SendFailed e)))"

text \<open>The padding is random, of 100 to 499 bytes each.\<close>

fun send_paddings :: "'c wss_ext \<Rightarrow> 'c \<Rightarrow> bytes list \<Rightarrow> 'c \<times> (unit, WssClientError) result" where
  "send_paddings X c [] = (c, Ok ())"
| "send_paddings X c (p # ps) =
     (case send_binary X c p of (c', Err e) \<Rightarrow> (c', Err e) | (c', Ok u) \<Rightarrow> send_paddings X c' ps)"

definition send_initial_frames :: "'c wss_ext \<Rightarrow> 'c \<Rightarrow> bytes \<Rightarrow> bytes \<Rightarrow> 'c \<times> (unit, WssClientError) result" where
  "send_initial_frames X c p1 p2 =
     (case send_text X c (ascii ''ping'') of
        (c', Err e) \<Rightarrow> (c', Err e)
      | (c', Ok u) \<Rightarrow> send_paddings X c' [p1, p2])"

definition wss_receive :: "'c wss_ext \<Rightarrow> 'c \<Rightarrow> 'c \<times> (Message, WssClientError) result" where
  "wss_receive X c =
     (case wx_next X c of
        (c', Some (Ok msg)) \<Rightarrow> (c', Ok msg)
      | (c', Some (Err e)) \<Rightarrow> (c', Err (ReceiveFailed e))
      | (c', None) \<Rightarrow> (c', Err ConnectionClosed))"

partial_function (option) receive_binary ::
  "'c wss_ext \<Rightarrow> 'c \<Rightarrow> ('c \<times> (bytes, WssClientError) result) option" where
  "receive_binary X c =
     (case wss_receive X c of
        (c1, Err e) \<Rightarrow> Some (c1, Err e)
      | (c1, Ok msg) \<Rightarrow>
          (case msg of
             Binary data \<Rightarrow> Some (c1, Ok data)
           | Ping data \<Rightarrow>
               (case send_msg X c1 (Pong data) of
                  (c2, Err e) \<Rightarrow> Some (c2, Err e)
                | (c2, Ok u) \<Rightarrow> receive_binary X c2)
           | Close \<Rightarrow> Some (c1, Err ConnectionClosed)
           | _ \<Rightarrow> receive_binary X c1))"

section \<open>Lemmas\<close>

text \<open>\<open>passes_over X c ms d\<close>: from \<open>c\<close> the stream yields the messages \<open>ms\<close>, none of them binary or a
  close, every ping among them can be answered, and it is then in the state \<open>d\<close>.\<close>

fun passes_over :: "'c wss_ext \<Rightarrow> 'c \<Rightarrow> Message list \<Rightarrow> 'c \<Rightarrow> bool" where
  "passes_over X c [] d \<longleftrightarrow> c = d"
| "passes_over X c (m # ms) d \<longleftrightarrow>
     snd (wx_next X c) = Some (Ok m) \<and>
     (case m of
        Ping p \<Rightarrow> is_ok (snd (wx_send X (fst (wx_next X c)) (Pong p))) \<and>
          passes_over X (fst (wx_send X (fst (wx_next X c)) (Pong p))) ms d
      | Binary b \<Rightarrow> False
      | Close \<Rightarrow> False
      | _ \<Rightarrow> passes_over X (fst (wx_next X c)) ms d)"

lemma wss_receive_next: "snd (wx_next X c) = Some (Ok m) \<Longrightarrow> wss_receive X c = (fst (wx_next X c), Ok m)"
  by (cases "wx_next X c") (simp add: wss_receive_def)

lemma send_msg_ok: "is_ok (snd (wx_send X c m)) \<Longrightarrow> send_msg X c m = (fst (wx_send X c m), Ok ())"
  by (cases "wx_send X c m") (auto simp: send_msg_def split: result.splits)

lemma receive_binary_passes: "passes_over X c ms d \<Longrightarrow> receive_binary X c = receive_binary X d"
proof (induction ms arbitrary: c)
  case (Cons m ms)
  then have r: "wss_receive X c = (fst (wx_next X c), Ok m)" by (simp add: wss_receive_next)
  show ?case
  proof (cases m)
    case (Ping p)
    with Cons.prems have s: "is_ok (snd (wx_send X (fst (wx_next X c)) (Pong p)))"
      "passes_over X (fst (wx_send X (fst (wx_next X c)) (Pong p))) ms d" by simp_all
    show ?thesis
      by (subst receive_binary.simps) (simp add: r Ping send_msg_ok [OF s(1)] Cons.IH [OF s(2)])
  qed (use Cons in \<open>subst receive_binary.simps, simp add: r\<close>)+
qed simp

lemma put_header_Some:
  "put_header X name v hs = Some m' \<Longrightarrow> \<exists>m. hs = Some m \<and> m' = dinsert name v m"
  by (auto simp: put_header_def split: option.splits if_splits)

lemma put_headers_other:
  "wss_ext_ok X \<Longrightarrow> \<forall>(k, v)\<in>set hs. map to_ascii_lower k \<noteq> n \<Longrightarrow> dget (put_headers X hs m) n = dget m n"
  by (induction X hs m rule: put_headers.induct) (auto simp: wss_ext_ok_def split: option.splits)

lemma fixed_headers_upgrade:
  "fixed_headers X config r = Some h \<Longrightarrow> dget h ''upgrade'' = dget (cr_headers r) ''upgrade''"
  by (auto simp: fixed_headers_def Let_def dest!: put_header_Some split: option.splits if_splits)

lemma fixed_headers_host:
  "fixed_headers X config r = Some h \<Longrightarrow> dget h ''host'' = Some (request_host r)"
  by (auto simp: fixed_headers_def Let_def dest!: put_header_Some split: option.splits if_splits)

text \<open>The request as the daemon's server sees it.\<close>

definition server_request :: "string \<Rightarrow> client_request \<Rightarrow> request" where
  "server_request path r =
     \<lparr>rq_method = GET, rq_path = path, rq_query = None, rq_headers = map (\<lambda>(k, v). (k, Some v)) (cr_headers r),
      rq_body = None\<rparr>"

lemma header_str_server: "header_str (server_request path r) n = dget (cr_headers r) n"
  by (simp add: header_str_def server_request_def map_of_map dget_def split: option.splits)

lemma is_upgrade_server:
  "dget (cr_headers r) ''upgrade'' = Some ''websocket'' \<Longrightarrow> is_upgrade (server_request path r)"
  by (simp add: is_upgrade_def header_str_server eq_ignore_ascii_case_def)

section \<open>Properties\<close>

text \<open>C33. Receiving ends: as soon as a binary message arrives after any texts, pongs and answered
  pings, \<open>receive_binary\<close> returns its data, and as soon as a close arrives, \<open>ConnectionClosed\<close>.\<close>

theorem receive_binary_returns:
  assumes "passes_over X c ms d" "snd (wx_next X d) = Some (Ok m)"
  shows "(m = Binary data \<longrightarrow> receive_binary X c = Some (fst (wx_next X d), Ok data)) \<and>
    (m = Close \<longrightarrow> receive_binary X c = Some (fst (wx_next X d), Err ConnectionClosed))"
  unfolding receive_binary_passes [OF assms(1)]
  by (subst (1 2) receive_binary.simps) (simp add: wss_receive_next [OF assms(2)])

text \<open>The token a client is configured with reaches the daemon: the request built is an upgrade
  request whose authorization header is read back as that token, so that \<open>/connect\<close> goes on to verify
  it, unless custom headers replace these two.\<close>

lemma token_reaches_handler:
  assumes "wss_ext_ok X" "build_request X config = Some (Ok r)" "wc_token config = Some token"
    "\<forall>(k, v)\<in>set (wc_headers config). map to_ascii_lower k \<notin> {''upgrade'', ''authorization''}"
    "\<forall>(k, v)\<in>set (bp_plugin_headers (wc_browser_profile config)). map to_ascii_lower k \<noteq> ''upgrade''"
  shows "is_upgrade (server_request path r) \<and>
    header_str (server_request path r) ''authorization'' = Some (''Bearer '' @ token) \<and>
    fst (handle_connect H security (server_request path r) now inst) \<noteq> Ok (text_resp 400 ''Expected WebSocket upgrade'') \<and>
    fst (handle_connect H security (server_request path r) now inst) \<noteq>
      Ok (text_resp 401 ''Unauthorized: Missing or invalid Authorization header'')"
proof -
  obtain r0 h where r0: "wx_into_client_request X (wc_url config) = Ok r0" and h: "fixed_headers X config r0 = Some h"
    and v: "wx_header_value X (''Bearer '' @ token)"
    and r: "cr_headers r = put_headers X (wc_headers config) (dinsert ''authorization'' (''Bearer '' @ token)
        (put_headers X (bp_plugin_headers (wc_browser_profile config)) h))"
    using assms(2,3) unfolding build_request_def put_header_def Let_def
    by (auto split: result.splits option.splits if_splits)
  have a: "dget (cr_headers r) ''authorization'' = Some (''Bearer '' @ token)"
    unfolding r using assms(1,4) by (subst put_headers_other) auto
  have "dget (cr_headers r) ''upgrade'' = dget (cr_headers r0) ''upgrade''"
    unfolding r using assms(1,4,5) fixed_headers_upgrade [OF h]
    by (subst put_headers_other, simp, force, simp, subst put_headers_other) auto
  then have u: "is_upgrade (server_request path r)"
    using assms(1) r0 by (intro is_upgrade_server) (simp add: wss_ext_ok_def)
  with a show ?thesis
    by (auto simp: handle_connect_def header_str_server text_resp_def ascii_def upgrade_resp_def Let_def
        split: option.splits result.splits)
qed

definition demo_wss :: "(Message list \<times> Message list) wss_ext" where
  "demo_wss =
     \<lparr>wx_into_client_request = (\<lambda>url. Ok \<lparr>cr_scheme = Some ''wss'', cr_host = Some ''example.org'',
        cr_headers = [(''host'', ''example.org:8443''), (''upgrade'', ''websocket'')]\<rparr>),
      wx_header_name = (\<lambda>n. Some (map to_ascii_lower n)), wx_header_value = (\<lambda>_. True),
      wx_connect = (\<lambda>url r m f. if url = ''wss://down'' then Err ''refused'' else Ok ([], [])),
      wx_send = (\<lambda>(rx, tx) m. ((rx, tx @ [m]), Ok ())),
      wx_next = (\<lambda>(rx, tx). case rx of [] \<Rightarrow> (([], tx), None) | m # rx' \<Rightarrow> ((rx', tx), Some (Ok m))),
      wx_close = (\<lambda>c. (c, Ok ()))\<rparr>"

lemma demo_wss_ok: "wss_ext_ok demo_wss"
  by (auto simp: wss_ext_ok_def demo_wss_def dget_def)

theorem receive_binary_returns_witness:
  "receive_binary demo_wss ([Text [1], Ping [2], Binary [3, 4], Close], []) = Some (([Close], [Pong [2]]), Ok [3, 4])"
proof -
  have p: "passes_over demo_wss ([Text [1], Ping [2], Binary [3, 4], Close], []) [Text [1], Ping [2]]
      ([Binary [3, 4], Close], [Pong [2]])"
    "snd (wx_next demo_wss ([Binary [3, 4], Close], [Pong [2]])) = Some (Ok (Binary [3, 4]))"
    by (simp_all add: demo_wss_def)
  from receive_binary_returns [OF p, where data = "[3, 4]"] show ?thesis by (simp add: demo_wss_def)
qed

definition demo_wss_config :: WssClientConfig where
  "demo_wss_config = wss_client_config_default\<lparr>wc_url := ''wss://example.org:8443/connect'', wc_token := Some ''abc'',
     wc_browser_profile := chrome_120_with_adblock\<rparr>"

lemma demo_request_built: "\<exists>r. build_request demo_wss demo_wss_config = Some (Ok r)"
  by (simp add: build_request_def fixed_headers_def put_header_def demo_wss_def demo_wss_config_def
      wss_client_config_default_def Let_def)

end
