(* ===== verification/Connection_Pool.thy ===== *)
theory Connection_Pool
  imports Wss_Client
begin

text \<open>
  The pool of WebSocket connections, \<^verbatim>\<open>crates/transport/src/pool.rs\<close>: a slot per connection, used in
  turn. Slots are a list of optional clients behind one lock each, the counter is an atomic \<^verbatim>\<open>usize\<close>
  of 64 bits that wraps. The operation run on a connection is an argument; \<^verbatim>\<open>None\<close> is a panic.
\<close>

datatype PoolError = PoolExhausted | PoolConnectionFailed WssClientError | PoolClosed

record ConnectionPoolConfig =
  pc_pool_size :: nat
  pc_endpoints :: "string list"
  pc_token :: "string option"
  pc_auto_reconnect :: bool

definition connection_pool_config_default :: ConnectionPoolConfig where
  "connection_pool_config_default = \<lparr>pc_pool_size = 6, pc_endpoints = [], pc_token = None, pc_auto_reconnect = True\<rparr>"

record 'c ConnectionPool =
  cp_config :: ConnectionPoolConfig
  cp_connections :: "'c option list"
  cp_robin_counter :: u64
  cp_closed :: bool

definition cp_new :: "ConnectionPoolConfig \<Rightarrow> 'c ConnectionPool" where
  "cp_new config =
     \<lparr>cp_config = config, cp_connections = replicate (pc_pool_size config) None, cp_robin_counter = 0, cp_closed = False\<rparr>"

text \<open>Indexing panics out of range.\<close>

definition connect_slot ::
  "'c wss_ext \<Rightarrow> 'c ConnectionPool \<Rightarrow> nat \<Rightarrow> string \<Rightarrow> bytes \<times> bytes \<Rightarrow>
     ('c ConnectionPool \<times> (unit, PoolError) result) option" where
  "connect_slot X pool slot endpoint paddings =
     (let config = wss_client_config_default\<lparr>wc_url := endpoint, wc_token := pc_token (cp_config pool)\<rparr> in
      case wss_connect X config of
        None \<Rightarrow> None
      | Some (Err e) \<Rightarrow> Some (pool, Err (PoolConnectionFailed e))
      | Some (Ok client) \<Rightarrow>
          (case send_initial_frames X client (fst paddings) (snd paddings) of
             (client', Err e) \<Rightarrow> Some (pool, Err (PoolConnectionFailed e))
           | (client', Ok u) \<Rightarrow>
               if slot < length (cp_connections pool)
               then Some (pool\<lparr>cp_connections := (cp_connections pool)[slot := Some client']\<rparr>, Ok ())
               else None))"

fun connect_slots ::
  "'c wss_ext \<Rightarrow> (nat \<Rightarrow> bytes \<times> bytes) \<Rightarrow> nat list \<Rightarrow> 'c ConnectionPool \<Rightarrow>
     ('c ConnectionPool \<times> (unit, PoolError) result) option" where
  "connect_slots X paddings [] pool = Some (pool, Ok ())"
| "connect_slots X paddings (i # is) pool =
     (let endpoints = pc_endpoints (cp_config pool) in
      case connect_slot X pool i (endpoints ! (i mod length endpoints)) (paddings i) of
        None \<Rightarrow> None
      | Some (pool', Err e) \<Rightarrow> Some (pool', Err e)
      | Some (pool', Ok u) \<Rightarrow> connect_slots X paddings is pool')"

definition connect_all ::
  "'c wss_ext \<Rightarrow> (nat \<Rightarrow> bytes \<times> bytes) \<Rightarrow> 'c ConnectionPool \<Rightarrow>
     ('c ConnectionPool \<times> (unit, PoolError) result) option" where
  "connect_all X paddings pool =
     (if pc_endpoints (cp_config pool) = []
      then Some (pool, Err (PoolConnectionFailed (InvalidUrl ''No endpoints configured'')))
      else connect_slots X paddings [0..<pc_pool_size (cp_config pool)] pool)"

definition get_slot :: "'c ConnectionPool \<Rightarrow> (nat \<times> 'c ConnectionPool) option" where
  "get_slot pool =
     (if pc_pool_size (cp_config pool) = 0 then None
      else Some (unat (cp_robin_counter pool) mod pc_pool_size (cp_config pool),
                 pool\<lparr>cp_robin_counter := cp_robin_counter pool + 1\<rparr>))"

definition with_connection ::
  "('c \<Rightarrow> 'c \<times> ('t, WssClientError) result) \<Rightarrow> 'c ConnectionPool \<Rightarrow>
     ('c ConnectionPool \<times> ('t, PoolError) result) option" where
  "with_connection f pool =
     (if cp_closed pool then Some (pool, Err PoolClosed)
      else case get_slot pool of
          None \<Rightarrow> None
        | Some (slot, pool1) \<Rightarrow>
            if slot < length (cp_connections pool1)
            then (case cp_connections pool1 ! slot of
                Some client \<Rightarrow>
                  (case f client of
                     (client', Ok v) \<Rightarrow>
                       Some (pool1\<lparr>cp_connections := (cp_connections pool1)[slot := Some client']\<rparr>, Ok v)
                   | (client', Err e) \<Rightarrow>
                       Some (pool1\<lparr>cp_connections := (cp_connections pool1)[slot := None]\<rparr>,
                             Err (PoolConnectionFailed e)))
              | None \<Rightarrow> Some (pool1, Err PoolExhausted))
            else None)"

text \<open>The clients taken out are closed; their errors are ignored.\<close>

definition cp_close :: "'c wss_ext \<Rightarrow> 'c ConnectionPool \<Rightarrow> 'c ConnectionPool \<times> 'c list" where
  "cp_close X pool =
     (pool\<lparr>cp_closed := True, cp_connections := map (\<lambda>_. None) (cp_connections pool)\<rparr>,
      map (\<lambda>c. fst (wss_close X c)) (List.map_filter id (cp_connections pool)))"

record PoolStats =
  ps_pool_size :: nat
  ps_active_connections :: nat
  ps_total_requests :: u64

definition cp_stats :: "'c ConnectionPool \<Rightarrow> PoolStats" where
  "cp_stats pool =
     \<lparr>ps_pool_size = pc_pool_size (cp_config pool),
      ps_active_connections = length (filter (\<lambda>c. c \<noteq> None) (cp_connections pool)),
      ps_total_requests = cp_robin_counter pool\<rparr>"

section \<open>Lemmas\<close>

definition cp_ok :: "'c ConnectionPool \<Rightarrow> bool" where
  "cp_ok pool \<longleftrightarrow> length (cp_connections pool) = pc_pool_size (cp_config pool)"

lemma cp_ok_new: "cp_ok (cp_new config)"
  by (simp add: cp_ok_def cp_new_def)

lemma connect_slot_shape:
  "connect_slot X pool slot endpoint p = Some (pool', r) \<Longrightarrow> cp_config pool' = cp_config pool \<and>
     length (cp_connections pool') = length (cp_connections pool)"
  by (auto simp: connect_slot_def Let_def split: option.splits result.splits prod.splits if_splits)

lemma connect_slots_shape:
  "connect_slots X paddings is pool = Some (pool', r) \<Longrightarrow> cp_config pool' = cp_config pool \<and>
     length (cp_connections pool') = length (cp_connections pool)"
proof (induction "is" arbitrary: pool)
  case (Cons i "is")
  then show ?case
    using connect_slot_shape by (fastforce simp: Let_def split: option.splits result.splits prod.splits)
qed simp

lemma cp_ok_connect_all: "connect_all X paddings pool = Some (pool', r) \<Longrightarrow> cp_ok pool \<Longrightarrow> cp_ok pool'"
  using connect_slots_shape by (fastforce simp: connect_all_def cp_ok_def split: if_splits)

lemma cp_ok_close: "cp_ok pool \<Longrightarrow> cp_ok (fst (cp_close X pool))"
  by (simp add: cp_ok_def cp_close_def)

text \<open>What one request does to a pool that is open.\<close>

lemma with_connection_open:
  assumes "cp_ok pool" "\<not> cp_closed pool" "0 < pc_pool_size (cp_config pool)"
  shows "\<exists>pool' r. with_connection f pool = Some (pool', r) \<and> cp_ok pool' \<and> \<not> cp_closed pool' \<and>
    cp_config pool' = cp_config pool \<and> cp_robin_counter pool' = cp_robin_counter pool + 1 \<and>
    (\<forall>i. i < length (cp_connections pool) \<longrightarrow> cp_connections pool ! i = None \<longrightarrow> cp_connections pool' ! i = None) \<and>
    (cp_connections pool ! (unat (cp_robin_counter pool) mod pc_pool_size (cp_config pool)) = None \<longrightarrow> r = Err PoolExhausted)"
proof -
  let ?slot = "unat (cp_robin_counter pool) mod pc_pool_size (cp_config pool)"
  have s: "?slot < length (cp_connections pool)" using assms by (simp add: cp_ok_def)
  show ?thesis
  proof (cases "cp_connections pool ! ?slot")
    case None
    then show ?thesis using assms s by (simp add: with_connection_def get_slot_def cp_ok_def)
  next
    case (Some c)
    obtain c' r where f: "f c = (c', r)" by force
    show ?thesis using assms s Some f
      by (cases r) (auto simp: with_connection_def get_slot_def cp_ok_def nth_list_update)
  qed
qed

lemma with_connection_working:
  assumes "cp_ok pool" "\<not> cp_closed pool" "0 < pc_pool_size (cp_config pool)" "\<forall>c. is_ok (snd (f c))"
    "with_connection f pool = Some (pool', r)"
  shows "(is_ok r \<longleftrightarrow> cp_connections pool ! (unat (cp_robin_counter pool) mod pc_pool_size (cp_config pool)) \<noteq> None) \<and>
    (\<forall>i < length (cp_connections pool). cp_connections pool' ! i = None \<longleftrightarrow> cp_connections pool ! i = None)"
proof -
  let ?slot = "unat (cp_robin_counter pool) mod pc_pool_size (cp_config pool)"
  have s: "?slot < length (cp_connections pool)" using assms by (simp add: cp_ok_def)
  show ?thesis
  proof (cases "cp_connections pool ! ?slot")
    case None
    then show ?thesis using assms s by (auto simp: with_connection_def get_slot_def)
  next
    case (Some c)
    obtain c' v where f: "f c = (c', Ok v)"
      using assms(4) by (metis is_ok.simps(2) prod.collapse result.exhaust)
    show ?thesis using assms s Some f
      by (auto simp: with_connection_def get_slot_def nth_list_update split: if_splits)
  qed
qed

text \<open>A sequence of requests, and their results.\<close>

fun run_requests ::
  "('c \<Rightarrow> 'c \<times> ('t, WssClientError) result) list \<Rightarrow> 'c ConnectionPool \<Rightarrow>
     ('c ConnectionPool \<times> ('t, PoolError) result list) option" where
  "run_requests [] pool = Some (pool, [])"
| "run_requests (f # fs) pool =
     (case with_connection f pool of
        None \<Rightarrow> None
      | Some (pool1, r) \<Rightarrow> map_option (\<lambda>(pool2, rs). (pool2, r # rs)) (run_requests fs pool1))"

lemma unat_counter_Suc: "unat (w :: u64) + Suc k \<le> 2 ^ 64 - 1 \<Longrightarrow> unat (w + 1) = Suc (unat w)"
  by (simp add: unat_word_ariths)

text \<open>The result of each request, by the slot its turn falls on.\<close>

lemma run_requests_slots:
  assumes "cp_ok pool" "\<not> cp_closed pool" "0 < pc_pool_size (cp_config pool)"
    "unat (cp_robin_counter pool) + length fs \<le> 2 ^ 64 - 1"
  shows "\<exists>pool' rs. run_requests fs pool = Some (pool', rs) \<and> length rs = length fs \<and> cp_ok pool' \<and>
    (\<forall>k < length fs.
       let slot = (unat (cp_robin_counter pool) + k) mod pc_pool_size (cp_config pool) in
       (cp_connections pool ! slot = None \<longrightarrow> rs ! k = Err PoolExhausted) \<and>
       ((\<forall>f\<in>set fs. \<forall>c. is_ok (snd (f c))) \<longrightarrow> is_ok (rs ! k) = (cp_connections pool ! slot \<noteq> None)))"
  using assms
proof (induction fs arbitrary: pool)
  case (Cons f fs)
  let ?n = "pc_pool_size (cp_config pool)"
  obtain pool1 r where w: "with_connection f pool = Some (pool1, r)"
    and p1: "cp_ok pool1" "\<not> cp_closed pool1" "cp_config pool1 = cp_config pool"
    and ctr: "cp_robin_counter pool1 = cp_robin_counter pool + 1"
    and dead: "\<forall>i. i < length (cp_connections pool) \<longrightarrow> cp_connections pool ! i = None \<longrightarrow> cp_connections pool1 ! i = None"
    and first: "cp_connections pool ! (unat (cp_robin_counter pool) mod ?n) = None \<longrightarrow> r = Err PoolExhausted"
    using with_connection_open [OF Cons.prems(1-3), of f] by (elim exE conjE) (rule that; assumption)
  have suc: "unat (cp_robin_counter pool1) = Suc (unat (cp_robin_counter pool))"
    using Cons.prems(4) unat_counter_Suc [of "cp_robin_counter pool" "length fs"] by (simp add: ctr)
  obtain pool2 rs where r2: "run_requests fs pool1 = Some (pool2, rs)" "length rs = length fs" "cp_ok pool2"
    and later: "\<And>k. k < length fs \<Longrightarrow>
      let slot = (unat (cp_robin_counter pool1) + k) mod ?n in
       (cp_connections pool1 ! slot = None \<longrightarrow> rs ! k = Err PoolExhausted) \<and>
       ((\<forall>f\<in>set fs. \<forall>c. is_ok (snd (f c))) \<longrightarrow> is_ok (rs ! k) = (cp_connections pool1 ! slot \<noteq> None))"
    using Cons.IH [OF p1(1,2)] p1(3) Cons.prems(3,4) suc by auto
  have lt: "j mod ?n < length (cp_connections pool)" for j
    using Cons.prems(1,3) by (simp add: cp_ok_def)
  have "let slot = (unat (cp_robin_counter pool) + k) mod ?n in
       (cp_connections pool ! slot = None \<longrightarrow> (r # rs) ! k = Err PoolExhausted) \<and>
       ((\<forall>f\<in>set (f # fs). \<forall>c. is_ok (snd (f c))) \<longrightarrow> is_ok ((r # rs) ! k) = (cp_connections pool ! slot \<noteq> None))"
    if "k < length (f # fs)" for k
  proof (cases k)
    case 0
    with first with_connection_working [OF Cons.prems(1-3) _ w] show ?thesis by (simp add: Let_def)
  next
    case (Suc k')
    with that have k': "k' < length fs" by simp
    have e: "unat (cp_robin_counter pool1) + k' = unat (cp_robin_counter pool) + k" using suc Suc by simp
    note l = later [OF k', unfolded e Let_def]
    show ?thesis
      using l dead lt [of "unat (cp_robin_counter pool) + k"] with_connection_working [OF Cons.prems(1-3) _ w] Suc
      by (auto simp: Let_def)
  qed
  then show ?case using w r2 by simp
qed simp

section \<open>Properties\<close>

text \<open>Requests are spread over the slots in turn, and a slot that is lost stays lost: the request
  whose turn falls on an empty slot is answered \<open>PoolExhausted\<close>, whatever happens before it and
  although \<open>auto_reconnect\<close> is set, while the other slots serve; no request panics.\<close>

lemma requests_round_robin:
  assumes "cp_ok pool" "\<not> cp_closed pool" "0 < pc_pool_size (cp_config pool)"
    "unat (cp_robin_counter pool) + length fs \<le> 2 ^ 64 - 1"
  shows "\<exists>pool' rs. run_requests fs pool = Some (pool', rs) \<and> length rs = length fs \<and>
    (\<forall>k < length fs.
       let slot = (unat (cp_robin_counter pool) + k) mod pc_pool_size (cp_config pool) in
       (cp_connections pool ! slot = None \<longrightarrow> rs ! k = Err PoolExhausted) \<and>
       ((\<forall>f\<in>set fs. \<forall>c. is_ok (snd (f c))) \<longrightarrow> is_ok (rs ! k) = (cp_connections pool ! slot \<noteq> None)))"
  using run_requests_slots [OF assms] by blast

end
