(* ===== verification/Wal_Log.thy ===== *)
theory Wal_Log
  imports Apfsds_Prelude
begin

text \<open>
  The write-ahead log, \<^verbatim>\<open>crates/storage/src/wal.rs\<close>, on a model of the \<^verbatim>\<open>std::fs::File\<close> it owns: a file
  handle is the contents of the file, the position of the handle and the number of bytes the
  device still accepts, after which \<^verbatim>\<open>write_all\<close> stores a prefix and fails. CRC-32, the
  big-endian readers and writers of \<^verbatim>\<open>byteorder\<close> and the outcomes of \<^verbatim>\<open>sync_all\<close> and \<^verbatim>\<open>set_len\<close> are the
  parameters in \<open>wal_ext\<close>, with what is documented of them in \<open>wal_ext_ok\<close>.
  The interface the replicated log relies on is the locale \<open>durable_log\<close>; the interpretation
  \<open>wal_log\<close> discharges it for the write-ahead log.
\<close>

section \<open>Files\<close>

datatype io_error = UnexpectedEof | InvalidData string | StorageFull | OsError string

record File =
  f_contents :: bytes
  f_pos :: nat
  f_room :: nat

text \<open>Writing past the end fills the gap with zeros, as a seek past the end does.\<close>

definition write_at :: "bytes \<Rightarrow> nat \<Rightarrow> bytes \<Rightarrow> bytes" where
  "write_at c pos d = take pos (c @ replicate (pos - length c) 0) @ d @ drop (pos + length d) c"

definition write_all :: "File \<Rightarrow> bytes \<Rightarrow> (unit, io_error) result \<times> File" where
  "write_all f d =
     (let n = min (length d) (f_room f);
          f' = f\<lparr>f_contents := write_at (f_contents f) (f_pos f) (take n d), f_pos := f_pos f + n,
                 f_room := f_room f - n\<rparr>
      in (if n < length d then Err StorageFull else Ok (), f'))"

definition set_len :: "File \<Rightarrow> nat \<Rightarrow> File" where
  "set_len f n = f\<lparr>f_contents := take n (f_contents f @ replicate (n - length (f_contents f)) 0)\<rparr>"

section \<open>The log\<close>

record wal_ext =
  wx_crc :: "bytes \<Rightarrow> u32"
  wx_write_u32 :: "u32 \<Rightarrow> bytes"
  wx_write_u64 :: "u64 \<Rightarrow> bytes"
  wx_read_u32 :: "bytes \<Rightarrow> u32"
  wx_read_u64 :: "bytes \<Rightarrow> u64"
  wx_sync_all :: "File \<Rightarrow> (unit, io_error) result"
  wx_set_len :: "File \<Rightarrow> nat \<Rightarrow> (unit, io_error) result"

definition wal_ext_ok :: "wal_ext \<Rightarrow> bool" where
  "wal_ext_ok X \<longleftrightarrow> wx_write_u32 X = u32_to_be \<and> wx_write_u64 X = u64_to_be \<and>
     (\<forall>b. length b = 4 \<longrightarrow> wx_read_u32 X b = u32_from_be b) \<and>
     (\<forall>b. length b = 8 \<longrightarrow> wx_read_u64 X b = u64_from_be b)"

definition HEADER_SIZE :: nat where
  "HEADER_SIZE = 4 + 8"

definition MAX_ENTRY :: nat where
  "MAX_ENTRY = 128 * 1024 * 1024"

record Wal =
  wal_path :: string
  wal_file :: File

text \<open>Opening gives a handle at position 0 on what is already there.\<close>

definition wal_open :: "string \<Rightarrow> bytes \<Rightarrow> nat \<Rightarrow> Wal" where
  "wal_open path contents room =
     \<lparr>wal_path = path, wal_file = \<lparr>f_contents = contents, f_pos = 0, f_room = room\<rparr>\<rparr>"

definition wal_append :: "wal_ext \<Rightarrow> Wal \<Rightarrow> bytes \<Rightarrow> (u64, io_error) result \<times> Wal" where
  "wal_append X w data =
     (let checksum = wx_crc X data in
      case write_all (wal_file w) (wx_write_u32 X checksum) of
        (Err e, f1) \<Rightarrow> (Err e, w\<lparr>wal_file := f1\<rparr>)
      | (Ok _, f1) \<Rightarrow>
          (case write_all f1 (wx_write_u64 X (word_of_nat (length data))) of
             (Err e, f2) \<Rightarrow> (Err e, w\<lparr>wal_file := f2\<rparr>)
           | (Ok _, f2) \<Rightarrow>
               (case write_all f2 data of
                  (Err e, f3) \<Rightarrow> (Err e, w\<lparr>wal_file := f3\<rparr>)
                | (Ok _, f3) \<Rightarrow> (Ok (word_of_nat (f_pos f3)), w\<lparr>wal_file := f3\<rparr>))))"

text \<open>What the operating system answers to \<^verbatim>\<open>sync_all\<close> and \<^verbatim>\<open>set_len\<close> is a parameter too; nothing is
  assumed of it.\<close>

definition wal_sync :: "wal_ext \<Rightarrow> Wal \<Rightarrow> (unit, io_error) result" where
  "wal_sync X w = wx_sync_all X (wal_file w)"

definition wal_truncate :: "wal_ext \<Rightarrow> Wal \<Rightarrow> u64 \<Rightarrow> (unit, io_error) result \<times> Wal" where
  "wal_truncate X w n =
     (case wx_set_len X (wal_file w) (unat n) of
        Err e \<Rightarrow> (Err e, w)
      | Ok _ \<Rightarrow> (let f = set_len (wal_file w) (unat n) in (wx_sync_all X f, w\<lparr>wal_file := f\<rparr>)))"

text \<open>The loop of \<^verbatim>\<open>read_all\<close> on what is left of the file: the entries read, or the error, and the
  number of bytes the handle has advanced. A short read leaves the handle at the end.\<close>

function read_entries :: "wal_ext \<Rightarrow> bytes \<Rightarrow> (bytes list, io_error) result \<times> nat" where
  "read_entries X rest =
     (if length rest < 4 then (Ok [], length rest)
      else let checksum = wx_read_u32 X (take 4 rest); rest1 = drop 4 rest in
        if length rest1 < 8 then (Err UnexpectedEof, length rest)
        else let len = wx_read_u64 X (take 8 rest1); rest2 = drop 8 rest1 in
          if unat len > 128 * 1024 * 1024 then (Err (InvalidData ''Entry too large''), 12)
          else if length rest2 < unat len then (Err UnexpectedEof, length rest)
          else let buffer = take (unat len) rest2 in
            if wx_crc X buffer \<noteq> checksum
            then (Err (InvalidData ''Checksum mismatch''), 12 + unat len)
            else (case read_entries X (drop (unat len) rest2) of
                (Err e, n) \<Rightarrow> (Err e, 12 + unat len + n)
              | (Ok entries, n) \<Rightarrow> (Ok (buffer # entries), 12 + unat len + n)))"
  by pat_completeness auto
termination
  by (relation "measure (\<lambda>(X, rest). length rest)") auto

declare read_entries.simps [simp del]

definition wal_read_all :: "wal_ext \<Rightarrow> Wal \<Rightarrow> (bytes list, io_error) result \<times> Wal" where
  "wal_read_all X w =
     (let contents = f_contents (wal_file w) in
      case read_entries X contents of
        (Err e, n) \<Rightarrow> (Err e, w\<lparr>wal_file := (wal_file w)\<lparr>f_pos := n\<rparr>\<rparr>)
      | (Ok entries, _) \<Rightarrow> (Ok entries, w\<lparr>wal_file := (wal_file w)\<lparr>f_pos := length contents\<rparr>\<rparr>))"

section \<open>Images of logs\<close>

definition wal_record :: "wal_ext \<Rightarrow> bytes \<Rightarrow> bytes" where
  "wal_record X d = wx_write_u32 X (wx_crc X d) @ wx_write_u64 X (word_of_nat (length d)) @ d"

definition wal_image :: "wal_ext \<Rightarrow> bytes list \<Rightarrow> bytes" where
  "wal_image X es = concat (map (wal_record X) es)"

definition wal_aligned :: "wal_ext \<Rightarrow> Wal \<Rightarrow> bytes list \<Rightarrow> bool" where
  "wal_aligned X w es \<longleftrightarrow> wal_ext_ok X \<and> f_contents (wal_file w) = wal_image X es \<and>
     f_pos (wal_file w) = length (wal_image X es) \<and> (\<forall>e\<in>set es. length e \<le> MAX_ENTRY)"

section \<open>The interface of a durable log\<close>

fun append_all ::
  "('w \<Rightarrow> bytes \<Rightarrow> ('p, 'e) result \<times> 'w) \<Rightarrow> 'w \<Rightarrow> bytes list \<Rightarrow> bool \<times> 'w" where
  "append_all app w [] = (True, w)"
| "append_all app w (d # ds) =
     (case app w d of
        (Err _, w') \<Rightarrow> (False, w')
      | (Ok _, w') \<Rightarrow> append_all app w' ds)"

locale durable_log =
  fixes holds :: "'w \<Rightarrow> bytes list \<Rightarrow> bool"
    and fits :: "bytes \<Rightarrow> bool"
    and app :: "'w \<Rightarrow> bytes \<Rightarrow> ('p, 'e) result \<times> 'w"
    and read_all :: "'w \<Rightarrow> (bytes list, 'e) result \<times> 'w"
    and reopen :: "'w \<Rightarrow> 'w"
  assumes app_holds: "holds w es \<Longrightarrow> fits d \<Longrightarrow> app w d = (Ok p, w') \<Longrightarrow> holds w' (es @ [d])"
    and read_reopened: "holds w es \<Longrightarrow> \<exists>w'. read_all (reopen w) = (Ok es, w') \<and> holds w' es"
begin

lemma append_all_holds:
  "holds w es \<Longrightarrow> \<forall>d\<in>set ds. fits d \<Longrightarrow> append_all app w ds = (True, w') \<Longrightarrow> holds w' (es @ ds)"
proof (induction ds arbitrary: w es)
  case (Cons d ds)
  then obtain p w1 where step: "app w d = (Ok p, w1)" "append_all app w1 ds = (True, w')"
    by (auto split: prod.splits result.splits)
  with Cons show ?case
    using Cons.IH [of w1 "es @ [d]"] app_holds [of w es d p w1] by simp
qed simp

lemma recovers_appended:
  assumes "holds w es" "\<forall>d\<in>set ds. fits d" "append_all app w ds = (True, w')"
  shows "\<exists>w''. read_all (reopen w') = (Ok (es @ ds), w'') \<and> holds w'' (es @ ds)"
  using append_all_holds [OF assms] by (rule read_reopened)

end

section \<open>Writing\<close>

lemma write_at_end: "pos = length c \<Longrightarrow> write_at c pos d = c @ d"
  by (simp add: write_at_def)

lemma write_all_end:
  "f_pos f = length (f_contents f) \<Longrightarrow> write_all f d = (res, f') \<Longrightarrow>
     f_contents f' = f_contents f @ take (f_room f) d \<and> f_pos f' = length (f_contents f') \<and>
     f_room f' = f_room f - length d \<and> (res = Ok () \<longleftrightarrow> length d \<le> f_room f)"
  by (auto simp: write_all_def Let_def write_at_end min_def split: if_splits)

lemma wal_ext_lengths:
  "wal_ext_ok X \<Longrightarrow> length (wx_write_u32 X c) = 4" "wal_ext_ok X \<Longrightarrow> length (wx_write_u64 X n) = 8"
  by (simp_all add: wal_ext_ok_def)

lemma length_wal_record: "wal_ext_ok X \<Longrightarrow> length (wal_record X d) = 12 + length d"
  by (simp add: wal_record_def wal_ext_lengths)

lemma wal_image_append [simp]: "wal_image X (es @ ds) = wal_image X es @ wal_image X ds"
  by (simp add: wal_image_def)

lemma wal_image_Cons [simp]: "wal_image X (e # es) = wal_record X e @ wal_image X es"
  by (simp add: wal_image_def)

lemma wal_image_Nil [simp]: "wal_image X [] = []"
  by (simp add: wal_image_def)

text \<open>An append at the end of the file stores the record, or as much of it as the device takes,
  and fails in that case.\<close>

lemma wal_append_end:
  assumes ok: "wal_ext_ok X" and pos: "f_pos (wal_file w) = length (f_contents (wal_file w))"
    and app: "wal_append X w d = (res, w')"
  shows "f_contents (wal_file w') = f_contents (wal_file w) @ take (f_room (wal_file w)) (wal_record X d)"
    and "f_pos (wal_file w') = length (f_contents (wal_file w'))"
    and "is_ok res \<longleftrightarrow> 12 + length d \<le> f_room (wal_file w)"
proof -
  let ?h = "wx_write_u32 X (wx_crc X d)" and ?l = "wx_write_u64 X (word_of_nat (length d))"
  obtain r1 f1 where w1: "write_all (wal_file w) ?h = (r1, f1)" by force
  obtain r2 f2 where w2: "write_all f1 ?l = (r2, f2)" by force
  obtain r3 f3 where w3: "write_all f2 d = (r3, f3)" by force
  note e1 = write_all_end [OF pos w1]
  note e2 = write_all_end [OF conjunct1 [OF conjunct2 [OF e1]] w2]
  note e3 = write_all_end [OF conjunct1 [OF conjunct2 [OF e2]] w3]
  note len = wal_ext_lengths [OF ok]
  from app w1 w2 w3 e1 e2 e3 len
  show "f_contents (wal_file w') = f_contents (wal_file w) @ take (f_room (wal_file w)) (wal_record X d)"
    "f_pos (wal_file w') = length (f_contents (wal_file w'))"
    "is_ok res \<longleftrightarrow> 12 + length d \<le> f_room (wal_file w)"
    by (cases r1; cases r2; cases r3; auto simp: wal_append_def Let_def wal_record_def)+
qed

section \<open>Reading\<close>

lemma max_entry_word: "n \<le> MAX_ENTRY \<Longrightarrow> unat (word_of_nat n :: u64) = n"
  by (simp add: MAX_ENTRY_def unat_of_nat)

lemma read_entries_record:
  assumes "wal_ext_ok X" "length d \<le> MAX_ENTRY"
  shows "read_entries X (wal_record X d @ rest) =
    (case read_entries X rest of
       (Err e, n) \<Rightarrow> (Err e, 12 + length d + n)
     | (Ok entries, n) \<Rightarrow> (Ok (d # entries), 12 + length d + n))"
  using assms(1) assms(2) [unfolded MAX_ENTRY_def] max_entry_word [OF assms(2)] wal_ext_lengths [OF assms(1)]
  by (subst read_entries.simps)
    (simp add: wal_record_def Let_def wal_ext_ok_def split: prod.splits result.splits)

lemma read_entries_image:
  assumes "wal_ext_ok X" "\<forall>e\<in>set es. length e \<le> MAX_ENTRY"
  shows "read_entries X (wal_image X es @ rest) =
    (case read_entries X rest of
       (Err e, n) \<Rightarrow> (Err e, length (wal_image X es) + n)
     | (Ok entries, n) \<Rightarrow> (Ok (es @ entries), length (wal_image X es) + n))"
  using assms(2)
  by (induction es)
    (auto simp: read_entries_record [OF assms(1)] length_wal_record [OF assms(1)]
      split: prod.splits result.splits)

lemma read_entries_short: "length rest < 4 \<Longrightarrow> read_entries X rest = (Ok [], length rest)"
  by (subst read_entries.simps) simp

text \<open>What is left of a record cut short after its checksum is an unexpected end of file.\<close>

lemma read_entries_torn:
  assumes "wal_ext_ok X" "length d \<le> MAX_ENTRY" "4 \<le> n" "n < 12 + length d"
  shows "read_entries X (take n (wal_record X d)) = (Err UnexpectedEof, n)"
proof (cases "n < 12")
  case True
  then have "n - 4 < 8" by simp
  with True assms show ?thesis
    by (subst read_entries.simps) (simp add: length_wal_record Let_def)
next
  case False
  let ?h = "wx_write_u32 X (wx_crc X d)" and ?l = "wx_write_u64 X (word_of_nat (length d))"
  have "take n (wal_record X d) = ?h @ ?l @ take (n - 12) d"
    using False wal_ext_lengths [OF assms(1)] by (simp add: wal_record_def)
  moreover have "n - 12 < length d" "\<not> n - 4 < 8" using False assms(4) by simp_all
  ultimately show ?thesis
    using False assms(1,3,4) assms(2) [unfolded MAX_ENTRY_def] max_entry_word [OF assms(2)]
      wal_ext_lengths [OF assms(1)]
    by (subst read_entries.simps) (simp add: Let_def wal_ext_ok_def)
qed

section \<open>The log is durable\<close>

definition wal_reopen :: "Wal \<Rightarrow> Wal" where
  "wal_reopen w = wal_open (wal_path w) (f_contents (wal_file w)) (f_room (wal_file w))"

definition wal_fits :: "bytes \<Rightarrow> bool" where
  "wal_fits d \<longleftrightarrow> length d \<le> MAX_ENTRY"

lemma wal_append_aligned:
  assumes "wal_aligned X w es" "wal_fits d" "wal_append X w d = (Ok p, w')"
  shows "wal_aligned X w' (es @ [d])"
proof -
  have "wal_ext_ok X" "f_pos (wal_file w) = length (f_contents (wal_file w))"
    using assms(1) by (simp_all add: wal_aligned_def)
  from wal_append_end [OF this assms(3)] assms(1,2) show ?thesis
    by (auto simp: wal_aligned_def wal_fits_def length_wal_record)
qed

lemma wal_read_aligned:
  assumes "wal_aligned X w es"
  shows "\<exists>w'. wal_read_all X (wal_reopen w) = (Ok es, w') \<and> wal_aligned X w' es"
  using assms read_entries_image [of X es "[]"] read_entries_short [of "[]" X]
  by (auto simp: wal_aligned_def wal_read_all_def wal_reopen_def wal_open_def Let_def)

interpretation wal_log: durable_log "wal_aligned X" wal_fits "wal_append X" "wal_read_all X" wal_reopen
  for X
  by unfold_locales (auto intro: wal_append_aligned wal_read_aligned)

lemma wal_aligned_empty: "wal_ext_ok X \<Longrightarrow> wal_aligned X (wal_open path [] room) []"
  by (simp add: wal_aligned_def wal_open_def)

text \<open>After a crash or a full device the file is a valid log followed by a part of a record.\<close>

lemma wal_read_torn:
  assumes "wal_ext_ok X" "\<forall>e\<in>set es. wal_fits e" "wal_fits d" "n < 12 + length d"
  shows "fst (wal_read_all X (wal_open path (wal_image X es @ take n (wal_record X d)) room)) =
    (if n < 4 then Ok es else Err UnexpectedEof)"
proof -
  have es: "\<forall>e\<in>set es. length e \<le> MAX_ENTRY" and d: "length d \<le> MAX_ENTRY"
    using assms(2,3) by (simp_all add: wal_fits_def)
  show ?thesis
  proof (cases "n < 4")
    case True
    then have "length (take n (wal_record X d)) < 4" by simp
    from read_entries_short [OF this, of X] read_entries_image [OF assms(1) es] True show ?thesis
      by (simp add: wal_read_all_def wal_open_def)
  next
    case False
    with read_entries_torn [OF assms(1) d _ assms(4)] read_entries_image [OF assms(1) es] show ?thesis
      by (simp add: wal_read_all_def wal_open_def)
  qed
qed

section \<open>An instance of the parameters\<close>

definition demo_wal :: wal_ext where
  "demo_wal = \<lparr>wx_crc = \<lambda>d. word_of_nat (length d), wx_write_u32 = u32_to_be, wx_write_u64 = u64_to_be,
     wx_read_u32 = u32_from_be, wx_read_u64 = u64_from_be, wx_sync_all = \<lambda>_. Ok (), wx_set_len = \<lambda>_ _. Ok ()\<rparr>"

lemma demo_wal_ok: "wal_ext_ok demo_wal"
  by (simp add: wal_ext_ok_def demo_wal_def)

section \<open>Properties\<close>

text \<open>C6. The log is durable: after any number of successful appends to a fresh log, of entries of
  at most 128 MiB, reopening the file and reading it gives exactly the entries appended, in
  order.\<close>

theorem wal_roundtrip:
  assumes "wal_ext_ok X" and "\<forall>d\<in>set ds. length d \<le> 128 * 1024 * 1024"
    and "append_all (wal_append X) (wal_open path [] room) ds = (True, w)"
  shows "fst (wal_read_all X (wal_open path (f_contents (wal_file w)) room')) = Ok ds"
proof -
  have "\<forall>d\<in>set ds. wal_fits d"
    using assms(2) by (simp add: wal_fits_def MAX_ENTRY_def)
  then have "wal_aligned X w ([] @ ds)"
    using wal_log.append_all_holds [OF wal_aligned_empty [OF assms(1)] _ assms(3)] by blast
  then show ?thesis
    using read_entries_image [of X ds "[]"] read_entries_short [of "[]" X]
    by (auto simp: wal_aligned_def wal_read_all_def wal_open_def Let_def)
qed

theorem wal_roundtrip_witness:
  "fst (wal_read_all demo_wal (wal_open ''wal'' (f_contents (wal_file
     (snd (append_all (wal_append demo_wal) (wal_open ''wal'' [] 100) [[104, 105], []])))) 100)) =
   Ok [[104, 105], []]"
  by (rule wal_roundtrip [OF demo_wal_ok, where room = 100])
    (simp_all add: wal_append_def write_all_def wal_open_def demo_wal_def Let_def)

text \<open>A torn tail blocks recovery: if the last record was cut short after its checksum, reading
  the log fails as a whole and none of the intact entries before it is returned; only a cut
  within the first four bytes is tolerated.\<close>

theorem torn_tail_read:
  assumes "wal_ext_ok X" and "\<forall>e\<in>set (d # es). length e \<le> 128 * 1024 * 1024" and "n < 12 + length d"
  shows "fst (wal_read_all X (wal_open path (wal_image X es @ take n (wal_record X d)) room)) =
    (if n < 4 then Ok es else Err UnexpectedEof)"
  using assms by (intro wal_read_torn) (auto simp: wal_fits_def MAX_ENTRY_def)

text \<open>Opening an existing log and appending before reading it overwrites the log from its
  start: an entry as long as the first one replaces it.\<close>

theorem append_after_open_overwrites:
  assumes "wal_ext_ok X" and "\<forall>e\<in>set (d # e0 # es). length e \<le> 128 * 1024 * 1024"
    and "length d = length e0" and "12 + length d \<le> room"
  shows "fst (wal_read_all X (snd (wal_append X (wal_open path (wal_image X (e0 # es)) room) d))) = Ok (d # es)"
proof -
  let ?c = "wal_image X (e0 # es)"
  have len: "length (wal_record X e0) = 12 + length d" "length (wx_write_u32 X (wx_crc X d)) = 4"
    "length (wx_write_u64 X (word_of_nat (length d))) = 8"
    using assms(1,3) by (simp_all add: length_wal_record wal_ext_lengths)
  have room: "4 \<le> room" "8 \<le> room - 4" "length d \<le> room - 12"
    using assms(4) by simp_all
  have "f_contents (wal_file (snd (wal_append X (wal_open path ?c room) d))) = wal_image X (d # es)"
    using len room
    by (simp add: wal_append_def wal_open_def write_all_def write_at_def Let_def wal_record_def [of X d] min_def)
  moreover have "\<forall>e\<in>set (d # es). length e \<le> MAX_ENTRY"
    using assms(2) by (simp add: MAX_ENTRY_def)
  ultimately show ?thesis
    using read_entries_image [OF assms(1), of "d # es" "[]"] read_entries_short [of "[]" X]
    by (simp add: wal_read_all_def)
qed

end
