(* ===== verification/Clickhouse_Backup.thy ===== *)
theory Clickhouse_Backup
  imports Protocol_Frames Rust_Std
begin

text \<open>
  The backup client, \<^verbatim>\<open>crates/storage/src/clickhouse_backup.rs\<close>: two buffers (connections and
  Raft log records), each flushed to the database when it reaches the batch size, and a
  periodic task. The \<^verbatim>\<open>clickhouse\<close> crate and the server behind it are the parameter \<open>ch_ext\<close> on
  a state \<open>'d\<close>: starting an INSERT, writing a row and ending it may each fail. Text built by
  \<^verbatim>\<open>format!\<close> is its bytes. A buffer is changed under its lock, which is released before a flush and
  before an INSERT: the parts under the lock are the definitions \<open>cb_push\<close>, \<open>cb_drain\<close> and their counterparts
  for log records; a flush or a recording by itself is their composition, and the step relation \<open>backup_step\<close> interleaves them.
\<close>

section \<open>State\<close>

datatype ClickHouseError =
    ConnectionFailed string
  | QueryFailed string
  | SerializationError string
  | NotEnabled

record ClickHouseConfig =
  cc_enabled :: bool
  cc_url :: string
  cc_database :: string
  cc_table :: string
  cc_username :: "string option"
  cc_password :: "string option"
  cc_batch_size :: nat
  cc_flush_interval :: nat

definition clickhouse_config_default :: ClickHouseConfig where
  "clickhouse_config_default = \<lparr>cc_enabled = False, cc_url = ''http://localhost:8123'',
     cc_database = ''apfsds'', cc_table = ''connections'', cc_username = None, cc_password = None,
     cc_batch_size = 1000, cc_flush_interval = 5000\<rparr>"

record ConnectionRecord =
  chr_conn_id :: u64
  chr_client_addr :: bytes
  chr_local_port :: u16
  chr_remote_port :: u16
  chr_assigned_pod :: u32
  chr_created_at :: u64

record RaftLogRecord =
  rl_index :: u64
  rl_term :: u64
  rl_operation :: string
  rl_payload :: string
  rl_created_at :: u64

definition from_conn_meta :: "u64 \<Rightarrow> ConnMeta \<Rightarrow> u64 \<Rightarrow> ConnectionRecord" where
  "from_conn_meta conn_id meta timestamp =
     (let octet = (\<lambda>i. dec (unat (client_addr meta ! i))) in
      \<lparr>chr_conn_id = conn_id,
       chr_client_addr = octet 12 @ 46 # octet 13 @ 46 # octet 14 @ 46 # octet 15,
       chr_local_port = fst (nat_entry meta), chr_remote_port = snd (nat_entry meta),
       chr_assigned_pod = assigned_pod meta, chr_created_at = timestamp\<rparr>)"

text \<open>The client, when enabled, is its URL, credentials and database.\<close>

record ch_client =
  cl_url :: string
  cl_user :: "string option"
  cl_password :: "string option"
  cl_database :: string

record ClickHouseBackup =
  cb_client :: "ch_client option"
  cb_config :: ClickHouseConfig
  cb_buffer :: "ConnectionRecord list"
  cb_raft_buffer :: "RaftLogRecord list"

record 'd ch_ext =
  chx_insert :: "string \<Rightarrow> 'd \<Rightarrow> (unit, string) result \<times> 'd"
  chx_write_conn :: "ConnectionRecord \<Rightarrow> 'd \<Rightarrow> (unit, string) result \<times> 'd"
  chx_write_raft :: "RaftLogRecord \<Rightarrow> 'd \<Rightarrow> (unit, string) result \<times> 'd"
  chx_end :: "'d \<Rightarrow> (unit, string) result \<times> 'd"

section \<open>Operations\<close>

definition cb_new :: "ClickHouseConfig \<Rightarrow> (ClickHouseBackup, ClickHouseError) result" where
  "cb_new config =
     (let client = (if cc_enabled config
                    then Some \<lparr>cl_url = cc_url config, cl_user = cc_username config,
                               cl_password = cc_password config, cl_database = cc_database config\<rparr>
                    else None)
      in Ok \<lparr>cb_client = client, cb_config = config, cb_buffer = [], cb_raft_buffer = []\<rparr>)"

definition cb_is_enabled :: "ClickHouseBackup \<Rightarrow> bool" where
  "cb_is_enabled b \<longleftrightarrow> cb_client b \<noteq> None"

fun write_rows ::
  "('r \<Rightarrow> 'd \<Rightarrow> (unit, string) result \<times> 'd) \<Rightarrow> 'r list \<Rightarrow> 'd \<Rightarrow> (unit, string) result \<times> 'd" where
  "write_rows wr [] d = (Ok (), d)"
| "write_rows wr (r # rs) d =
     (case wr r d of (Err e, d') \<Rightarrow> (Err e, d') | (Ok _, d') \<Rightarrow> write_rows wr rs d')"

text \<open>The INSERT both flushes perform.\<close>

definition insert_rows ::
  "'d ch_ext \<Rightarrow> ('r \<Rightarrow> 'd \<Rightarrow> (unit, string) result \<times> 'd) \<Rightarrow> string \<Rightarrow> 'r list \<Rightarrow> 'd \<Rightarrow>
     (nat, ClickHouseError) result \<times> 'd" where
  "insert_rows X wr table records d =
     (case chx_insert X table d of
        (Err e, d1) \<Rightarrow> (Err (QueryFailed e), d1)
      | (Ok _, d1) \<Rightarrow>
          (case write_rows wr records d1 of
             (Err e, d2) \<Rightarrow> (Err (QueryFailed e), d2)
           | (Ok _, d2) \<Rightarrow>
               (case chx_end X d2 of
                  (Err e, d3) \<Rightarrow> (Err (QueryFailed e), d3)
                | (Ok _, d3) \<Rightarrow> (Ok (length records), d3))))"

text \<open>The parts of a flush and of a recording that run under the lock of a buffer: taking all records out of it, none when there is no client
  or no record; and adding a record, with whether a flush is due.\<close>

definition cb_drain :: "ClickHouseBackup \<Rightarrow> ConnectionRecord list option \<times> ClickHouseBackup" where
  "cb_drain b =
     (if cb_client b = None then (None, b)
      else if cb_buffer b = [] then (None, b)
      else (Some (cb_buffer b), b\<lparr>cb_buffer := []\<rparr>))"

definition cb_drain_raft :: "ClickHouseBackup \<Rightarrow> RaftLogRecord list option \<times> ClickHouseBackup" where
  "cb_drain_raft b =
     (if cb_client b = None then (None, b)
      else if cb_raft_buffer b = [] then (None, b)
      else (Some (cb_raft_buffer b), b\<lparr>cb_raft_buffer := []\<rparr>))"

definition cb_push :: "ClickHouseBackup \<Rightarrow> ConnectionRecord \<Rightarrow> bool \<times> ClickHouseBackup" where
  "cb_push b record =
     (let b1 = b\<lparr>cb_buffer := cb_buffer b @ [record]\<rparr> in
      (length (cb_buffer b1) \<ge> cc_batch_size (cb_config b), b1))"

definition cb_push_raft :: "ClickHouseBackup \<Rightarrow> RaftLogRecord \<Rightarrow> bool \<times> ClickHouseBackup" where
  "cb_push_raft b record =
     (let b1 = b\<lparr>cb_raft_buffer := cb_raft_buffer b @ [record]\<rparr> in
      (length (cb_raft_buffer b1) \<ge> cc_batch_size (cb_config b), b1))"

definition logs_table :: "ClickHouseConfig \<Rightarrow> string" where
  "logs_table config = cc_table config @ ''_logs''"

text \<open>The operations by themselves.\<close>

definition cb_flush ::
  "'d ch_ext \<Rightarrow> ClickHouseBackup \<Rightarrow> 'd \<Rightarrow> (nat, ClickHouseError) result \<times> ClickHouseBackup \<times> 'd" where
  "cb_flush X b d =
     (case cb_drain b of
        (None, b') \<Rightarrow> (Ok 0, b', d)
      | (Some records, b') \<Rightarrow>
          let (res, d') = insert_rows X (chx_write_conn X) (cc_table (cb_config b)) records d
          in (res, b', d'))"

definition cb_flush_raft_logs ::
  "'d ch_ext \<Rightarrow> ClickHouseBackup \<Rightarrow> 'd \<Rightarrow> (nat, ClickHouseError) result \<times> ClickHouseBackup \<times> 'd" where
  "cb_flush_raft_logs X b d =
     (case cb_drain_raft b of
        (None, b') \<Rightarrow> (Ok 0, b', d)
      | (Some records, b') \<Rightarrow>
          let (res, d') = insert_rows X (chx_write_raft X) (logs_table (cb_config b)) records d
          in (res, b', d'))"

definition cb_record_connection ::
  "'d ch_ext \<Rightarrow> ClickHouseBackup \<Rightarrow> u64 \<Rightarrow> ConnMeta \<Rightarrow> u64 \<Rightarrow> 'd \<Rightarrow>
     (unit, ClickHouseError) result \<times> ClickHouseBackup \<times> 'd" where
  "cb_record_connection X b conn_id meta timestamp d =
     (if \<not> cb_is_enabled b then (Ok (), b, d)
      else let (flush_due, b1) = cb_push b (from_conn_meta conn_id meta timestamp) in
        if flush_due
        then (case cb_flush X b1 d of
                (Err e, b2, d2) \<Rightarrow> (Err e, b2, d2)
              | (Ok _, b2, d2) \<Rightarrow> (Ok (), b2, d2))
        else (Ok (), b1, d))"

definition cb_archive_raft_log ::
  "'d ch_ext \<Rightarrow> ClickHouseBackup \<Rightarrow> u64 \<Rightarrow> u64 \<Rightarrow> string \<Rightarrow> string \<Rightarrow> u64 \<Rightarrow> 'd \<Rightarrow>
     (unit, ClickHouseError) result \<times> ClickHouseBackup \<times> 'd" where
  "cb_archive_raft_log X b index term operation payload timestamp d =
     (if \<not> cb_is_enabled b then (Ok (), b, d)
      else let (flush_due, b1) = cb_push_raft b \<lparr>rl_index = index, rl_term = term, rl_operation = operation,
                         rl_payload = payload, rl_created_at = timestamp\<rparr> in
        if flush_due
        then (case cb_flush_raft_logs X b1 d of
                (Err e, b2, d2) \<Rightarrow> (Err e, b2, d2)
              | (Ok _, b2, d2) \<Rightarrow> (Ok (), b2, d2))
        else (Ok (), b1, d))"

definition cb_buffered_count :: "ClickHouseBackup \<Rightarrow> nat" where
  "cb_buffered_count b = length (cb_buffer b)"

text \<open>One tick of the background task: flush, and log an error.\<close>

definition flush_tick :: "'d ch_ext \<Rightarrow> ClickHouseBackup \<times> 'd \<Rightarrow> ClickHouseBackup \<times> 'd" where
  "flush_tick X s = (case cb_flush X (fst s) (snd s) of (_, b', d') \<Rightarrow> (b', d'))"

text \<open>The statements that make the tables, given to \<open>exec\<close>.\<close>

definition sql_text :: "string list \<Rightarrow> string" where
  "sql_text ls = concat (map (\<lambda>l. CHR 10 # replicate 12 CHR '' '' @ l) ls) @ CHR 10 # replicate 12 CHR '' ''"

definition connections_ddl :: "ClickHouseConfig \<Rightarrow> string" where
  "connections_ddl config = sql_text
     [''CREATE TABLE IF NOT EXISTS '' @ cc_database config @ ''.'' @ cc_table config @ '' ('',
      ''    conn_id UInt64,'', ''    client_addr String,'', ''    local_port UInt16,'', ''    remote_port UInt16,'',
      ''    assigned_pod UInt32,'', ''    created_at DateTime64(3)'', '') ENGINE = MergeTree()'',
      ''ORDER BY (created_at, conn_id)'', ''TTL toDateTime(created_at) + INTERVAL 7 DAY'']"

definition logs_ddl :: "ClickHouseConfig \<Rightarrow> string" where
  "logs_ddl config = sql_text
     [''CREATE TABLE IF NOT EXISTS '' @ cc_database config @ ''.'' @ logs_table config @ '' ('',
      ''    index UInt64,'', ''    term UInt64,'', ''    operation String,'', ''    payload String,'',
      ''    created_at DateTime64(3)'', '') ENGINE = MergeTree()'',
      ''ORDER BY (created_at, index)'', ''TTL toDateTime(created_at) + INTERVAL 30 DAY'']"

definition run_ddl ::
  "(string \<Rightarrow> 'd \<Rightarrow> (unit, string) result \<times> 'd) \<Rightarrow> string \<Rightarrow> 'd \<Rightarrow> (unit, ClickHouseError) result \<times> 'd" where
  "run_ddl exec ddl d = (case exec ddl d of (Err e, d') \<Rightarrow> (Err (QueryFailed e), d') | (Ok _, d') \<Rightarrow> (Ok (), d'))"

definition ensure_table ::
  "(string \<Rightarrow> 'd \<Rightarrow> (unit, string) result \<times> 'd) \<Rightarrow> ClickHouseBackup \<Rightarrow> 'd \<Rightarrow> (unit, ClickHouseError) result \<times> 'd" where
  "ensure_table exec b d = (if cb_client b = None then (Ok (), d) else run_ddl exec (connections_ddl (cb_config b)) d)"

definition ensure_tables ::
  "(string \<Rightarrow> 'd \<Rightarrow> (unit, string) result \<times> 'd) \<Rightarrow> ClickHouseBackup \<Rightarrow> 'd \<Rightarrow> (unit, ClickHouseError) result \<times> 'd" where
  "ensure_tables exec b d =
     (if cb_client b = None then (Ok (), d)
      else case ensure_table exec b d of
          (Err e, d') \<Rightarrow> (Err e, d')
        | (Ok _, d') \<Rightarrow> run_ddl exec (logs_ddl (cb_config b)) d')"

section \<open>Lemmas\<close>

lemma insert_rows_count: "insert_rows X wr t rs d = (Ok n, d') \<Longrightarrow> n = length rs"
  by (auto simp: insert_rows_def split: prod.splits result.splits)

lemma cb_flush_buffer:
  "cb_flush X b d = (res, b', d') \<Longrightarrow>
     cb_buffer b' = (if cb_client b = None then cb_buffer b else []) \<and>
     cb_raft_buffer b' = cb_raft_buffer b \<and> cb_client b' = cb_client b \<and> cb_config b' = cb_config b"
  by (auto simp: cb_flush_def cb_drain_def Let_def split: if_splits prod.splits option.splits)

lemma cb_flush_raft_buffer:
  "cb_flush_raft_logs X b d = (res, b', d') \<Longrightarrow>
     cb_raft_buffer b' = (if cb_client b = None then cb_raft_buffer b else []) \<and>
     cb_buffer b' = cb_buffer b \<and> cb_client b' = cb_client b \<and> cb_config b' = cb_config b"
  by (auto simp: cb_flush_raft_logs_def cb_drain_raft_def Let_def split: if_splits prod.splits option.splits)

lemma flush_tick_raft: "cb_raft_buffer (fst (flush_tick X s)) = cb_raft_buffer (fst s)"
  by (auto simp: flush_tick_def split: prod.splits dest: cb_flush_buffer)

lemma flush_ticks_raft: "cb_raft_buffer (fst ((flush_tick X ^^ n) s)) = cb_raft_buffer (fst s)"
  by (induction n) (simp_all add: flush_tick_raft)

section \<open>Tasks that share the client\<close>

text \<open>Recordings, the background task and archivings run at the same time. The history of a buffer is the list of the batches that flushes
  have taken out of it, each with what became of its INSERT. \<open>bt_due\<close> counts the calls of \<^verbatim>\<open>flush\<close> that have not
  taken the lock yet: by a recording that filled the batch, or by a tick of the background task. The databases before and after an INSERT
  are any, since other INSERTs go on meanwhile; what counts is whether it is acknowledged.\<close>

datatype batch_state = InFlight | Acknowledged | Failed

record backup_tasks =
  bt_backup :: ClickHouseBackup
  bt_due :: nat
  bt_batches :: "(ConnectionRecord list \<times> batch_state) list"
  bt_recorded :: "ConnectionRecord list"
  bt_raft_due :: nat
  bt_raft_batches :: "(RaftLogRecord list \<times> batch_state) list"
  bt_archived :: "RaftLogRecord list"

definition insert_outcome :: "(nat, ClickHouseError) result \<Rightarrow> batch_state" where
  "insert_outcome res = (case res of Ok _ \<Rightarrow> Acknowledged | Err _ \<Rightarrow> Failed)"

definition take_batch :: "'r list option \<Rightarrow> ('r list \<times> batch_state) list \<Rightarrow> ('r list \<times> batch_state) list" where
  "take_batch drained batches = (case drained of None \<Rightarrow> batches | Some records \<Rightarrow> batches @ [(records, InFlight)])"

inductive backup_step :: "'d ch_ext \<Rightarrow> backup_tasks \<Rightarrow> backup_tasks \<Rightarrow> bool" for X where
  records: "cb_is_enabled (bt_backup s) \<Longrightarrow> record = from_conn_meta conn_id meta timestamp \<Longrightarrow>
     cb_push (bt_backup s) record = (flush_due, b) \<Longrightarrow>
     backup_step X s (s\<lparr>bt_backup := b, bt_due := bt_due s + (if flush_due then 1 else 0), bt_recorded := bt_recorded s @ [record]\<rparr>)"
| ticks: "backup_step X s (s\<lparr>bt_due := bt_due s + 1\<rparr>)"
| drains: "bt_due s = Suc n \<Longrightarrow> cb_drain (bt_backup s) = (drained, b) \<Longrightarrow>
     backup_step X s (s\<lparr>bt_backup := b, bt_due := n, bt_batches := take_batch drained (bt_batches s)\<rparr>)"
| inserts: "i < length (bt_batches s) \<Longrightarrow> bt_batches s ! i = (rows, InFlight) \<Longrightarrow>
     insert_rows X (chx_write_conn X) (cc_table (cb_config (bt_backup s))) rows d = (res, d') \<Longrightarrow>
     backup_step X s (s\<lparr>bt_batches := (bt_batches s)[i := (rows, insert_outcome res)]\<rparr>)"
| archives: "cb_is_enabled (bt_backup s) \<Longrightarrow> cb_push_raft (bt_backup s) entry = (flush_due, b) \<Longrightarrow>
     backup_step X s (s\<lparr>bt_backup := b, bt_raft_due := bt_raft_due s + (if flush_due then 1 else 0), bt_archived := bt_archived s @ [entry]\<rparr>)"
| drains_raft: "bt_raft_due s = Suc n \<Longrightarrow> cb_drain_raft (bt_backup s) = (raft_drained, b) \<Longrightarrow>
     backup_step X s (s\<lparr>bt_backup := b, bt_raft_due := n, bt_raft_batches := take_batch raft_drained (bt_raft_batches s)\<rparr>)"
| inserts_raft: "i < length (bt_raft_batches s) \<Longrightarrow> bt_raft_batches s ! i = (entries, InFlight) \<Longrightarrow>
     insert_rows X (chx_write_raft X) (logs_table (cb_config (bt_backup s))) entries d = (res, d') \<Longrightarrow>
     backup_step X s (s\<lparr>bt_raft_batches := (bt_raft_batches s)[i := (entries, insert_outcome res)]\<rparr>)"

inductive_cases backup_stepE: "backup_step X s t"

definition backup_init :: "ClickHouseConfig \<Rightarrow> backup_tasks \<Rightarrow> bool" where
  "backup_init config s \<longleftrightarrow> cb_new config = Ok (bt_backup s) \<and> bt_due s = 0 \<and> bt_batches s = [] \<and> bt_recorded s = [] \<and>
     bt_raft_due s = 0 \<and> bt_raft_batches s = [] \<and> bt_archived s = []"

text \<open>Every record is in exactly one batch or in the buffer, in the order of the recordings; a batch has a record; and
  when no flush is due, the buffer is below the batch size.\<close>

definition batches_ok :: "nat \<Rightarrow> 'r list \<Rightarrow> nat \<Rightarrow> ('r list \<times> batch_state) list \<Rightarrow> 'r list \<Rightarrow> bool" where
  "batches_ok n buffer due batches given \<longleftrightarrow> concat (map fst batches) @ buffer = given \<and> (\<forall>b\<in>set batches. fst b \<noteq> []) \<and>
     (due = 0 \<longrightarrow> 0 < n \<longrightarrow> length buffer < n)"

definition backup_inv :: "ClickHouseConfig \<Rightarrow> backup_tasks \<Rightarrow> bool" where
  "backup_inv config s \<longleftrightarrow> cb_config (bt_backup s) = config \<and> (cb_is_enabled (bt_backup s) \<longleftrightarrow> cc_enabled config) \<and>
     (\<not> cc_enabled config \<longrightarrow> cb_buffer (bt_backup s) = [] \<and> cb_raft_buffer (bt_backup s) = []) \<and>
     batches_ok (cc_batch_size config) (cb_buffer (bt_backup s)) (bt_due s) (bt_batches s) (bt_recorded s) \<and>
     batches_ok (cc_batch_size config) (cb_raft_buffer (bt_backup s)) (bt_raft_due s) (bt_raft_batches s) (bt_archived s)"

lemma batches_ok_update:
  assumes "batches_ok n buffer due batches given" "i < length batches" "batches ! i = (rows, st)"
  shows "batches_ok n buffer due (batches[i := (rows, st')]) given"
proof -
  have "map fst (batches[i := (rows, st')]) = map fst batches" using assms(2,3) by (intro map_update_same) simp_all
  moreover have "rows \<noteq> []" using assms nth_mem [OF assms(2)] by (auto simp: batches_ok_def)
  then have "\<forall>b\<in>set (batches[i := (rows, st')]). fst b \<noteq> []"
    using assms(1) by (auto simp: batches_ok_def dest!: set_update_subset_insert [THEN subsetD])
  ultimately show ?thesis using assms(1) unfolding batches_ok_def by metis
qed

lemma batches_ok_push:
  assumes "batches_ok n buffer due batches given"
  shows "batches_ok n (buffer @ [r]) (due + (if n \<le> Suc (length buffer) then 1 else 0)) batches (given @ [r])"
  using assms by (auto simp: batches_ok_def)

lemma batches_ok_drain:
  assumes "batches_ok n buffer (Suc due) batches given"
  shows "batches_ok n [] due (take_batch (if buffer = [] then None else Some buffer) batches) given"
  using assms by (auto simp: batches_ok_def take_batch_def)

lemma backup_step_inv: "backup_step X s t \<Longrightarrow> backup_inv config s \<Longrightarrow> backup_inv config t"
proof (induction rule: backup_step.induct)
  case (records s row conn_id meta timestamp flush_due b)
  then show ?case
    using batches_ok_push [of "cc_batch_size config" "cb_buffer (bt_backup s)" "bt_due s" "bt_batches s" "bt_recorded s" row]
    by (auto simp: backup_inv_def cb_push_def cb_is_enabled_def Let_def)
next
  case (ticks s)
  then show ?case by (auto simp: backup_inv_def batches_ok_def)
next
  case (drains s n drained b)
  then show ?case
    using batches_ok_drain [of "cc_batch_size config" "cb_buffer (bt_backup s)" n "bt_batches s" "bt_recorded s"]
    by (auto simp: backup_inv_def cb_drain_def cb_is_enabled_def split: if_splits)
next
  case (inserts i s rows d res d')
  then show ?case by (simp add: backup_inv_def batches_ok_update)
next
  case (archives s entry flush_due b)
  then show ?case
    using batches_ok_push [of "cc_batch_size config" "cb_raft_buffer (bt_backup s)" "bt_raft_due s" "bt_raft_batches s" "bt_archived s" entry]
    by (auto simp: backup_inv_def cb_push_raft_def cb_is_enabled_def Let_def)
next
  case (drains_raft s n raft_drained b)
  then show ?case
    using batches_ok_drain [of "cc_batch_size config" "cb_raft_buffer (bt_backup s)" n "bt_raft_batches s" "bt_archived s"]
    by (auto simp: backup_inv_def cb_drain_raft_def cb_is_enabled_def split: if_splits)
next
  case (inserts_raft i s entries d res d')
  then show ?case by (simp add: backup_inv_def batches_ok_update)
qed

lemma cb_new_state:
  assumes "cb_new config = Ok b"
  shows "cb_config b = config" "cb_is_enabled b \<longleftrightarrow> cc_enabled config" "cb_buffer b = []" "cb_raft_buffer b = []"
  using assms by (auto simp: cb_new_def cb_is_enabled_def Let_def split: if_splits)

lemma backup_init_inv: "backup_init config s \<Longrightarrow> backup_inv config s"
  by (auto simp: backup_init_def backup_inv_def batches_ok_def cb_new_state)

interpretation backup: invariant_system "backup_init config" "backup_step X" "backup_inv config" for config X
  by unfold_locales (rule backup_init_inv, assumption, rule backup_step_inv)

text \<open>A batch is acknowledged only after all its rows were written and the INSERT has ended.\<close>

lemma insert_outcome_count:
  "insert_rows X wr t rs d = (res, d') \<Longrightarrow> insert_outcome res = Acknowledged \<Longrightarrow> res = Ok (length rs)"
  by (cases res) (auto simp: insert_outcome_def dest: insert_rows_count)

text \<open>With a database that takes every statement, the tables are made in order, those the flushes insert
  into; without a client nothing is asked of it.\<close>

lemma ensure_tables_statements:
  "ensure_tables (\<lambda>ddl d. (Ok (), d @ [ddl])) b d =
     (Ok (), d @ (if cb_is_enabled b then [connections_ddl (cb_config b), logs_ddl (cb_config b)] else []))"
  by (simp add: ensure_tables_def ensure_table_def run_ddl_def cb_is_enabled_def)

lemma ensure_tables_stops:
  "cb_is_enabled b \<Longrightarrow> exec (connections_ddl (cb_config b)) d = (Err e, d') \<Longrightarrow> ensure_tables exec b d = (Err (QueryFailed e), d')"
  by (auto simp: ensure_tables_def ensure_table_def run_ddl_def cb_is_enabled_def)

text \<open>A failed flush loses its batch: when inserting the rows fails, the buffer has been emptied
  already and nothing puts the rows back.\<close>

lemma failed_flush_drops_batch:
  "cb_flush X b d = (Err e, b', d') \<Longrightarrow> cb_buffer b \<noteq> [] \<and> cb_buffer b' = [] \<and> cb_buffered_count b' = 0"
  by (auto simp: cb_flush_def cb_drain_def cb_buffered_count_def Let_def split: if_splits prod.splits option.splits)

section \<open>An instance of the parameters\<close>

text \<open>A database whose INSERTs are visible at once and fail on connection 0.\<close>

definition demo_ch :: "ConnectionRecord list ch_ext" where
  "demo_ch = \<lparr>chx_insert = \<lambda>t d. (Ok (), d),
     chx_write_conn = \<lambda>r d. if chr_conn_id r = 0 then (Err ''refused'', d) else (Ok (), d @ [r]),
     chx_write_raft = \<lambda>r d. (Ok (), d), chx_end = \<lambda>d. (Ok (), d)\<rparr>"

definition demo_meta :: ConnMeta where
  "demo_meta = \<lparr>client_addr = replicate 16 1, nat_entry = (1, 2), assigned_pod = 3, stream_states = []\<rparr>"

definition demo_ch_config :: ClickHouseConfig where
  "demo_ch_config = clickhouse_config_default\<lparr>cc_enabled := True, cc_batch_size := 2\<rparr>"

definition demo_backup :: backup_tasks where
  "demo_backup = \<lparr>bt_backup = \<lparr>cb_client = Some \<lparr>cl_url = ''http://localhost:8123'', cl_user = None, cl_password = None, cl_database = ''apfsds''\<rparr>,
     cb_config = demo_ch_config, cb_buffer = [], cb_raft_buffer = []\<rparr>, bt_due = 0, bt_batches = [], bt_recorded = [],
     bt_raft_due = 0, bt_raft_batches = [], bt_archived = []\<rparr>"

lemma demo_backup_init: "backup_init demo_ch_config demo_backup"
  by (simp add: backup_init_def demo_backup_def cb_new_def demo_ch_config_def clickhouse_config_default_def)

section \<open>Properties\<close>

text \<open>C19. Where the records of the backup are, in every interleaving of recordings, archivings, the background task and their flushes,
  INSERTs that overlap and INSERTs that fail included: every connection recorded is in exactly one batch that a flush has taken or in the buffer, in the
  order of the recordings, and so is every log record archived. A batch is being inserted, or its INSERT was acknowledged, or it failed, and
  no batch is empty. When no flush is due, fewer records than the batch size are buffered. (A record is thus lost exactly when the INSERT of its batch
  fails, since nothing puts it back. What the server does with acknowledged rows, whose table it sorts and expires, is not part of this.)\<close>

theorem backup_conserves_records:
  assumes "reach (backup_init config) (backup_step X) s"
  shows "concat (map fst (bt_batches s)) @ cb_buffer (bt_backup s) = bt_recorded s \<and>
    concat (map fst (bt_raft_batches s)) @ cb_raft_buffer (bt_backup s) = bt_archived s \<and>
    (\<forall>b\<in>set (bt_batches s). fst b \<noteq> []) \<and> (\<forall>b\<in>set (bt_raft_batches s). fst b \<noteq> []) \<and>
    (bt_due s = 0 \<longrightarrow> 0 < cc_batch_size config \<longrightarrow> cb_buffered_count (bt_backup s) < cc_batch_size config) \<and>
    (bt_raft_due s = 0 \<longrightarrow> 0 < cc_batch_size config \<longrightarrow> length (cb_raft_buffer (bt_backup s)) < cc_batch_size config)"
  using backup.reach_inv [OF assms] unfolding backup_inv_def batches_ok_def cb_buffered_count_def by blast

text \<open>Two connections are recorded while the batch of the first is being inserted.\<close>

theorem backup_conserves_records_witness:
  "\<exists>s. reach (backup_init demo_ch_config) (backup_step demo_ch) s \<and> bt_batches s = [([from_conn_meta 7 demo_meta 1], InFlight)] \<and>
     concat (map fst (bt_batches s)) @ cb_buffer (bt_backup s) = [from_conn_meta 7 demo_meta 1, from_conn_meta 8 demo_meta 2]"
proof -
  let ?r = "from_conn_meta 7 demo_meta 1" and ?q = "from_conn_meta 8 demo_meta 2" and ?b = "bt_backup demo_backup"
  let ?s1 = "demo_backup\<lparr>bt_backup := ?b\<lparr>cb_buffer := [?r]\<rparr>, bt_due := 0 + (if False then 1 else 0), bt_recorded := [] @ [?r]\<rparr>"
  let ?s2 = "?s1\<lparr>bt_due := bt_due ?s1 + 1\<rparr>"
  let ?s3 = "?s2\<lparr>bt_backup := ?b, bt_due := 0, bt_batches := take_batch (Some [?r]) (bt_batches ?s2)\<rparr>"
  let ?s4 = "?s3\<lparr>bt_backup := ?b\<lparr>cb_buffer := [?q]\<rparr>, bt_due := bt_due ?s3 + (if False then 1 else 0), bt_recorded := bt_recorded ?s3 @ [?q]\<rparr>"
  have 1: "backup_step demo_ch demo_backup ?s1"
    using backup_step.records [of demo_backup ?r 7 demo_meta 1 False "?b\<lparr>cb_buffer := [?r]\<rparr>" demo_ch]
    by (simp add: demo_backup_def cb_push_def cb_is_enabled_def demo_ch_config_def)
  have 2: "backup_step demo_ch ?s1 ?s2" by (rule backup_step.ticks)
  have 3: "backup_step demo_ch ?s2 ?s3"
    by (rule backup_step.drains) (simp_all add: demo_backup_def cb_drain_def)
  have 4: "backup_step demo_ch ?s3 ?s4"
    by (rule backup_step.records [OF _ refl]) (simp_all add: demo_backup_def cb_push_def cb_is_enabled_def demo_ch_config_def)
  note after = reach.after_step [where step = "backup_step demo_ch"]
  have start: "reach (backup_init demo_ch_config) (backup_step demo_ch) demo_backup"
    by (rule reach.at_start) (rule demo_backup_init)
  have r: "reach (backup_init demo_ch_config) (backup_step demo_ch) ?s4"
    by (rule after [OF after [OF after [OF after [OF start 1] 2] 3] 4])
  moreover have "bt_batches ?s4 = [([?r], InFlight)]" "bt_recorded ?s4 = [?r, ?q]"
    by (simp_all add: demo_backup_def take_batch_def)
  ultimately show ?thesis
    using backup_conserves_records [OF r] by (intro exI [of _ ?s4]) metis
qed

end
