(* ===== verification/Raft_Storage.thy ===== *)
theory Raft_Storage
  imports Wal_Log Clickhouse_Backup
begin

text \<open>
  The storage of the replicated log, \<^verbatim>\<open>crates/raft/src/storage.rs\<close> and \<^verbatim>\<open>types.rs\<close>: an in-memory log
  backed by the write-ahead log and, when enabled, an archive in ClickHouse. Log entries and
  membership are types of \<^verbatim>\<open>async_raft\<close>, here the type variables \<open>'e\<close> and \<open>'m\<close>; their accessors and
  the JSON of \<^verbatim>\<open>serde_json\<close> are the parameter \<open>raft_ext\<close>. Each handler runs alone on the state, as
  the write lock on the log makes it do. A restart is \<open>ps_new\<close> on the contents of the file.
\<close>

section \<open>State\<close>

datatype ClientRequest =
    Upsert u64 bytes "u16 \<times> u16" u32
  | Delete u64
  | CleanupBefore u64
  | Noop

datatype ClientResponse = RespOk u64 | RespError string

record HardState =
  hs_current_term :: u64
  hs_voted_for :: "u64 option"

record 'm SnapshotData =
  sd_term :: u64
  sd_index :: u64
  sd_membership :: 'm
  sd_snapshot :: bytes

record 'm InitialState =
  is_last_log_term :: u64
  is_last_log_index :: u64
  is_last_applied_log :: u64
  is_hard_state :: HardState
  is_membership :: 'm

record ('e, 'm) raft_ext =
  rx_index :: "'e \<Rightarrow> u64"
  rx_term :: "'e \<Rightarrow> u64"
  rx_to_vec :: "'e \<Rightarrow> bytes"
  rx_from_slice :: "bytes \<Rightarrow> 'e option"
  rx_hs_to_string :: "HardState \<Rightarrow> bytes"
  rx_req_to_string :: "ClientRequest \<Rightarrow> string"
  rx_new_initial :: "u64 \<Rightarrow> 'm"

record ('e, 'm) PersistentStorage =
  ps_node_id :: u64
  ps_membership :: 'm
  ps_log :: "'e list"
  ps_hard_state :: HardState
  ps_snapshot :: "'m SnapshotData option"
  ps_wal :: Wal
  ps_clickhouse :: ClickHouseBackup

datatype raft_error = WalFailed io_error | BackupFailed ClickHouseError

section \<open>Operations\<close>

definition wal_file_path :: "string \<Rightarrow> u64 \<Rightarrow> string" where
  "wal_file_path data_dir node_id =
     data_dir @ ''/'' @ ''raft-'' @ dec_str (unat node_id) @ ''.wal''"

text \<open>Replaying the log: entries that do not parse are skipped, and so is a log that cannot be
  read.\<close>

definition restore_log ::
  "('e, 'm) raft_ext \<Rightarrow> (bytes list, io_error) result \<Rightarrow> 'e list" where
  "restore_log R entries =
     (case entries of Ok es \<Rightarrow> List.map_filter (rx_from_slice R) es | Err _ \<Rightarrow> [])"

definition ps_new ::
  "('e, 'm) raft_ext \<Rightarrow> wal_ext \<Rightarrow> u64 \<Rightarrow> string \<Rightarrow> ClickHouseConfig \<Rightarrow> bytes \<Rightarrow> nat \<Rightarrow>
     (('e, 'm) PersistentStorage, raft_error) result" where
  "ps_new R X node_id data_dir config contents room =
     (let (entries, wal) = wal_read_all X (wal_open (wal_file_path data_dir node_id) contents room) in
      case cb_new config of
        Err e \<Rightarrow> Err (BackupFailed e)
      | Ok clickhouse \<Rightarrow> Ok
          \<lparr>ps_node_id = node_id, ps_membership = rx_new_initial R node_id,
           ps_log = restore_log R entries,
           ps_hard_state = \<lparr>hs_current_term = 0, hs_voted_for = None\<rparr>,
           ps_snapshot = None, ps_wal = wal, ps_clickhouse = clickhouse\<rparr>)"

definition get_membership_config :: "('e, 'm) PersistentStorage \<Rightarrow> 'm" where
  "get_membership_config s = ps_membership s"

definition get_initial_state :: "('e, 'm) raft_ext \<Rightarrow> ('e, 'm) PersistentStorage \<Rightarrow> 'm InitialState" where
  "get_initial_state R s =
     (let (last_log_term, last_log_index) =
            (if ps_log s = [] then (0, 0)
             else (rx_term R (last (ps_log s)), rx_index R (last (ps_log s)))) in
      \<lparr>is_last_log_term = last_log_term, is_last_log_index = last_log_index,
       is_last_applied_log = last_log_index, is_hard_state = ps_hard_state s,
       is_membership = ps_membership s\<rparr>)"

definition hs_marker :: "('e, 'm) raft_ext \<Rightarrow> HardState \<Rightarrow> bytes" where
  "hs_marker R hs = ascii ''__HARDSTATE__:'' @ rx_hs_to_string R hs"

definition save_hard_state ::
  "('e, 'm) raft_ext \<Rightarrow> wal_ext \<Rightarrow> ('e, 'm) PersistentStorage \<Rightarrow> HardState \<Rightarrow>
     (unit, raft_error) result \<times> ('e, 'm) PersistentStorage" where
  "save_hard_state R X s hs =
     (Ok (), s\<lparr>ps_hard_state := hs, ps_wal := snd (wal_append X (ps_wal s) (hs_marker R hs))\<rparr>)"

definition get_log_entries ::
  "('e, 'm) raft_ext \<Rightarrow> ('e, 'm) PersistentStorage \<Rightarrow> u64 \<Rightarrow> u64 \<Rightarrow> 'e list" where
  "get_log_entries R s start stop =
     filter (\<lambda>e. rx_index R e \<ge> start \<and> rx_index R e < stop) (ps_log s)"

definition delete_logs_from ::
  "('e, 'm) raft_ext \<Rightarrow> ('e, 'm) PersistentStorage \<Rightarrow> u64 \<Rightarrow> u64 option \<Rightarrow> ('e, 'm) PersistentStorage" where
  "delete_logs_from R s start stop =
     (case stop of
        Some stop_idx \<Rightarrow>
          s\<lparr>ps_log := filter (\<lambda>e. rx_index R e < start \<or> rx_index R e \<ge> stop_idx) (ps_log s)\<rparr>
      | None \<Rightarrow> s\<lparr>ps_log := filter (\<lambda>e. rx_index R e < start) (ps_log s)\<rparr>)"

definition append_entry_to_log ::
  "('e, 'm) raft_ext \<Rightarrow> wal_ext \<Rightarrow> ('e, 'm) PersistentStorage \<Rightarrow> 'e \<Rightarrow>
     (unit, raft_error) result \<times> ('e, 'm) PersistentStorage" where
  "append_entry_to_log R X s entry =
     (let s1 = s\<lparr>ps_log := ps_log s @ [entry]\<rparr> in
      case wal_append X (ps_wal s1) (rx_to_vec R entry) of
        (Err e, w) \<Rightarrow> (Err (WalFailed e), s1\<lparr>ps_wal := w\<rparr>)
      | (Ok _, w) \<Rightarrow>
          (case wal_sync X w of
             Err e \<Rightarrow> (Err (WalFailed e), s1\<lparr>ps_wal := w\<rparr>)
           | Ok _ \<Rightarrow> (Ok (), s1\<lparr>ps_wal := w\<rparr>)))"

fun append_batch ::
  "('e, 'm) raft_ext \<Rightarrow> wal_ext \<Rightarrow> Wal \<Rightarrow> 'e list \<Rightarrow> (unit, io_error) result \<times> Wal" where
  "append_batch R X w [] = (Ok (), w)"
| "append_batch R X w (entry # entries) =
     (case wal_append X w (rx_to_vec R entry) of
        (Err e, w') \<Rightarrow> (Err e, w')
      | (Ok _, w') \<Rightarrow> append_batch R X w' entries)"

definition replicate_to_log ::
  "('e, 'm) raft_ext \<Rightarrow> wal_ext \<Rightarrow> ('e, 'm) PersistentStorage \<Rightarrow> 'e list \<Rightarrow>
     (unit, raft_error) result \<times> ('e, 'm) PersistentStorage" where
  "replicate_to_log R X s entries =
     (let s1 = s\<lparr>ps_log := ps_log s @ entries\<rparr> in
      case append_batch R X (ps_wal s1) entries of
        (Err e, w) \<Rightarrow> (Err (WalFailed e), s1\<lparr>ps_wal := w\<rparr>)
      | (Ok _, w) \<Rightarrow>
          (case wal_sync X w of
             Err e \<Rightarrow> (Err (WalFailed e), s1\<lparr>ps_wal := w\<rparr>)
           | Ok _ \<Rightarrow> (Ok (), s1\<lparr>ps_wal := w\<rparr>)))"

definition request_name :: "ClientRequest \<Rightarrow> string" where
  "request_name data =
     (case data of
        Upsert _ _ _ _ \<Rightarrow> ''Upsert'' | Delete _ \<Rightarrow> ''Delete'' | CleanupBefore _ \<Rightarrow> ''Cleanup'' | Noop \<Rightarrow> ''Noop'')"

definition apply_entry_to_state_machine ::
  "('e, 'm) raft_ext \<Rightarrow> 'd ch_ext \<Rightarrow> ('e, 'm) PersistentStorage \<Rightarrow> u64 \<Rightarrow> ClientRequest \<Rightarrow> u64 \<Rightarrow> 'd \<Rightarrow>
     ClientResponse \<times> ('e, 'm) PersistentStorage \<times> 'd" where
  "apply_entry_to_state_machine R C s index data timestamp d =
     (let (s', d') =
        (if cb_is_enabled (ps_clickhouse s)
         then (case cb_archive_raft_log C (ps_clickhouse s) index 0 (request_name data)
                      (rx_req_to_string R data) timestamp d of
                 (_, b, d') \<Rightarrow> (s\<lparr>ps_clickhouse := b\<rparr>, d'))
         else (s, d)) in
      case data of
        Upsert _ _ _ _ \<Rightarrow> (RespOk 1, s', d')
      | Delete _ \<Rightarrow> (RespOk 1, s', d')
      | _ \<Rightarrow> (RespOk 0, s', d'))"

fun replicate_to_state_machine ::
  "('e, 'm) raft_ext \<Rightarrow> 'd ch_ext \<Rightarrow> ('e, 'm) PersistentStorage \<Rightarrow> (u64 \<times> ClientRequest) list \<Rightarrow> u64 \<Rightarrow> 'd \<Rightarrow>
     ('e, 'm) PersistentStorage \<times> 'd" where
  "replicate_to_state_machine R C s [] timestamp d = (s, d)"
| "replicate_to_state_machine R C s ((index, data) # entries) timestamp d =
     (case apply_entry_to_state_machine R C s index data timestamp d of
        (_, s', d') \<Rightarrow> replicate_to_state_machine R C s' entries timestamp d')"

definition do_log_compaction :: "('e, 'm) PersistentStorage \<Rightarrow> 'm SnapshotData" where
  "do_log_compaction s =
     \<lparr>sd_term = 0, sd_index = 0, sd_membership = ps_membership s, sd_snapshot = []\<rparr>"

definition create_snapshot :: "('e, 'm) PersistentStorage \<Rightarrow> string \<times> bytes" where
  "create_snapshot s = (''snapshot'', [])"

definition finalize_snapshot_installation ::
  "('e, 'm) PersistentStorage \<Rightarrow> u64 \<Rightarrow> u64 \<Rightarrow> u64 option \<Rightarrow> string \<Rightarrow> bytes \<Rightarrow> ('e, 'm) PersistentStorage" where
  "finalize_snapshot_installation s index term delete_through snap_id snapshot = s"

definition get_current_snapshot :: "('e, 'm) PersistentStorage \<Rightarrow> 'm SnapshotData option" where
  "get_current_snapshot s =
     (case ps_snapshot s of
        Some sn \<Rightarrow> Some \<lparr>sd_term = sd_term sn, sd_index = sd_index sn, sd_membership = sd_membership sn,
                         sd_snapshot = sd_snapshot sn\<rparr>
      | None \<Rightarrow> None)"

section \<open>Runs\<close>

text \<open>JSON of an entry reads back as the entry, and JSON never starts with an underscore.\<close>

definition raft_ext_ok :: "('e, 'm) raft_ext \<Rightarrow> bool" where
  "raft_ext_ok R \<longleftrightarrow> (\<forall>e. rx_from_slice R (rx_to_vec R e) = Some e) \<and>
     (\<forall>x. rx_from_slice R (ascii ''__HARDSTATE__:'' @ x) = None)"

datatype 'e raft_op =
    AppendEntry 'e
  | ReplicateEntries "'e list"
  | DeleteLogs u64 "u64 option"
  | SaveHardState HardState

fun raft_step ::
  "('e, 'm) raft_ext \<Rightarrow> wal_ext \<Rightarrow> ('e, 'm) PersistentStorage \<Rightarrow> 'e raft_op \<Rightarrow>
     (unit, raft_error) result \<times> ('e, 'm) PersistentStorage" where
  "raft_step R X s (AppendEntry e) = append_entry_to_log R X s e"
| "raft_step R X s (ReplicateEntries es) = replicate_to_log R X s es"
| "raft_step R X s (DeleteLogs start stop) = (Ok (), delete_logs_from R s start stop)"
| "raft_step R X s (SaveHardState hs) = save_hard_state R X s hs"

text \<open>What an operation writes to the write-ahead log, and the entries among it.\<close>

fun op_writes :: "('e, 'm) raft_ext \<Rightarrow> 'e raft_op \<Rightarrow> bytes list" where
  "op_writes R (AppendEntry e) = [rx_to_vec R e]"
| "op_writes R (ReplicateEntries es) = map (rx_to_vec R) es"
| "op_writes R (DeleteLogs _ _) = []"
| "op_writes R (SaveHardState hs) = [hs_marker R hs]"

fun op_entries :: "'e raft_op \<Rightarrow> 'e list" where
  "op_entries (AppendEntry e) = [e]"
| "op_entries (ReplicateEntries es) = es"
| "op_entries _ = []"

definition appended :: "'e raft_op list \<Rightarrow> 'e list" where
  "appended ops = concat (map op_entries ops)"

text \<open>A run in which the device takes every write; \<open>None\<close> if one of them fails.\<close>

fun raft_run ::
  "('e, 'm) raft_ext \<Rightarrow> wal_ext \<Rightarrow> ('e, 'm) PersistentStorage \<Rightarrow> 'e raft_op list \<Rightarrow>
     ('e, 'm) PersistentStorage option" where
  "raft_run R X s [] = Some s"
| "raft_run R X s (op # ops) =
     (if fst (append_all (wal_append X) (ps_wal s) (op_writes R op))
      then raft_run R X (snd (raft_step R X s op)) ops else None)"

section \<open>The write-ahead log of a run\<close>

lemma append_batch_all:
  "snd (append_batch R X w es) = snd (append_all (wal_append X) w (map (rx_to_vec R) es))"
  "is_ok (fst (append_batch R X w es)) = fst (append_all (wal_append X) w (map (rx_to_vec R) es))"
  by (induction es arbitrary: w) (auto split: prod.splits result.splits)

lemma raft_step_wal:
  "fst (append_all (wal_append X) (ps_wal s) (op_writes R op)) \<Longrightarrow>
     ps_wal (snd (raft_step R X s op)) = snd (append_all (wal_append X) (ps_wal s) (op_writes R op))"
  by (cases op)
    (auto simp: append_entry_to_log_def replicate_to_log_def save_hard_state_def delete_logs_from_def
      Let_def append_batch_all [symmetric] split: prod.splits result.splits option.splits)

lemma raft_step_log:
  "ps_log (snd (raft_step R X s op)) =
     (case op of DeleteLogs start stop \<Rightarrow> ps_log (delete_logs_from R s start stop)
      | _ \<Rightarrow> ps_log s @ op_entries op)"
  by (cases op)
    (auto simp: append_entry_to_log_def replicate_to_log_def save_hard_state_def
      Let_def split: prod.splits result.splits)

lemma raft_run_aligned:
  assumes "wal_aligned X (ps_wal s) es" "raft_run R X s ops = Some s'"
    "\<forall>op\<in>set ops. \<forall>d\<in>set (op_writes R op). wal_fits d"
  shows "wal_aligned X (ps_wal s') (es @ concat (map (op_writes R) ops))"
  using assms
proof (induction ops arbitrary: s es)
  case (Cons op ops)
  then have run: "fst (append_all (wal_append X) (ps_wal s) (op_writes R op))"
    "raft_run R X (snd (raft_step R X s op)) ops = Some s'"
    by (auto split: if_splits)
  have "wal_aligned X (ps_wal (snd (raft_step R X s op))) (es @ op_writes R op)"
    using wal_log.append_all_holds [OF Cons.prems(1), of "op_writes R op"] Cons.prems(3) run(1)
      raft_step_wal [OF run(1)] by (simp add: prod_eq_iff)
  from Cons.IH [OF this run(2)] Cons.prems(3) show ?case by simp
qed simp

lemma map_filter_append:
  "List.map_filter f (xs @ ys) = List.map_filter f xs @ List.map_filter f ys"
  by (simp add: List.map_filter_def)

lemma map_filter_to_vec:
  "raft_ext_ok R \<Longrightarrow> List.map_filter (rx_from_slice R) (map (rx_to_vec R) es) = es"
  by (induction es) (simp_all add: List.map_filter_def raft_ext_ok_def)

lemma restored_writes:
  assumes "raft_ext_ok R"
  shows "List.map_filter (rx_from_slice R) (concat (map (op_writes R) ops)) = appended ops"
proof -
  have op: "List.map_filter (rx_from_slice R) (op_writes R op) = op_entries op" for op
    using assms map_filter_to_vec [OF assms]
    by (cases op) (auto simp: List.map_filter_def raft_ext_ok_def hs_marker_def)
  show ?thesis
    by (induction ops) (simp add: appended_def, simp add: appended_def map_filter_append op)
qed

lemma ps_new_empty:
  "wal_ext_ok X \<Longrightarrow> ps_new R X node dir config [] room = Ok s \<Longrightarrow>
     wal_aligned X (ps_wal s) [] \<and> ps_log s = []"
  using read_entries_short [of "[]" X]
  by (auto simp: ps_new_def wal_read_all_def wal_open_def wal_aligned_def Let_def restore_log_def
      List.map_filter_def split: result.splits)

lemma ps_new_log:
  "ps_new R X node dir config contents room = Ok s \<Longrightarrow>
     ps_log s = restore_log R (fst (wal_read_all X (wal_open (wal_file_path dir node) contents room)))"
  by (auto simp: ps_new_def Let_def split: result.splits prod.splits)

lemma restart_log:
  assumes "wal_ext_ok X" "raft_ext_ok R" "ps_new R X node dir config [] room = Ok s"
    "raft_run R X s ops = Some s'" "\<forall>op\<in>set ops. \<forall>d\<in>set (op_writes R op). wal_fits d"
    "ps_new R X node dir config (f_contents (wal_file (ps_wal s'))) room' = Ok s''"
  shows "ps_log s'' = appended ops"
proof -
  have al: "wal_aligned X (ps_wal s') (concat (map (op_writes R) ops))"
    using raft_run_aligned [OF conjunct1 [OF ps_new_empty [OF assms(1,3)]] assms(4,5)] by simp
  then have "fst (wal_read_all X (wal_open p (f_contents (wal_file (ps_wal s'))) room')) =
      Ok (concat (map (op_writes R) ops))" for p
    using read_entries_image [of X "concat (map (op_writes R) ops)" "[]"] read_entries_short [of "[]" X]
    by (auto simp: wal_aligned_def wal_read_all_def wal_open_def Let_def)
  then show ?thesis
    using ps_new_log [OF assms(6)] restored_writes [OF assms(2)] by (simp add: restore_log_def)
qed

lemma raft_run_log:
  "raft_run R X s ops = Some s' \<Longrightarrow> \<forall>op\<in>set ops. \<forall>a b. op \<noteq> DeleteLogs a b \<Longrightarrow>
     ps_log s' = ps_log s @ appended ops"
proof (induction ops arbitrary: s)
  case (Cons op ops)
  then have "ps_log s' = ps_log (snd (raft_step R X s op)) @ appended ops"
    by (auto split: if_splits)
  with Cons.prems(2) raft_step_log [of R X s op] show ?case
    by (cases op) (auto simp: appended_def)
qed (simp add: appended_def)

section \<open>An instance of the parameters\<close>

definition demo_raft :: "(u64 \<times> u64, unit) raft_ext" where
  "demo_raft = \<lparr>rx_index = fst, rx_term = snd,
     rx_to_vec = \<lambda>e. 123 # u64_to_le (fst e) @ u64_to_le (snd e),
     rx_from_slice = \<lambda>b. if b \<noteq> [] \<and> hd b = 123
       then Some (u64_from_le (take 8 (tl b)), u64_from_le (drop 8 (tl b))) else None,
     rx_hs_to_string = \<lambda>hs. [123, 125], rx_req_to_string = \<lambda>r. '''', rx_new_initial = \<lambda>n. ()\<rparr>"

lemma demo_raft_ok: "raft_ext_ok demo_raft"
  by (simp add: raft_ext_ok_def demo_raft_def ascii_def)

definition demo_ps :: "Wal \<Rightarrow> (u64 \<times> u64) list \<Rightarrow> (u64 \<times> u64, unit) PersistentStorage" where
  "demo_ps w log = \<lparr>ps_node_id = 1, ps_membership = (), ps_log = log,
     ps_hard_state = \<lparr>hs_current_term = 0, hs_voted_for = None\<rparr>, ps_snapshot = None, ps_wal = w,
     ps_clickhouse = \<lparr>cb_client = None, cb_config = clickhouse_config_default, cb_buffer = [],
       cb_raft_buffer = []\<rparr>\<rparr>"

lemma demo_ps_new:
  "ps_new demo_raft demo_wal 1 dir clickhouse_config_default contents room =
     Ok (demo_ps (snd (wal_read_all demo_wal (wal_open (wal_file_path dir 1) contents room)))
       (restore_log demo_raft (fst (wal_read_all demo_wal (wal_open (wal_file_path dir 1) contents room)))))"
  by (simp add: ps_new_def cb_new_def demo_ps_def clickhouse_config_default_def demo_raft_def
      case_prod_beta)

definition demo_ops :: "(u64 \<times> u64) raft_op list" where
  "demo_ops = [AppendEntry (1, 1), SaveHardState \<lparr>hs_current_term = 2, hs_voted_for = None\<rparr>,
     ReplicateEntries [(2, 2), (3, 2)]]"

definition demo_start :: "nat \<Rightarrow> (u64 \<times> u64, unit) PersistentStorage" where
  "demo_start room = demo_ps (wal_open (wal_file_path ''d'' 1) [] room) []"

lemma demo_start_new:
  "ps_new demo_raft demo_wal 1 ''d'' clickhouse_config_default [] room = Ok (demo_start room)"
  using read_entries_short [of "[]" demo_wal]
  by (simp add: demo_ps_new demo_start_def wal_read_all_def wal_open_def restore_log_def)

lemma demo_writes:
  "\<forall>op\<in>set demo_ops. \<forall>d\<in>set (op_writes demo_raft op). length d \<le> 128 * 1024 * 1024"
  "length (hs_marker demo_raft hs) = 16"
  by (simp_all add: demo_ops_def demo_raft_def hs_marker_def ascii_def)

lemma demo_run:
  "\<exists>s'. raft_run demo_raft demo_wal (demo_start (115 + k)) demo_ops = Some s' \<and> f_room (wal_file (ps_wal s')) = k"
  by (simp add: demo_ops_def demo_start_def demo_ps_def wal_open_def append_entry_to_log_def
      save_hard_state_def replicate_to_log_def wal_append_def write_all_def demo_wal_def
      demo_raft_def hs_marker_def ascii_def wal_sync_def Let_def)

section \<open>Properties\<close>

text \<open>C8. A restart recovers the log: after any sequence of appended and replicated entries and
  saved hard states that the device took, a storage opened on the same file has the same log as
  the one that wrote it.\<close>

theorem restart_recovers_log:
  assumes "wal_ext_ok X" and "raft_ext_ok R"
    and "ps_new R X node dir config [] room = Ok s"
    and "raft_run R X s ops = Some s'" and "\<forall>op\<in>set ops. \<forall>a b. op \<noteq> DeleteLogs a b"
    and "\<forall>op\<in>set ops. \<forall>d\<in>set (op_writes R op). length d \<le> 128 * 1024 * 1024"
    and "ps_new R X node dir config (f_contents (wal_file (ps_wal s'))) room' = Ok s''"
  shows "ps_log s'' = ps_log s'"
proof -
  have "\<forall>op\<in>set ops. \<forall>d\<in>set (op_writes R op). wal_fits d"
    using assms(6) by (simp add: wal_fits_def MAX_ENTRY_def)
  from restart_log [OF assms(1-4) this assms(7)] raft_run_log [OF assms(4,5)]
    ps_new_empty [OF assms(1,3)] show ?thesis by simp
qed

theorem restart_recovers_log_witness:
  "\<exists>s' s''. raft_run demo_raft demo_wal (demo_start 1000) demo_ops = Some s' \<and>
     ps_new demo_raft demo_wal 1 ''d'' clickhouse_config_default (f_contents (wal_file (ps_wal s'))) 0 = Ok s'' \<and>
     ps_log s'' = ps_log s'"
proof -
  obtain s' where s': "raft_run demo_raft demo_wal (demo_start 1000) demo_ops = Some s'"
    using demo_run [of 885] by auto
  show ?thesis
    using s' restart_recovers_log [OF demo_wal_ok demo_raft_ok demo_start_new s' _ demo_writes(1) demo_ps_new]
    by (simp add: demo_ps_new) (simp add: demo_ops_def)
qed

text \<open>C39. Deleted entries come back: deleting conflicting entries is not recorded in the
  write-ahead log, so a restart after any deletion restores every entry ever appended.\<close>

theorem deleted_entries_return:
  assumes "wal_ext_ok X" and "raft_ext_ok R"
    and "ps_new R X node dir config [] room = Ok s"
    and "raft_run R X s ops = Some s'"
    and "\<forall>op\<in>set ops. \<forall>d\<in>set (op_writes R op). length d \<le> 128 * 1024 * 1024"
    and "ps_new R X node dir config
      (f_contents (wal_file (ps_wal (delete_logs_from R s' start stop)))) room' = Ok s''"
  shows "ps_log s'' = appended ops"
proof -
  have "\<forall>op\<in>set ops. \<forall>d\<in>set (op_writes R op). wal_fits d"
    using assms(5) by (simp add: wal_fits_def MAX_ENTRY_def)
  moreover have "ps_wal (delete_logs_from R s' start stop) = ps_wal s'"
    by (simp add: delete_logs_from_def split: option.splits)
  ultimately show ?thesis
    using restart_log [OF assms(1-4)] assms(6) by simp
qed

theorem deleted_entries_return_witness:
  "\<exists>s' s''. raft_run demo_raft demo_wal (demo_start 1000) demo_ops = Some s' \<and>
     ps_new demo_raft demo_wal 1 ''d'' clickhouse_config_default
       (f_contents (wal_file (ps_wal (delete_logs_from demo_raft s' 2 None)))) 0 = Ok s'' \<and>
     ps_log s'' = [(1, 1), (2, 2), (3, 2)]"
proof -
  obtain s' where s': "raft_run demo_raft demo_wal (demo_start 1000) demo_ops = Some s'"
    using demo_run [of 885] by auto
  show ?thesis
    using s' deleted_entries_return [OF demo_wal_ok demo_raft_ok demo_start_new s' demo_writes(1) demo_ps_new]
    by (simp add: demo_ps_new) (simp add: demo_ops_def appended_def)
qed

text \<open>A restart forgets the vote: whatever the file holds, the marker of \<open>save_hard_state\<close> included, a
  storage opened on it starts in term 0 without a vote, so that a node can vote twice in one term.\<close>

lemma restart_forgets_vote:
  "ps_new R X node dir config contents room = Ok s' \<Longrightarrow>
     is_hard_state (get_initial_state R s') = \<lparr>hs_current_term = 0, hs_voted_for = None\<rparr>"
  by (auto simp: ps_new_def get_initial_state_def Let_def split: prod.splits result.splits)

text \<open>One ignored write error costs the whole log: when the device fails while the hard state is
  written, after at least four bytes, saving still reports success, and a restart finds an empty
  log although every entry had been written and synced.\<close>

theorem ignored_write_error_loses_log:
  assumes "wal_ext_ok X" and "raft_ext_ok R" and "ps_new R X node dir config [] room = Ok s"
    and "raft_run R X s ops = Some s'"
    and "\<forall>d\<in>set (hs_marker R hs # concat (map (op_writes R) ops)). length d \<le> 128 * 1024 * 1024"
    and "4 \<le> f_room (wal_file (ps_wal s'))" and "f_room (wal_file (ps_wal s')) < 12 + length (hs_marker R hs)"
    and "save_hard_state R X s' hs = (res, s2)"
    and "ps_new R X node dir config (f_contents (wal_file (ps_wal s2))) room' = Ok s''"
  shows "res = Ok () \<and> ps_log s'' = []"
proof -
  let ?es = "concat (map (op_writes R) ops)"
  have "\<forall>op\<in>set ops. \<forall>d\<in>set (op_writes R op). wal_fits d"
    using assms(5) by (auto simp: wal_fits_def MAX_ENTRY_def)
  from raft_run_aligned [OF conjunct1 [OF ps_new_empty [OF assms(1,3)]] assms(4) this]
  have al: "wal_aligned X (ps_wal s') ?es" by simp
  have s2: "res = Ok ()" "ps_wal s2 = snd (wal_append X (ps_wal s') (hs_marker R hs))"
    using assms(8) by (auto simp: save_hard_state_def)
  have "f_contents (wal_file (ps_wal s2)) =
      wal_image X ?es @ take (f_room (wal_file (ps_wal s'))) (wal_record X (hs_marker R hs))"
    using wal_append_end(1) [OF assms(1), of "ps_wal s'"] al s2(2) by (simp add: wal_aligned_def prod_eq_iff)
  moreover have "\<forall>e\<in>set ?es. wal_fits e" "wal_fits (hs_marker R hs)"
    using assms(5) by (auto simp: wal_fits_def MAX_ENTRY_def)
  ultimately have "fst (wal_read_all X (wal_open p (f_contents (wal_file (ps_wal s2))) room')) = Err UnexpectedEof" for p
    using wal_read_torn [OF assms(1), of ?es "hs_marker R hs"] assms(6,7) by simp
  then show ?thesis
    using ps_new_log [OF assms(9)] s2(1) by (simp add: restore_log_def)
qed

end
