(* ===== verification/Raft_Network.thy ===== *)
theory Raft_Network
  imports Raft_Storage Handler
begin

text \<open>
  The Raft node and its network, \<^verbatim>\<open>crates/raft/src/node.rs\<close> and \<^verbatim>\<open>network.rs\<close>. The peers, behind a lock that
  node and network share, are a finite map from node ids to addresses. reqwest and serde are the
  parameter \<open>post\<close>: the status of the answer with its decoded body, or the failure to send. The
  consensus library takes the calls; \<^verbatim>\<open>None\<close> is a panic.
\<close>

section \<open>The network\<close>

datatype raft_rpc_error = PeerNotFound u64 | NetworkError string | RemoteError nat | SerializationError string

type_synonym peers = "(u64, string) dmap"
type_synonym ('req, 'resp) json_post = "string \<Rightarrow> 'req \<Rightarrow> (nat \<times> ('resp, string) result, string) result"

definition get_peer_url :: "peers \<Rightarrow> u64 \<Rightarrow> (string, raft_rpc_error) result" where
  "get_peer_url ps target = (case dget ps target of None \<Rightarrow> Err (PeerNotFound target) | Some addr \<Rightarrow> Ok addr)"

definition raft_post ::
  "('req, 'resp) json_post \<Rightarrow> peers \<Rightarrow> u64 \<Rightarrow> string \<Rightarrow> 'req \<Rightarrow> ('resp, raft_rpc_error) result" where
  "raft_post post ps target path req =
     (case get_peer_url ps target of
        Err e \<Rightarrow> Err e
      | Ok addr \<Rightarrow>
          (case post (''http://'' @ addr @ path) req of
             Err e \<Rightarrow> Err (NetworkError e)
           | Ok (status, body) \<Rightarrow>
               if \<not> http_success status then Err (RemoteError status)
               else (case body of Err e \<Rightarrow> Err (SerializationError e) | Ok resp \<Rightarrow> Ok resp)))"

definition rpc_append_entries ::
  "('req, 'resp) json_post \<Rightarrow> peers \<Rightarrow> u64 \<Rightarrow> 'req \<Rightarrow> ('resp, raft_rpc_error) result" where
  "rpc_append_entries post ps target rpc = raft_post post ps target ''/raft/append'' rpc"

definition rpc_install_snapshot ::
  "('req, 'resp) json_post \<Rightarrow> peers \<Rightarrow> u64 \<Rightarrow> 'req \<Rightarrow> ('resp, raft_rpc_error) result" where
  "rpc_install_snapshot post ps target rpc = raft_post post ps target ''/raft/snapshot'' rpc"

definition rpc_vote ::
  "('req, 'resp) json_post \<Rightarrow> peers \<Rightarrow> u64 \<Rightarrow> 'req \<Rightarrow> ('resp, raft_rpc_error) result" where
  "rpc_vote post ps target rpc = raft_post post ps target ''/raft/vote'' rpc"

section \<open>The node\<close>

record ('e, 'm) RaftNode =
  rn_node_id :: u64
  rn_storage :: "('e, 'm) PersistentStorage"
  rn_peers :: peers

text \<open>The storage is in the directory data of the working directory, with the default configuration
  of the ClickHouse backup.\<close>

definition raft_node_new ::
  "('e, 'm) raft_ext \<Rightarrow> wal_ext \<Rightarrow> u64 \<Rightarrow> string \<Rightarrow> bytes \<Rightarrow> nat \<Rightarrow> ('e, 'm) RaftNode option" where
  "raft_node_new R W node_id current_dir contents room =
     (case ps_new R W node_id (current_dir @ ''/data'') Clickhouse_Backup.clickhouse_config_default contents room of
        Err _ \<Rightarrow> None
      | Ok storage \<Rightarrow> Some \<lparr>rn_node_id = node_id, rn_storage = storage, rn_peers = dempty\<rparr>)"

definition add_peer :: "('e, 'm) RaftNode \<Rightarrow> u64 \<Rightarrow> string \<Rightarrow> ('e, 'm) RaftNode" where
  "add_peer node peer_id addr = node\<lparr>rn_peers := dinsert peer_id addr (rn_peers node)\<rparr>"

definition change_membership :: "(u64 set \<Rightarrow> (unit, string) result) \<Rightarrow> u64 set \<Rightarrow> (unit, string) result" where
  "change_membership raft members =
     (case raft members of Err e \<Rightarrow> Err (''Raft membership error: '' @ e) | Ok u \<Rightarrow> Ok ())"

section \<open>Lemmas\<close>

lemma raft_post_unknown: "dget ps target = None \<Longrightarrow> raft_post post ps target path req = Err (PeerNotFound target)"
  by (simp add: raft_post_def get_peer_url_def)

lemma raft_post_known:
  "dget ps target = Some addr \<Longrightarrow> post (''http://'' @ addr @ path) req = Ok (200, Ok resp) \<Longrightarrow>
     raft_post post ps target path req = Ok resp"
  by (simp add: raft_post_def get_peer_url_def http_success_def)

lemma raft_node_no_peers: "raft_node_new R W n dir contents room = Some node \<Longrightarrow> rn_peers node = dempty \<and> rn_node_id node = n"
  by (auto simp: raft_node_new_def split: result.splits)

lemmas rpc_defs = rpc_append_entries_def rpc_install_snapshot_def rpc_vote_def

definition raft_paths :: "string list" where
  "raft_paths = [''/raft/append'', ''/raft/snapshot'', ''/raft/vote'']"

lemma raft_path_decoy:
  "rq_path req \<in> set raft_paths \<Longrightarrow>
     handle_request X config req now inst nonce mt = (handle_decoy X (dc_security config) req, NoTask, mt)"
  by (auto simp: raft_paths_def handle_request_def)

section \<open>Properties\<close>

text \<open>The nodes of a cluster do not talk to each other: a node knows no peer until \<open>add_peer\<close> is called,
  so that every append, snapshot and vote call fails without a message; and a daemon answers such
  messages, were they sent, like requests for an unknown page.\<close>

theorem raft_rpcs_unanswered:
  assumes "raft_node_new R W node_id dir contents room = Some node" and "rq_path req \<in> set raft_paths"
  shows "rpc_append_entries post_a (rn_peers node) target ra = Err (PeerNotFound target) \<and>
    rpc_install_snapshot post_s (rn_peers node) target rs = Err (PeerNotFound target) \<and>
    rpc_vote post_v (rn_peers node) target rv = Err (PeerNotFound target) \<and>
    handle_request X config req now inst nonce mt = (handle_decoy X (dc_security config) req, NoTask, mt)"
  using raft_node_no_peers [OF assms(1)] raft_path_decoy [OF assms(2)]
  by (simp add: rpc_defs raft_post_unknown)

end
