(* ===== verification/Daemon_Main.thy ===== *)
theory Daemon_Main
  imports Raft_Network
begin

text \<open>
  The start of the daemon, \<^verbatim>\<open>daemon/src/main.rs\<close>: configuration, database, billing, registry, Raft node, exit
  pool and forwarder, in this order. The outcomes of the database, of the validation of the Raft
  configuration and of the file system are arguments; errors are values, \<^verbatim>\<open>None\<close> is a panic. Logging, the
  metrics and management servers, plugins and the loops that the parts then run are elsewhere.
\<close>

section \<open>Starting\<close>

definition exit_pool_config :: "DaemonConfig \<Rightarrow> ExitPoolConfig" where
  "exit_pool_config config = exit_pool_config_default\<lparr>pc_exit_nodes :=
     map (\<lambda>n. \<lparr>nd_url = en_endpoint n, nd_group_id = en_group_id n\<rparr>) (dc_exit_nodes config)\<rparr>"

datatype start_error = StartFailed string | PoolFailed ExitClientError

record start_env =
  se_config :: "(DaemonConfig, string) result"
  se_pg_client :: "(unit, string) result"
  se_migrate :: "(unit, string) result"
  se_raft_config :: "(unit, string) result"
  se_current_dir :: string
  se_wal_contents :: bytes
  se_wal_room :: nat

datatype ('e, 'm) daemon_mode = ExitMode | HandlerMode "('e, 'm) RaftNode" ExitForwarder

record ('e, 'm) daemon =
  da_config :: DaemonConfig
  da_billing :: BillingAggregator
  da_registry :: ConnectionRegistry
  da_mode :: "('e, 'm) daemon_mode"

definition init_raft ::
  "('e, 'm) raft_ext \<Rightarrow> wal_ext \<Rightarrow> start_env \<Rightarrow> DaemonConfig \<Rightarrow> (('e, 'm) RaftNode, start_error) result option" where
  "init_raft R W env config =
     (case se_raft_config env of
        Err e \<Rightarrow> Some (Err (StartFailed (''Invalid raft config: '' @ e)))
      | Ok _ \<Rightarrow>
          (case raft_node_new R W (rf_node_id (dc_raft config)) (se_current_dir env) (se_wal_contents env) (se_wal_room env) of
             None \<Rightarrow> None
           | Some node \<Rightarrow> Some (Ok node)))"

definition init_forwarder :: "'w http_ext \<Rightarrow> DaemonConfig \<Rightarrow> (ExitForwarder, start_error) result" where
  "init_forwarder H config =
     (case xp_new H (exit_pool_config config) (rf_node_id (dc_raft config)) of
        Err e \<Rightarrow> Err (PoolFailed e)
      | Ok exit_pool \<Rightarrow> Ok (ef_new exit_pool (rf_node_id (dc_raft config))))"

text \<open>The peers of the configuration are logged only.\<close>

definition daemon_main ::
  "'w http_ext \<Rightarrow> ('e, 'm) raft_ext \<Rightarrow> wal_ext \<Rightarrow> (nat \<Rightarrow> ProxyFrame channel) \<Rightarrow> start_env \<Rightarrow> bool \<Rightarrow>
     (('e, 'm) daemon, start_error) result option" where
  "daemon_main H R W chans env exit_flag =
     (case se_config env of
        Err e \<Rightarrow> Some (Err (StartFailed e))
      | Ok config \<Rightarrow>
          (case se_pg_client env of
             Err e \<Rightarrow> Some (Err (StartFailed (''Failed to connect to database: '' @ e)))
           | Ok _ \<Rightarrow>
               (case se_migrate env of
                  Err e \<Rightarrow> Some (Err (StartFailed (''Failed to migrate database: '' @ e)))
                | Ok _ \<Rightarrow>
                    let base = \<lparr>da_config = config, da_billing = ba_new, da_registry = registry_new chans, da_mode = ExitMode\<rparr> in
                    if exit_flag then Some (Ok base)
                    else (case init_raft R W env config of
                        None \<Rightarrow> None
                      | Some (Err e) \<Rightarrow> Some (Err e)
                      | Some (Ok node) \<Rightarrow>
                          (case init_forwarder H config of
                             Err e \<Rightarrow> Some (Err e)
                           | Ok forwarder \<Rightarrow> Some (Ok (base\<lparr>da_mode := HandlerMode node forwarder\<rparr>)))))))"

section \<open>Lemmas\<close>

definition node_client :: "ExitPoolConfig \<Rightarrow> ExitNodeDefinition \<Rightarrow> ExitClient" where
  "node_client config d = \<lparr>ex_config = client_config config (nd_url d), ex_healthy = True\<rparr>"

definition with_group :: "i32 \<Rightarrow> ExitNodeDefinition list \<Rightarrow> ExitNodeDefinition list" where
  "with_group g defs = filter (\<lambda>d. nd_group_id d = g) defs"

text \<open>Grouping keeps the nodes of every group in the order of the configuration.\<close>

lemma group_clients_get:
  "group_clients H config defs m = Ok m' \<Longrightarrow>
     dget m' g = (if with_group g defs = [] then dget m g
       else Some ((case dget m g of None \<Rightarrow> [] | Some cs \<Rightarrow> cs) @ map (node_client config) (with_group g defs)))"
proof (induction defs arbitrary: m)
  case (Cons d defs)
  from Cons.prems have c: "ex_new H (client_config config (nd_url d)) = Ok (node_client config d)"
    "group_clients H config defs (or_default_push (nd_group_id d) (node_client config d) m) = Ok m'"
    by (auto simp: ex_new_def node_client_def split: result.splits)
  show ?case
    using Cons.IH [OF c(2)] by (auto simp: with_group_def or_default_push_def split: option.splits)
qed (simp add: with_group_def)

lemma xp_new_groups:
  assumes "xp_new H config handler_id = Ok pool"
  shows "dget (xp_groups pool) g = (if with_group g (pc_exit_nodes config) = [] then None
    else Some \<lparr>gp_clients = map (node_client config) (with_group g (pc_exit_nodes config)), gp_next_index = 0\<rparr>)"
proof -
  obtain m where m: "group_clients H config (pc_exit_nodes config) dempty = Ok m"
    "xp_groups pool = map (\<lambda>(k, cs). (k, \<lparr>gp_clients = cs, gp_next_index = 0\<rparr>)) m"
    using assms by (auto simp: xp_new_def split: result.splits)
  from group_clients_get [OF m(1), of g] show ?thesis
    by (simp add: m(2) dget_def map_of_map dempty_def)
qed

lemma daemon_main_handler:
  assumes "daemon_main H R W chans env exit_flag = Some (Ok d)" "da_mode d = HandlerMode node forwarder"
  shows "se_config env = Ok (da_config d) \<and>
    raft_node_new R W (rf_node_id (dc_raft (da_config d))) (se_current_dir env) (se_wal_contents env) (se_wal_room env) = Some node \<and>
    (\<exists>pool. xp_new H (exit_pool_config (da_config d)) (rf_node_id (dc_raft (da_config d))) = Ok pool \<and>
       forwarder = ef_new pool (rf_node_id (dc_raft (da_config d))))"
  using assms
  by (auto simp: daemon_main_def init_raft_def init_forwarder_def Let_def
      split: result.splits option.splits if_splits)

section \<open>Properties\<close>

text \<open>C21. A daemon that has started as a handler forwards to every exit node of its configuration: the pool
  holds, for each group, a healthy client per configured node of that group, in order, and no
  group without nodes; so a node of group 0 that takes packets makes it a forwarder with a working
  node; packets carry the node id of the configuration; but whatever peers are
  configured, the Raft node knows none.\<close>

theorem daemon_starts_handler:
  assumes "daemon_main H R W chans env False = Some (Ok d)"
  shows "\<exists>node forwarder. da_mode d = HandlerMode node forwarder \<and> se_config env = Ok (da_config d) \<and>
    ef_node_id forwarder = rf_node_id (dc_raft (da_config d)) \<and>
    (\<forall>g. map (ec_base_url \<circ> ex_config)
        (case dget (xp_groups (ef_pool forwarder)) g of None \<Rightarrow> [] | Some gp \<Rightarrow> gp_clients gp) =
      map en_endpoint (filter (\<lambda>n. en_group_id n = g) (dc_exit_nodes (da_config d)))) \<and>
    (\<forall>g gp. dget (xp_groups (ef_pool forwarder)) g = Some gp \<longrightarrow>
       gp_clients gp \<noteq> [] \<and> (\<forall>c\<in>set (gp_clients gp). ex_is_healthy c)) \<and>
    ((\<exists>n\<in>set (dc_exit_nodes (da_config d)). en_group_id n = 0 \<and>
        accepts H (node_client (exit_pool_config (da_config d)) \<lparr>nd_url = en_endpoint n, nd_group_id = 0\<rparr>)) \<longrightarrow>
      has_working_node H forwarder) \<and>
    rn_peers node = dempty"
proof -
  obtain node forwarder where mode: "da_mode d = HandlerMode node forwarder"
    using assms by (auto simp: daemon_main_def Let_def split: result.splits option.splits)
  note h = daemon_main_handler [OF assms mode]
  then obtain pool where pool: "xp_new H (exit_pool_config (da_config d)) (rf_node_id (dc_raft (da_config d))) = Ok pool"
    "forwarder = ef_new pool (rf_node_id (dc_raft (da_config d)))" by blast
  have w: "with_group g (pc_exit_nodes (exit_pool_config c)) =
      map (\<lambda>n. \<lparr>nd_url = en_endpoint n, nd_group_id = en_group_id n\<rparr>) (filter (\<lambda>n. en_group_id n = g) (dc_exit_nodes c))" for g c
    by (simp add: with_group_def exit_pool_config_def filter_map comp_def)
  note g = xp_new_groups [OF pool(1), unfolded w]
  have "rn_peers node = dempty" using h raft_node_no_peers by blast
  moreover have "has_working_node H forwarder"
    if n: "n \<in> set (dc_exit_nodes (da_config d))" "en_group_id n = 0"
      "accepts H (node_client (exit_pool_config (da_config d)) \<lparr>nd_url = en_endpoint n, nd_group_id = 0\<rparr>)" for n
  proof -
    let ?ns = "filter (\<lambda>n. en_group_id n = 0) (dc_exit_nodes (da_config d))"
    have "n \<in> set ?ns" using n by simp
    then have "?ns \<noteq> []" by (metis empty_iff empty_set)
    then have "dget (xp_groups pool) 0 = Some \<lparr>gp_clients = map (node_client (exit_pool_config (da_config d)))
        (map (\<lambda>n. \<lparr>nd_url = en_endpoint n, nd_group_id = en_group_id n\<rparr>) ?ns), gp_next_index = 0\<rparr>"
      using g [of 0] by (simp only: map_is_Nil_conv if_False)
    with n show ?thesis
      by (force simp: has_working_node_def pool(2) ef_new_def ex_is_healthy_def node_client_def)
  qed
  ultimately show ?thesis
    using mode h pool(2) g
    by (auto simp: ef_new_def node_client_def client_config_def ex_is_healthy_def comp_def split: if_splits)
qed

definition demo_env :: start_env where
  "demo_env = \<lparr>se_config = Ok (daemon_config_default\<lparr>dc_exit_nodes :=
       [\<lparr>en_name = ''a'', en_endpoint = ''http://a'', en_weight = 0, en_location = None, en_group_id = 0\<rparr>,
        \<lparr>en_name = ''b'', en_endpoint = ''http://b'', en_weight = 0, en_location = None, en_group_id = 2\<rparr>],
       dc_raft := raft_config_default\<lparr>rf_peers := [''10.0.0.2:25347'']\<rparr>\<rparr>),
     se_pg_client = Ok (), se_migrate = Ok (), se_raft_config = Ok (), se_current_dir = ''/srv'',
     se_wal_contents = [], se_wal_room = 4096\<rparr>"

lemma demo_starts: "\<exists>d. daemon_main demo_http demo_raft demo_wal (\<lambda>_. \<lparr>ch_queue = [], ch_open = True\<rparr>) demo_env False = Some (Ok d)"
  using demo_ps_new
  by (simp add: daemon_main_def demo_env_def init_raft_def raft_node_new_def raft_config_default_def default_node_id_def
      init_forwarder_def xp_new_def exit_pool_config_def exit_pool_config_default_def ex_new_def demo_http_def Let_def)

theorem daemon_starts_handler_witness:
  "\<exists>d node forwarder. daemon_main demo_http demo_raft demo_wal (\<lambda>_. \<lparr>ch_queue = [], ch_open = True\<rparr>) demo_env False = Some (Ok d) \<and>
     da_mode d = HandlerMode node forwarder \<and> rn_peers node = dempty \<and>
     map (ec_base_url \<circ> ex_config) (case dget (xp_groups (ef_pool forwarder)) 2 of None \<Rightarrow> [] | Some gp \<Rightarrow> gp_clients gp) = [''http://b'']"
proof -
  obtain d where d: "daemon_main demo_http demo_raft demo_wal (\<lambda>_. \<lparr>ch_queue = [], ch_open = True\<rparr>) demo_env False = Some (Ok d)"
    using demo_starts by blast
  obtain node forwarder where n: "da_mode d = HandlerMode node forwarder" "se_config demo_env = Ok (da_config d)" "rn_peers node = dempty"
    and g: "\<And>g. map (ec_base_url \<circ> ex_config)
        (case dget (xp_groups (ef_pool forwarder)) g of None \<Rightarrow> [] | Some gp \<Rightarrow> gp_clients gp) =
      map en_endpoint (filter (\<lambda>n. en_group_id n = g) (dc_exit_nodes (da_config d)))"
    using daemon_starts_handler [OF d] by blast
  have "dc_exit_nodes (da_config d) = (case se_config demo_env of Ok c \<Rightarrow> dc_exit_nodes c | Err _ \<Rightarrow> [])"
    by (simp add: n(2))
  then have "map en_endpoint (filter (\<lambda>n. en_group_id n = 2) (dc_exit_nodes (da_config d))) = [''http://b'']"
    by (simp add: demo_env_def)
  with g [of 2] d n(1,3) show ?thesis by auto
qed

end
