(* ===== verification/Management.thy ===== *)
theory Management
  imports Raft_Network
begin

text \<open>
  The management interface of the daemon, \<^verbatim>\<open>daemon/src/management.rs\<close>, and the command line tool that calls
  it, \<^verbatim>\<open>cli/src/main.rs\<close>. Routing is axum's: the first route whose pattern fits the path, where a segment
  \<^verbatim>\<open>:name\<close> fits any segment that is not empty; 404 and 405 otherwise. Bodies are the values JSON carries
  between the two; a body of another shape is refused with 422. Handlers do not write the state.
\<close>

section \<open>Requests and answers\<close>

record CreateUserRequest =
  cu_username :: string
  cu_quota_bytes :: "u64 option"

record RegisterNodeRequest =
  re_name :: string
  re_endpoint :: string
  re_weight :: f64

record SystemStats =
  st_active_connections :: nat
  st_total_rx_bytes :: u64
  st_total_tx_bytes :: u64

datatype admin_body = NoBody | CreateUserBody CreateUserRequest | RegisterNodeBody RegisterNodeRequest
  | MembershipBody "u64 list"

datatype admin_answer = JsonText string | JsonStats SystemStats | JsonStatus string string | HtmlPage | Rejected

record AppState =
  ap_registry :: ConnectionRegistry
  ap_raft :: "(u64 set \<Rightarrow> (unit, string) result) option"

section \<open>Handlers\<close>

definition create_user :: "AppState \<Rightarrow> CreateUserRequest \<Rightarrow> nat \<times> admin_answer" where
  "create_user state payload = (201, JsonText ''User created'')"

definition delete_user :: "AppState \<Rightarrow> u64 \<Rightarrow> nat \<times> admin_answer" where
  "delete_user state user = (204, JsonText ''User deleted'')"

definition register_node :: "AppState \<Rightarrow> RegisterNodeRequest \<Rightarrow> nat \<times> admin_answer" where
  "register_node state payload = (201, JsonText ''Node registered'')"

definition get_stats :: "AppState \<Rightarrow> nat \<times> admin_answer" where
  "get_stats state = (200, JsonStats \<lparr>st_active_connections = rg_count (ap_registry state),
     st_total_rx_bytes = 0, st_total_tx_bytes = 0\<rparr>)"

definition change_cluster_membership :: "AppState \<Rightarrow> u64 list \<Rightarrow> nat \<times> admin_answer" where
  "change_cluster_membership state members =
     (200, case ap_raft state of
        Some raft \<Rightarrow>
          (case change_membership raft (set members) of
             Ok _ \<Rightarrow> JsonStatus ''success'' ''Membership change initiated''
           | Err e \<Rightarrow> JsonStatus ''error'' e)
      | None \<Rightarrow> JsonStatus ''error'' ''Raft node not initialized'')"

section \<open>Routes\<close>

definition admin_routes :: "(string \<times> string) list" where
  "admin_routes =
     [(''GET'', ''/''), (''POST'', ''/admin/users''), (''DELETE'', ''/admin/users/:id''), (''POST'', ''/admin/nodes''),
      (''GET'', ''/admin/stats''), (''POST'', ''/admin/cluster/membership'')]"

fun segments_match :: "string list \<Rightarrow> string list \<Rightarrow> bool" where
  "segments_match [] [] = True"
| "segments_match (p # ps) (s # ss) =
     ((if take 1 p = '':'' then s \<noteq> [] else p = s) \<and> segments_match ps ss)"
| "segments_match _ _ = False"

definition pattern_matches :: "string \<Rightarrow> string \<Rightarrow> bool" where
  "pattern_matches pattern path = segments_match (split_str CHR ''/'' pattern) (split_str CHR ''/'' path)"

definition serve_admin :: "AppState \<Rightarrow> string \<Rightarrow> string \<Rightarrow> admin_body \<Rightarrow> nat \<times> admin_answer" where
  "serve_admin state verb path body =
     (case find (\<lambda>(v, p). v = verb \<and> pattern_matches p path) admin_routes of
        None \<Rightarrow> (if \<exists>(v, p)\<in>set admin_routes. pattern_matches p path then 405 else 404, Rejected)
      | Some (v, p) \<Rightarrow>
          if p = ''/'' then (200, HtmlPage)
          else if p = ''/admin/users''
            then (case body of CreateUserBody req \<Rightarrow> create_user state req | _ \<Rightarrow> (422, Rejected))
          else if p = ''/admin/users/:id''
            then (case parse_u64 (ascii (last (split_str CHR ''/'' path))) of
                    Some user \<Rightarrow> delete_user state user | None \<Rightarrow> (400, Rejected))
          else if p = ''/admin/nodes''
            then (case body of RegisterNodeBody req \<Rightarrow> register_node state req | _ \<Rightarrow> (422, Rejected))
          else if p = ''/admin/stats'' then get_stats state
          else (case body of MembershipBody ms \<Rightarrow> change_cluster_membership state ms | _ \<Rightarrow> (422, Rejected)))"

section \<open>The command line tool\<close>

datatype Commands = Stats | UserCreate string "u64 option" | UserDelete u64 | NodeRegister string string f64

definition cli_request :: "Commands \<Rightarrow> string \<times> string \<times> admin_body" where
  "cli_request command =
     (case command of
        Stats \<Rightarrow> (''GET'', ''/admin/stats'', NoBody)
      | UserCreate username quota \<Rightarrow>
          (''POST'', ''/admin/users'', CreateUserBody \<lparr>cu_username = username, cu_quota_bytes = quota\<rparr>)
      | UserDelete user \<Rightarrow> (''DELETE'', ''/admin/users/'' @ dec_str (unat user), NoBody)
      | NodeRegister name endpoint weight \<Rightarrow>
          (''POST'', ''/admin/nodes'', RegisterNodeBody \<lparr>re_name = name, re_endpoint = endpoint, re_weight = weight\<rparr>))"

datatype cli_output = Table SystemStats | Printed string | Warned nat

definition success_text :: "Commands \<Rightarrow> string" where
  "success_text command =
     (case command of
        Stats \<Rightarrow> []
      | UserCreate _ _ \<Rightarrow> ''User created successfully''
      | UserDelete _ \<Rightarrow> ''User deleted successfully''
      | NodeRegister _ _ _ \<Rightarrow> ''Node registered successfully'')"

text \<open>\<open>send\<close> is the HTTP client: verb, path and body to the status and answer.\<close>

definition cli_run ::
  "(string \<Rightarrow> string \<Rightarrow> admin_body \<Rightarrow> (nat \<times> admin_answer, string) result) \<Rightarrow> Commands \<Rightarrow> (cli_output, string) result" where
  "cli_run send command =
     (case cli_request command of (verb, path, body) \<Rightarrow>
       (case send verb path body of
          Err e \<Rightarrow> Err e
        | Ok (status, answer) \<Rightarrow>
            if command = Stats
            then (if \<not> http_success status then Err ''HTTP status error''
                  else case answer of JsonStats stats \<Rightarrow> Ok (Table stats) | _ \<Rightarrow> Err ''error decoding response body'')
            else if http_success status then Ok (Printed (success_text command)) else Ok (Warned status)))"

section \<open>Lemmas\<close>

lemma split_str_neq_Nil [simp]: "split_str c s \<noteq> []"
  by (induction s) (auto split: list.splits)

lemma split_str_none: "c \<notin> set s \<Longrightarrow> split_str c s = [s]"
  by (induction s) auto

lemma split_str_append: "c \<notin> set xs \<Longrightarrow> split_str c (xs @ c # ys) = xs # split_str c ys"
  by (induction xs) auto

lemma dec_str_chars: "c \<in> set (dec_str n) \<Longrightarrow> c \<noteq> CHR ''/''"
proof -
  assume "c \<in> set (dec_str n)"
  then obtain b where b: "b \<in> set (dec n)" "c = char_of (unat b)" by (auto simp: dec_str_def)
  then have "48 \<le> unat b" "unat b \<le> 57"
    using dec_digits [of n] by (auto simp: is_digit_def in_range_def word_le_nat_alt)
  moreover from this have "of_char c = unat b" using b(2) by simp
  ultimately show ?thesis by auto
qed

lemma ascii_dec_str: "ascii (dec_str n) = dec n"
proof -
  have "of_char (char_of (unat b) :: char) = b" for b :: u8
  proof -
    have "unat b < 256" using unsigned_less [of b] by simp
    then have "of_char (char_of (unat b) :: char) = unat b" by simp
    then have "(of_nat (of_char (char_of (unat b) :: char)) :: u8) = b" by simp
    then show ?thesis by (simp only: of_nat_of_char)
  qed
  then show ?thesis by (simp add: ascii_def dec_str_def comp_def)
qed

lemma delete_path:
  "split_str CHR ''/'' (''/admin/users/'' @ dec_str n) = [[], ''admin'', ''users'', dec_str n]"
  using dec_str_chars split_str_none [of "CHR ''/''" "dec_str n"] by auto

lemma dec_str_nonempty [simp]: "dec_str n \<noteq> []"
  by (simp add: dec_str_def)

lemma serve_delete:
  "serve_admin state ''DELETE'' (''/admin/users/'' @ dec_str (unat user)) body = delete_user state user"
proof -
  have "find (\<lambda>(v, p). v = ''DELETE'' \<and> pattern_matches p (''/admin/users/'' @ dec_str (unat user))) admin_routes =
      Some (''DELETE'', ''/admin/users/:id'')"
    using delete_path [of "unat user"] by (simp add: admin_routes_def pattern_matches_def)
  moreover have "parse_u64 (ascii (last (split_str CHR ''/'' (''/admin/users/'' @ dec_str (unat user))))) = Some user"
    unfolding delete_path by (simp add: ascii_dec_str parse_u64_dec)
  ultimately show ?thesis by (simp add: serve_admin_def)
qed

section \<open>Properties\<close>

text \<open>Every command of the tool reaches its handler: the routes match, the number of the user survives
  printing and parsing, and the tool reports success in every state of the daemon, the statistics
  being the number of registered connections.\<close>

theorem cli_commands_served:
  "cli_run (\<lambda>verb path body. Ok (serve_admin state verb path body)) command =
     Ok (if command = Stats
         then Table \<lparr>st_active_connections = rg_count (ap_registry state), st_total_rx_bytes = 0, st_total_tx_bytes = 0\<rparr>
         else Printed (success_text command))"
proof (cases command)
  case (UserDelete user)
  then show ?thesis
    using serve_delete [of state user]
    by (simp add: cli_run_def cli_request_def delete_user_def http_success_def)
qed (simp_all add: cli_run_def cli_request_def serve_admin_def admin_routes_def pattern_matches_def
    create_user_def register_node_def get_stats_def http_success_def)

end
