(* ===== verification/Daemon_Services.thy ===== *)
theory Daemon_Services
  imports Handler
begin

text \<open>
  The page of metrics, \<^verbatim>\<open>daemon/src/metrics.rs\<close>, and the socket for plugins, \<^verbatim>\<open>daemon/src/plugin.rs\<close>. The metrics are
  registered when the handler uses them for the first time: \<open>None\<close> stands for the time before.
\<close>

section \<open>Metrics\<close>

datatype metric = Counter nat | Gauge int | Histogram "nat list" "nat list option"

text \<open>What is registered, in the order of \<^verbatim>\<open>Metrics::new\<close>; a histogram has the default buckets or its own.\<close>

definition registered :: "Metrics \<Rightarrow> (string \<times> metric) list" where
  "registered mt =
     [(''apfsds_frames_sent_total'', Counter (mt_frames_sent mt)),
      (''apfsds_frames_received_total'', Counter (mt_frames_received mt)),
      (''apfsds_auth_successes_total'', Counter (mt_auth_successes mt)),
      (''apfsds_auth_failures_total'', Counter (mt_auth_failures mt)),
      (''apfsds_active_connections'', Gauge (mt_active_connections mt)),
      (''apfsds_pool_connections'', Gauge (mt_pool_connections mt)),
      (''apfsds_request_duration_seconds'', Histogram (mt_request_duration mt) None),
      (''apfsds_frame_size_bytes'', Histogram (mt_frame_size mt) (Some [64, 256, 512, 1024, 4096, 8192, 16384]))]"

definition gather :: "Metrics option \<Rightarrow> (string \<times> metric) list" where
  "gather metrics = (case metrics of None \<Rightarrow> [] | Some mt \<Rightarrow> registered mt)"

text \<open>Every request of every connection is answered with the page. A failed accept is logged.\<close>

definition metrics_page :: "((string \<times> metric) list \<Rightarrow> bytes) \<Rightarrow> Metrics option \<Rightarrow> http_resp" where
  "metrics_page encode metrics = \<lparr>ht_status = 200, ht_headers = [(''Content-Type'', ''text/plain'')],
     ht_body = encode (gather metrics)\<rparr>"

definition metrics_server ::
  "((string \<times> metric) list \<Rightarrow> bytes) \<Rightarrow> bool \<Rightarrow> (unit, string) result \<Rightarrow>
     (Metrics option list, string) result list \<Rightarrow> http_resp list" where
  "metrics_server encode enabled bound connections =
     (if \<not> enabled then []
      else case bound of
          Err e \<Rightarrow> []
        | Ok _ \<Rightarrow> concat (map (\<lambda>c. case c of Err e \<Rightarrow> [] | Ok requests \<Rightarrow> map (metrics_page encode) requests) connections))"

section \<open>Plugins\<close>

text \<open>The listener of the Unix socket, on a set of files: an old socket is removed, if possible. Every
  connection is closed at once.\<close>

definition plugin_bind :: "(string \<Rightarrow> bool) \<Rightarrow> string \<Rightarrow> string set \<Rightarrow> (unit, string) result \<times> string set" where
  "plugin_bind removable socket_path files =
     (let files = (if socket_path \<in> files \<and> removable socket_path then files - {socket_path} else files) in
      if socket_path \<in> files then (Err ''Address already in use'', files) else (Ok (), insert socket_path files))"

definition plugin_connection :: "bytes \<Rightarrow> bytes" where
  "plugin_connection received = []"

definition plugin_start ::
  "(string \<Rightarrow> bool) \<Rightarrow> string \<Rightarrow> string set \<Rightarrow> (bytes, string) result list \<Rightarrow> (bytes list, string) result \<times> string set" where
  "plugin_start removable socket_path files accepted =
     (case plugin_bind removable socket_path files of
        (Err e, files) \<Rightarrow> (Err e, files)
      | (Ok _, files) \<Rightarrow>
          (Ok (concat (map (\<lambda>a. case a of Err e \<Rightarrow> [] | Ok received \<Rightarrow> [plugin_connection received]) accepted)), files))"

section \<open>The server of the handler\<close>

text \<open>The loop of \<^verbatim>\<open>run_handler\<close>: a connection is accepted, with the requests it will bring, or the
  accepting fails. Every request has the clock readings and the nonce it is served with; the result has the
  responses, the tasks started, the metrics, and the error that ended the loop.\<close>

fun serve_requests ::
  "('k, 's) handler_ext \<Rightarrow> DaemonConfig \<Rightarrow> (request \<times> u64 \<times> nat \<times> bytes) list \<Rightarrow> Metrics \<Rightarrow>
     (http_resp \<times> spawned) list \<times> Metrics" where
  "serve_requests X config [] mt = ([], mt)"
| "serve_requests X config ((req, now, inst, nonce) # reqs) mt =
     (case handle_request X config req now inst nonce mt of
        (resp, task, mt1) \<Rightarrow> (case serve_requests X config reqs mt1 of (rs, mt2) \<Rightarrow> ((resp, task) # rs, mt2)))"

fun handler_accepts ::
  "('k, 's) handler_ext \<Rightarrow> DaemonConfig \<Rightarrow> ((request \<times> u64 \<times> nat \<times> bytes) list, string) result list \<Rightarrow> Metrics \<Rightarrow>
     (http_resp \<times> spawned) list \<times> Metrics \<times> string option" where
  "handler_accepts X config [] mt = ([], mt, None)"
| "handler_accepts X config (c # cs) mt =
     (case c of
        Err e \<Rightarrow> ([], mt, Some e)
      | Ok reqs \<Rightarrow>
          (case serve_requests X config reqs mt of
             (rs, mt1) \<Rightarrow> (case handler_accepts X config cs mt1 of (rs', mt2, e) \<Rightarrow> (rs @ rs', mt2, e))))"

definition run_handler ::
  "('k, 's) handler_ext \<Rightarrow> DaemonConfig \<Rightarrow> (unit, string) result \<Rightarrow>
     ((request \<times> u64 \<times> nat \<times> bytes) list, string) result list \<Rightarrow> Metrics \<Rightarrow>
     (http_resp \<times> spawned) list \<times> Metrics \<times> string option" where
  "run_handler X config bound connections mt =
     (case bound of Err e \<Rightarrow> ([], mt, Some e) | Ok _ \<Rightarrow> handler_accepts X config connections mt)"

text \<open>How requests are spread over connections makes no difference; one failure to accept ends the daemon's
  service, whatever would come after it.\<close>

lemma serve_requests_append:
  "serve_requests X config (xs @ ys) mt =
     (case serve_requests X config xs mt of (rs, mt1) \<Rightarrow>
        (case serve_requests X config ys mt1 of (rs', mt2) \<Rightarrow> (rs @ rs', mt2)))"
  by (induction xs arbitrary: mt) (auto split: prod.splits)

lemma handler_accepts_requests:
  "handler_accepts X config (map Ok conns) mt =
     (case serve_requests X config (concat conns) mt of (rs, mt') \<Rightarrow> (rs, mt', None))"
  by (induction conns arbitrary: mt) (auto simp: serve_requests_append split: prod.splits)

lemma accept_error_ends_handler:
  "run_handler X config (Ok ()) (map Ok conns @ Err e # rest) mt =
     (case serve_requests X config (concat conns) mt of (rs, mt') \<Rightarrow> (rs, mt', Some e))"
  unfolding run_handler_def
  by (induction conns arbitrary: mt) (auto simp: serve_requests_append split: prod.splits)

section \<open>Lemmas\<close>

lemma registered_distinct: "distinct (map fst (registered mt))"
  by (simp add: registered_def)

text \<open>The page shows the counters as the handler keeps them: a frame received counts once, with its size.\<close>

lemma page_counts_tokens:
  "map_of (gather (Some mt)) ''apfsds_auth_failures_total'' = Some (Counter (mt_auth_failures mt))"
  "map_of (gather (Some mt)) ''apfsds_frames_received_total'' = Some (Counter (mt_frames_received mt))"
  "map_of (gather (Some mt)) ''apfsds_active_connections'' = Some (Gauge (mt_active_connections mt))"
  by (simp_all add: gather_def registered_def)

lemma plugin_restart:
  "removable p \<Longrightarrow> fst (plugin_bind removable p files) = Ok () \<and> p \<in> snd (plugin_bind removable p files)"
  by (simp add: plugin_bind_def Let_def)

end
