(* ===== verification/Tun_Device.thy ===== *)
theory Tun_Device
  imports Client_Config
begin

text \<open>
  The TUN device of the client on its platforms, \<^verbatim>\<open>client/src/tun_device.rs\<close>, and the entry point for mobile
  systems, \<^verbatim>\<open>client/src/mobile.rs\<close>. The crates \<^verbatim>\<open>tun\<close> and \<^verbatim>\<open>wintun\<close> are parameters; \<open>None\<close> is a panic.
\<close>

section \<open>Linux\<close>

datatype tun_setting = TunName string | Address bytes | Netmask bytes | Mtu u16 | Up

definition linux_create :: "(tun_setting list \<Rightarrow> ('d, string) result) \<Rightarrow> TunDeviceConfig \<Rightarrow> ('d, string) result" where
  "linux_create tun_create config =
     tun_create [TunName (td_name config), Address (td_address config), Netmask (td_netmask config), Mtu (td_mtu config), Up]"

section \<open>Windows\<close>

record 'd wintun_ext =
  wn_load :: "(unit, string) result"
  wn_create :: "string \<Rightarrow> string \<Rightarrow> (unit, string) result"
  wn_start_session :: "('d, string) result"
  wn_receive :: "'d \<Rightarrow> (bytes, string) result \<times> 'd"
  wn_allocate :: "u16 \<Rightarrow> 'd \<Rightarrow> (nat, string) result"
  wn_send :: "bytes \<Rightarrow> 'd \<Rightarrow> 'd"

definition windows_create :: "'d wintun_ext \<Rightarrow> TunDeviceConfig \<Rightarrow> ('d, string) result" where
  "windows_create W config =
     and_then (wn_load W) (\<lambda>_. and_then (wn_create W (td_name config) ''APFSDS'') (\<lambda>_. wn_start_session W))"

text \<open>The bytes put at the start of a buffer of \<open>buf_len\<close> bytes.\<close>

definition windows_read :: "'d wintun_ext \<Rightarrow> nat \<Rightarrow> 'd \<Rightarrow> (bytes, string) result \<times> 'd" where
  "windows_read W buf_len d =
     (case wn_receive W d of
        (Ok packet, d') \<Rightarrow> (let len = min (length packet) buf_len in (Ok (take len packet), d'))
      | (Err e, d') \<Rightarrow> (Err (''Wintun read error: '' @ e), d'))"

definition windows_write :: "'d wintun_ext \<Rightarrow> bytes \<Rightarrow> 'd \<Rightarrow> ((nat, string) result \<times> 'd) option" where
  "windows_write W buf d =
     (case wn_allocate W (word_of_nat (length buf)) d of
        Err e \<Rightarrow> Some (Err e, d)
      | Ok n \<Rightarrow> if n \<noteq> length buf then None else Some (Ok (length buf), wn_send W buf d))"

section \<open>Other platforms\<close>

definition stub_create :: "TunDeviceConfig \<Rightarrow> (unit, string) result" where
  "stub_create config = Err ''TUN devices not supported on this platform''"

section \<open>Mobile\<close>

definition apfsds_mobile_start :: "bytes option \<Rightarrow> int" where
  "apfsds_mobile_start config_path = (case config_path of None \<Rightarrow> -1 | Some _ \<Rightarrow> 0)"

section \<open>Lemmas\<close>

lemma windows_read_fits: "windows_read W n d = (Ok bs, d') \<Longrightarrow> length bs \<le> n"
  by (auto simp: windows_read_def Let_def split: prod.splits result.splits)

text \<open>The length is cut to 16 bits, so that a buffer of 64 KiB or more panics instead of being refused.\<close>

lemma windows_write_panics:
  assumes "\<And>n. wn_allocate W n d = Ok (unat n)"
  shows "windows_write W buf d = (if length buf < 2 ^ 16 then Some (Ok (length buf), wn_send W buf d) else None)"
proof -
  have "unat (word_of_nat (length buf) :: u16) = length buf mod 2 ^ 16" by (simp add: unat_of_nat)
  moreover have "length buf mod 2 ^ 16 \<noteq> length buf \<longleftrightarrow> \<not> length buf < 2 ^ 16"
    using mod_less_divisor [of "2 ^ 16" "length buf"] by (metis mod_less zero_less_power zero_less_numeral)
  ultimately show ?thesis by (simp add: windows_write_def assms)
qed

text \<open>TUN mode with each device: on Linux the device gets the settings of the configuration, elsewhere
  TUN mode ends at once.\<close>

lemma run_tun_linux:
  assumes "parse_cidr (ascii (tu_address (cc_tun config))) = Some (ip, netmask)"
  shows "run_tun (\<lambda>c. and_then (linux_create create c) (\<lambda>_. Ok ())) config reads =
    and_then (create [TunName (tu_device (cc_tun config)), Address ip, Netmask netmask, Mtu (tu_mtu (cc_tun config)), Up])
      (\<lambda>_. Ok (tun_loop reads))"
  using assms by (simp add: run_tun_def linux_create_def tun_setup_def and_then_def split: result.splits)

lemma run_tun_stub: "run_tun stub_create config reads = Err ''TUN devices not supported on this platform''"
  by (simp add: run_tun_def stub_create_def)

end
