(* ===== verification/Secure_Transports.thy ===== *)
theory Secure_Transports
  imports Rust_Std
begin

text \<open>
  Mutual TLS, QUIC, SSH and the placeholder of the WebSocket server, \<^verbatim>\<open>crates/transport/src/{mtls,quic,ssh,wss_server}.rs\<close>. The
  libraries (\<^verbatim>\<open>rustls\<close>, \<^verbatim>\<open>quinn\<close>, \<^verbatim>\<open>russh\<close>) are parameters; what the code decides is which peers they are told to accept, how keys
  are found, and how messages are put into streams.
\<close>

section \<open>Mutual TLS\<close>

datatype PrivateKeyDer = Pkcs8 bytes | Pkcs1 bytes

record MtlsConfig =
  ms_ca_path :: string
  ms_cert_path :: string
  ms_key_path :: string

text \<open>Files and the readers of PEM; what \<^verbatim>\<open>RootCertStore::add\<close>, the builder of the verifier and \<^verbatim>\<open>with_single_cert\<close>
  (for a client \<^verbatim>\<open>with_client_auth_cert\<close>) answer.\<close>

record tls_ext =
  tx_open :: "string \<Rightarrow> (bytes, string) result"
  tx_certs :: "bytes \<Rightarrow> (bytes, string) result list"
  tx_pkcs8 :: "bytes \<Rightarrow> (bytes, string) result list"
  tx_rsa :: "bytes \<Rightarrow> (bytes, string) result list"
  tx_root :: "bytes \<Rightarrow> (unit, string) result"
  tx_verifier :: "bytes list \<Rightarrow> (unit, string) result"
  tx_identity :: "bytes list \<Rightarrow> PrivateKeyDer \<Rightarrow> (unit, string) result"

definition load_certs :: "tls_ext \<Rightarrow> string \<Rightarrow> (bytes list, string) result" where
  "load_certs T path = and_then (tx_open T path) (\<lambda>file. collect_results (tx_certs T file))"

definition load_key :: "tls_ext \<Rightarrow> string \<Rightarrow> (PrivateKeyDer, string) result" where
  "load_key T path =
     and_then (tx_open T path) (\<lambda>file. and_then (collect_results (tx_pkcs8 T file)) (\<lambda>keys.
       case keys of
         key # _ \<Rightarrow> Ok (Pkcs8 key)
       | [] \<Rightarrow>
           and_then (tx_open T path) (\<lambda>file. and_then (collect_results (tx_rsa T file)) (\<lambda>keys.
             case keys of key # _ \<Rightarrow> Ok (Pkcs1 key) | [] \<Rightarrow> Err ''No private key found''))))"

text \<open>What a TLS configuration asks of the peer, and how it presents itself.\<close>

datatype peer_check = NoPeerCheck | AnyCertificate | ChainTo "bytes list"

record tls_config =
  tl_peer :: peer_check
  tl_identity :: "(bytes list \<times> PrivateKeyDer) option"

fun add_roots :: "tls_ext \<Rightarrow> bytes list \<Rightarrow> bytes list \<Rightarrow> (bytes list, string) result" where
  "add_roots T store [] = Ok store"
| "add_roots T store (cert # certs) = and_then (tx_root T cert) (\<lambda>_. add_roots T (store @ [cert]) certs)"

definition create_acceptor :: "tls_ext \<Rightarrow> MtlsConfig \<Rightarrow> (tls_config, string) result" where
  "create_acceptor T config =
     and_then (load_certs T (ms_cert_path config)) (\<lambda>certs.
     and_then (load_key T (ms_key_path config)) (\<lambda>key.
     and_then (load_certs T (ms_ca_path config)) (\<lambda>ca_certs.
     and_then (add_roots T [] ca_certs) (\<lambda>root_store.
     and_then (tx_verifier T root_store) (\<lambda>_.
     and_then (tx_identity T certs key) (\<lambda>_.
       Ok \<lparr>tl_peer = ChainTo root_store, tl_identity = Some (certs, key)\<rparr>))))))"

definition create_connector :: "tls_ext \<Rightarrow> MtlsConfig \<Rightarrow> (tls_config, string) result" where
  "create_connector T config =
     and_then (load_certs T (ms_cert_path config)) (\<lambda>certs.
     and_then (load_key T (ms_key_path config)) (\<lambda>key.
     and_then (load_certs T (ms_ca_path config)) (\<lambda>ca_certs.
     and_then (add_roots T [] ca_certs) (\<lambda>root_store.
     and_then (tx_identity T certs key) (\<lambda>_.
       Ok \<lparr>tl_peer = ChainTo root_store, tl_identity = Some (certs, key)\<rparr>)))))"

text \<open>A handshake, for a check \<open>verify\<close> of a chain against roots: each side accepts the other.\<close>

definition accepts_peer :: "(bytes list \<Rightarrow> bytes list \<Rightarrow> bool) \<Rightarrow> tls_config \<Rightarrow> tls_config \<Rightarrow> bool" where
  "accepts_peer verify me peer =
     (case tl_peer me of
        NoPeerCheck \<Rightarrow> True
      | AnyCertificate \<Rightarrow> tl_identity peer \<noteq> None
      | ChainTo roots \<Rightarrow> (case tl_identity peer of None \<Rightarrow> False | Some (certs, _) \<Rightarrow> verify roots certs))"

definition tls_handshake :: "(bytes list \<Rightarrow> bytes list \<Rightarrow> bool) \<Rightarrow> tls_config \<Rightarrow> tls_config \<Rightarrow> bool" where
  "tls_handshake verify client server \<longleftrightarrow> accepts_peer verify client server \<and> accepts_peer verify server client"

section \<open>QUIC\<close>

record QuicConfig =
  qc_cert_der :: bytes
  qc_key_der :: bytes
  qc_skip_verify :: bool

text \<open>\<^verbatim>\<open>SkipServerVerification\<close> accepts every certificate; otherwise the store of roots is empty.\<close>

definition quic_client_crypto :: "QuicConfig \<Rightarrow> tls_config" where
  "quic_client_crypto config =
     (if qc_skip_verify config then \<lparr>tl_peer = AnyCertificate, tl_identity = None\<rparr>
      else \<lparr>tl_peer = ChainTo [], tl_identity = None\<rparr>)"

definition quic_client_new ::
  "(tls_config \<Rightarrow> (unit, string) result) \<Rightarrow> (unit, string) result \<Rightarrow> QuicConfig \<Rightarrow> (tls_config, string) result" where
  "quic_client_new quic_config bound config =
     (let client_crypto = quic_client_crypto config in
      and_then (quic_config client_crypto) (\<lambda>_. and_then bound (\<lambda>_. Ok client_crypto)))"

definition quic_server_new ::
  "tls_ext \<Rightarrow> (tls_config \<Rightarrow> (unit, string) result) \<Rightarrow> (unit, string) result \<Rightarrow> QuicConfig \<Rightarrow> (tls_config, string) result" where
  "quic_server_new T quic_config bound config =
     (let cert = qc_cert_der config; key = Pkcs8 (qc_key_der config) in
      and_then (tx_identity T [cert] key) (\<lambda>_.
        let server_crypto = \<lparr>tl_peer = NoPeerCheck, tl_identity = Some ([cert], key)\<rparr> in
        and_then (quic_config server_crypto) (\<lambda>_. and_then bound (\<lambda>_. Ok server_crypto))))"

text \<open>Dialling, for what the endpoint answers at an address: the handshake with the peer's configuration.\<close>

definition quic_connect ::
  "(bytes list \<Rightarrow> bytes list \<Rightarrow> bool) \<Rightarrow> (string \<Rightarrow> tls_config option) \<Rightarrow> tls_config \<Rightarrow> string \<Rightarrow> (tls_config, string) result" where
  "quic_connect verify at client addr =
     (case at addr of
        None \<Rightarrow> Err ''timed out''
      | Some server \<Rightarrow> if tls_handshake verify client server then Ok server else Err ''handshake failed'')"

text \<open>The checks of \<^verbatim>\<open>SkipServerVerification\<close>, which \<open>AnyCertificate\<close> stands for.\<close>

definition verify_server_cert :: "bytes \<Rightarrow> bytes list \<Rightarrow> (unit, string) result" where
  "verify_server_cert end_entity intermediates = Ok ()"

definition verify_tls12_signature :: "bytes \<Rightarrow> bytes \<Rightarrow> (unit, string) result" where
  "verify_tls12_signature message cert = Ok ()"

definition verify_tls13_signature :: "bytes \<Rightarrow> bytes \<Rightarrow> (unit, string) result" where
  "verify_tls13_signature message cert = Ok ()"

datatype SignatureScheme = ECDSA_NISTP256_SHA256 | ECDSA_NISTP384_SHA384 | RSA_PSS_SHA256 | RSA_PSS_SHA384 | RSA_PSS_SHA512

definition supported_verify_schemes :: "SignatureScheme list" where
  "supported_verify_schemes =
     [ECDSA_NISTP256_SHA256, ECDSA_NISTP384_SHA384, RSA_PSS_SHA256, RSA_PSS_SHA384, RSA_PSS_SHA512]"

lemma skip_verification_accepts:
  assumes "tl_identity server = Some (cert # chain, key)" "qc_skip_verify config"
  shows "accepts_peer verify (quic_client_crypto config) server \<longleftrightarrow> is_ok (verify_server_cert cert chain)"
  using assms by (simp add: accepts_peer_def quic_client_crypto_def verify_server_cert_def)

text \<open>Streams of a connection, by number.\<close>

record 'c quic_ext =
  qx_open_uni :: "'c \<Rightarrow> (nat \<times> 'c, string) result"
  qx_write_all :: "nat \<Rightarrow> bytes \<Rightarrow> 'c \<Rightarrow> ('c, string) result"
  qx_finish :: "nat \<Rightarrow> 'c \<Rightarrow> ('c, string) result"
  qx_accept_uni :: "'c \<Rightarrow> (nat \<times> 'c, string) result"
  qx_read_to_end :: "nat \<Rightarrow> nat \<Rightarrow> 'c \<Rightarrow> (bytes \<times> 'c, string) result"

definition quic_send :: "'c quic_ext \<Rightarrow> bytes \<Rightarrow> 'c \<Rightarrow> ('c, string) result" where
  "quic_send Q data c =
     and_then (qx_open_uni Q c) (\<lambda>(stream, c). and_then (qx_write_all Q stream data c) (\<lambda>c. qx_finish Q stream c))"

definition quic_recv :: "'c quic_ext \<Rightarrow> 'c \<Rightarrow> (bytes \<times> 'c, string) result" where
  "quic_recv Q c = and_then (qx_accept_uni Q c) (\<lambda>(stream, c). qx_read_to_end Q stream (1024 * 1024) c)"

text \<open>\<^verbatim>\<open>incoming\<close> is the outcome of the endpoint: no more connections, or a connection attempt.\<close>

definition quic_accept :: "('c, string) result option \<Rightarrow> 'c option" where
  "quic_accept incoming =
     (case incoming of
        Some connecting \<Rightarrow> (case connecting of Ok connection \<Rightarrow> Some connection | Err e \<Rightarrow> None)
      | None \<Rightarrow> None)"

text \<open>What \<^verbatim>\<open>quinn\<close> documents, for the contents \<open>arrived c\<close> of the finished streams that were not accepted yet: a
  stream that is opened, written and finished is the last of them; accepting and reading takes the
  first, unless it is longer than the limit.\<close>

definition quic_ext_ok :: "'c quic_ext \<Rightarrow> ('c \<Rightarrow> bytes list) \<Rightarrow> bool" where
  "quic_ext_ok Q arrived \<longleftrightarrow>
     (\<forall>c s c1 c2 c3 d. qx_open_uni Q c = Ok (s, c1) \<longrightarrow> qx_write_all Q s d c1 = Ok c2 \<longrightarrow> qx_finish Q s c2 = Ok c3 \<longrightarrow>
        arrived c3 = arrived c @ [d]) \<and>
     (\<forall>c d ds. arrived c = d # ds \<longrightarrow> (\<exists>s c1. qx_accept_uni Q c = Ok (s, c1) \<and>
        (\<forall>limit. if length d \<le> limit then \<exists>c2. qx_read_to_end Q s limit c1 = Ok (d, c2) \<and> arrived c2 = ds
                 else \<exists>e. qx_read_to_end Q s limit c1 = Err e)))"

fun quic_sends :: "'c quic_ext \<Rightarrow> bytes list \<Rightarrow> 'c \<Rightarrow> ('c, string) result" where
  "quic_sends Q [] c = Ok c"
| "quic_sends Q (d # ds) c = and_then (quic_send Q d c) (quic_sends Q ds)"

fun quic_recvs :: "'c quic_ext \<Rightarrow> nat \<Rightarrow> 'c \<Rightarrow> (bytes list, string) result" where
  "quic_recvs Q 0 c = Ok []"
| "quic_recvs Q (Suc n) c = and_then (quic_recv Q c) (\<lambda>(d, c). and_then (quic_recvs Q n c) (\<lambda>ds. Ok (d # ds)))"

section \<open>SSH\<close>

datatype ssh_auth = Accept | Reject

text \<open>The callbacks of the client and of the server.\<close>

definition check_server_key :: "bytes \<Rightarrow> (bool, string) result" where
  "check_server_key server_public_key = Ok True"

definition auth_publickey :: "string \<Rightarrow> bytes \<Rightarrow> (ssh_auth, string) result" where
  "auth_publickey user public_key = Ok Accept"

record 'h ssh_ext =
  sh_connect :: "nat \<Rightarrow> (bytes \<Rightarrow> (bool, string) result) \<Rightarrow> string \<Rightarrow> ('h, string) result"
  sh_authenticate :: "string \<Rightarrow> bytes \<Rightarrow> 'h \<Rightarrow> (bool \<times> 'h, string) result"
  sh_channel_open :: "'h \<Rightarrow> (nat \<times> 'h, string) result"

definition ssh_connect :: "'h ssh_ext \<Rightarrow> string \<Rightarrow> string \<Rightarrow> bytes \<Rightarrow> ('h, string) result" where
  "ssh_connect S addr user key =
     and_then (sh_connect S 30 check_server_key addr) (\<lambda>session.
     and_then (sh_authenticate S user key session) (\<lambda>(auth_res, session).
       if \<not> auth_res then Err ''SSH authentication failed'' else Ok session))"

definition open_tunnel :: "'h ssh_ext \<Rightarrow> 'h \<Rightarrow> (nat \<times> 'h, string) result" where
  "open_tunnel S session = sh_channel_open S session"

record SshServer =
  sv_inactivity_timeout :: nat
  sv_auth_rejection_time :: nat
  sv_keys :: "bytes list"

definition ssh_server_new :: "(unit, string) result \<Rightarrow> bytes \<Rightarrow> (SshServer, string) result" where
  "ssh_server_new bound key =
     and_then bound (\<lambda>_. Ok \<lparr>sv_inactivity_timeout = 30, sv_auth_rejection_time = 1, sv_keys = [key]\<rparr>)"

text \<open>The documented use of the client's callback: a connection to a server with key \<open>server_key addr\<close> stands
  if the callback accepts the key.\<close>

definition ssh_ext_ok :: "'h ssh_ext \<Rightarrow> (string \<Rightarrow> bytes) \<Rightarrow> (string \<Rightarrow> 'h) \<Rightarrow> bool" where
  "ssh_ext_ok S server_key reached \<longleftrightarrow>
     (\<forall>t check addr. sh_connect S t check addr =
        (case check (server_key addr) of Ok True \<Rightarrow> Ok (reached addr) | Ok False \<Rightarrow> Err ''Unknown server key'' | Err e \<Rightarrow> Err e))"

section \<open>The WebSocket server\<close>

datatype WssServerError = BindFailed string | AcceptFailed string | UpgradeFailed string

record WssServerConfig =
  wv_bind :: string
  wv_max_connections :: nat
  wv_timeout_secs :: u64

definition wss_server_config_default :: WssServerConfig where
  "wss_server_config_default = \<lparr>wv_bind = ''0.0.0.0:25347'', wv_max_connections = 10000, wv_timeout_secs = 300\<rparr>"

definition wss_server_bind ::
  "(string \<Rightarrow> ('l, string) result) \<Rightarrow> WssServerConfig \<Rightarrow> ('l \<times> WssServerConfig, WssServerError) result" where
  "wss_server_bind tcp_bind config =
     (case tcp_bind (wv_bind config) of Err e \<Rightarrow> Err (BindFailed e) | Ok listener \<Rightarrow> Ok (listener, config))"

definition wss_server_accept ::
  "('l \<Rightarrow> ('s \<times> string, string) result) \<Rightarrow> 'l \<times> WssServerConfig \<Rightarrow> ('s \<times> string, WssServerError) result" where
  "wss_server_accept tcp_accept server =
     (case tcp_accept (fst server) of Err e \<Rightarrow> Err (AcceptFailed e) | Ok conn \<Rightarrow> Ok conn)"

section \<open>Lemmas\<close>

lemma load_key_prefers_pkcs8:
  assumes "tx_open T path = Ok file" "tx_pkcs8 T file = map Ok ks" "tx_rsa T file = map Ok rs"
  shows "load_key T path =
    (case ks @ rs of [] \<Rightarrow> Err ''No private key found'' | k # _ \<Rightarrow> Ok (if ks = [] then Pkcs1 k else Pkcs8 k))"
proof -
  have "collect_results (tx_pkcs8 T file) = Ok ks" "collect_results (tx_rsa T file) = Ok rs"
    using assms(2,3) by (simp_all only: collect_results_Ok)
  with assms(1) show ?thesis by (cases ks; cases rs) (simp_all add: load_key_def)
qed

lemma add_roots_all: "add_roots T store certs = Ok roots \<Longrightarrow> roots = store @ certs \<and> (\<forall>c\<in>set certs. tx_root T c = Ok ())"
  by (induction certs arbitrary: store) (fastforce simp: and_then_Ok)+

lemma acceptor_parts:
  assumes "create_acceptor T config = Ok tls"
  obtains ca certs key where "load_certs T (ms_ca_path config) = Ok ca" "load_certs T (ms_cert_path config) = Ok certs"
    "load_key T (ms_key_path config) = Ok key" "tls = \<lparr>tl_peer = ChainTo ca, tl_identity = Some (certs, key)\<rparr>"
  using assms by (auto simp: create_acceptor_def and_then_Ok dest!: add_roots_all)

lemma connector_parts:
  assumes "create_connector T config = Ok tls"
  obtains ca certs key where "load_certs T (ms_ca_path config) = Ok ca" "load_certs T (ms_cert_path config) = Ok certs"
    "load_key T (ms_key_path config) = Ok key" "tls = \<lparr>tl_peer = ChainTo ca, tl_identity = Some (certs, key)\<rparr>"
  using assms by (auto simp: create_connector_def and_then_Ok dest!: add_roots_all)

text \<open>Mutual TLS: two nodes whose configurations name the same authority shake hands exactly if both
  certificates, as found in their files, chain to it.\<close>

lemma mtls_mutual:
  assumes "create_acceptor Ts sc = Ok server" "create_connector Tc cc = Ok client"
    "load_certs Ts (ms_ca_path sc) = load_certs Tc (ms_ca_path cc)"
  shows "\<exists>ca cs cc'. load_certs Ts (ms_ca_path sc) = Ok ca \<and> load_certs Ts (ms_cert_path sc) = Ok cs \<and>
    load_certs Tc (ms_cert_path cc) = Ok cc' \<and> (tls_handshake verify client server \<longleftrightarrow> verify ca cs \<and> verify ca cc')"
proof (rule acceptor_parts [OF assms(1)], rule connector_parts [OF assms(2)])
  fix ca certs key ca' certs' key'
  assume "load_certs Ts (ms_ca_path sc) = Ok ca" "load_certs Ts (ms_cert_path sc) = Ok certs"
    "server = \<lparr>tl_peer = ChainTo ca, tl_identity = Some (certs, key)\<rparr>"
    "load_certs Tc (ms_ca_path cc) = Ok ca'" "load_certs Tc (ms_cert_path cc) = Ok certs'"
    "client = \<lparr>tl_peer = ChainTo ca', tl_identity = Some (certs', key')\<rparr>"
  with assms(3) show ?thesis by (simp add: tls_handshake_def accepts_peer_def)
qed

text \<open>QUIC: a client takes every server or, since nothing chains to no root, none; the server asks for nothing.\<close>

lemma quic_trusts_all_or_none:
  assumes "quic_client_new f b cc = Ok client" "quic_server_new T g b' sc = Ok server" "\<And>certs. \<not> verify [] certs"
  shows "tls_handshake verify client server \<longleftrightarrow> qc_skip_verify cc"
  using assms by (auto simp: quic_client_new_def quic_server_new_def quic_client_crypto_def Let_def and_then_Ok
      tls_handshake_def accepts_peer_def split: if_splits)

lemma quic_send_arrives:
  "quic_ext_ok Q arrived \<Longrightarrow> quic_send Q d c = Ok c' \<Longrightarrow> arrived c' = arrived c @ [d]"
  by (auto simp: quic_send_def and_then_Ok quic_ext_ok_def)

lemma quic_sends_arrive:
  "quic_ext_ok Q arrived \<Longrightarrow> quic_sends Q ds c = Ok c' \<Longrightarrow> arrived c' = arrived c @ ds"
  by (induction ds arbitrary: c) (auto simp: and_then_Ok quic_send_arrives)

lemma quic_recv_first:
  assumes "quic_ext_ok Q arrived" "arrived c = d # ds"
  shows "if length d \<le> 1024 * 1024 then \<exists>c2. quic_recv Q c = Ok (d, c2) \<and> arrived c2 = ds else \<exists>e. quic_recv Q c = Err e"
proof -
  obtain s c1 where a: "qx_accept_uni Q c = Ok (s, c1)"
    and r: "\<forall>limit. if length d \<le> limit then \<exists>c2. qx_read_to_end Q s limit c1 = Ok (d, c2) \<and> arrived c2 = ds
                 else \<exists>e. qx_read_to_end Q s limit c1 = Err e"
    using assms unfolding quic_ext_ok_def by blast
  show ?thesis using spec [OF r, of "1024 * 1024"] a by (simp add: quic_recv_def split: if_splits)
qed

text \<open>Messages up to 1 MiB arrive complete and in order.\<close>

lemma quic_roundtrip:
  assumes "quic_ext_ok Q arrived" "arrived c = []" "quic_sends Q ds c = Ok c'" "\<forall>d\<in>set ds. length d \<le> 1024 * 1024"
  shows "quic_recvs Q (length ds) c' = Ok ds"
proof -
  have all: "arrived c' = ds \<Longrightarrow> \<forall>d\<in>set ds. length d \<le> 1024 * 1024 \<Longrightarrow> quic_recvs Q (length ds) c' = Ok ds" for ds c'
  proof (induction ds arbitrary: c')
    case (Cons d ds)
    then obtain c2 where "quic_recv Q c' = Ok (d, c2)" "arrived c2 = ds"
      using quic_recv_first [OF assms(1) Cons.prems(1)] by (auto split: if_splits)
    with Cons show ?case by simp
  qed simp
  have "arrived c' = ds" using assms(2) quic_sends_arrive [OF assms(1,3)] by simp
  with assms(4) show ?thesis by (intro all)
qed

text \<open>SSH: whatever key the server shows, the client goes on to authenticate with it.\<close>

lemma ssh_any_server:
  "ssh_ext_ok S server_key reached \<Longrightarrow>
     ssh_connect S addr user key = and_then (sh_authenticate S user key (reached addr)) (\<lambda>(ok, session).
       if \<not> ok then Err ''SSH authentication failed'' else Ok session)"
  by (simp add: ssh_connect_def ssh_ext_ok_def check_server_key_def)

section \<open>Instances of the parameters\<close>

definition demo_quic :: "(bytes list \<times> bytes) quic_ext" where
  "demo_quic =
     \<lparr>qx_open_uni = \<lambda>(arrived, _). Ok (0, arrived, []),
      qx_write_all = \<lambda>s d (arrived, written). Ok (arrived, written @ d),
      qx_finish = \<lambda>s (arrived, written). Ok (arrived @ [written], []),
      qx_accept_uni = \<lambda>(arrived, written). if arrived = [] then Err ''closed'' else Ok (0, arrived, written),
      qx_read_to_end = \<lambda>s limit (arrived, written).
        if length (hd arrived) \<le> limit then Ok (hd arrived, tl arrived, written) else Err ''too long''\<rparr>"

lemma demo_quic_ok: "quic_ext_ok demo_quic fst"
  by (auto simp: quic_ext_ok_def demo_quic_def)

definition demo_ssh :: "string ssh_ext" where
  "demo_ssh =
     \<lparr>sh_connect = \<lambda>t check addr.
        (case check (map of_char addr) of Ok True \<Rightarrow> Ok addr | Ok False \<Rightarrow> Err ''Unknown server key'' | Err e \<Rightarrow> Err e),
      sh_authenticate = \<lambda>user key h. Ok (user = ''root'', h), sh_channel_open = \<lambda>h. Ok (0, h)\<rparr>"

lemma demo_ssh_ok: "ssh_ext_ok demo_ssh (map of_char) (\<lambda>addr. addr)"
  by (simp add: ssh_ext_ok_def demo_ssh_def)

end
