(* ===== verification/Traffic_Shaping.thy ===== *)
theory Traffic_Shaping
  imports Handler
begin

text \<open>
  Timing and decoy traffic: \<^verbatim>\<open>crates/obfuscation/src/timing.rs\<close> and \<^verbatim>\<open>decoy.rs\<close>, and the noise generators of
  \<^verbatim>\<open>crates/transport/src/noise.rs\<close> and \<^verbatim>\<open>daemon/src/noise.rs\<close>. The random generator is the parameter \<open>fast_ext\<close>,
  whose draws stay in the range asked for; an empty range panics (\<^verbatim>\<open>None\<close>). Durations are counted in
  microseconds. Floating-point arithmetic is the parameter \<open>float_ops\<close>.
\<close>

section \<open>Random numbers and floats\<close>

record fast_ext =
  fr_u64 :: "u64 \<Rightarrow> u64 \<Rightarrow> u64"
  fr_usize :: "nat \<Rightarrow> nat \<Rightarrow> nat"
  fr_bool :: bool

definition fast_ok :: "fast_ext \<Rightarrow> bool" where
  "fast_ok G \<longleftrightarrow> (\<forall>lo hi. lo \<le> hi \<longrightarrow> lo \<le> fr_u64 G lo hi \<and> fr_u64 G lo hi \<le> hi) \<and>
     (\<forall>lo hi. lo \<le> hi \<longrightarrow> lo \<le> fr_usize G lo hi \<and> fr_usize G lo hi \<le> hi)"

definition u64_incl :: "fast_ext \<Rightarrow> u64 \<times> u64 \<Rightarrow> u64 option" where
  "u64_incl G r = (if fst r \<le> snd r then Some (fr_u64 G (fst r) (snd r)) else None)"

definition usize_incl :: "fast_ext \<Rightarrow> nat \<times> nat \<Rightarrow> nat option" where
  "usize_incl G r = (if fst r \<le> snd r then Some (fr_usize G (fst r) (snd r)) else None)"

record 'f float_ops =
  fl_rand1 :: 'f
  fl_rand2 :: 'f
  fl_add :: "'f \<Rightarrow> 'f \<Rightarrow> 'f"
  fl_mul :: "'f \<Rightarrow> 'f \<Rightarrow> 'f"
  fl_div :: "'f \<Rightarrow> 'f \<Rightarrow> 'f"
  fl_neg :: "'f \<Rightarrow> 'f"
  fl_max :: "'f \<Rightarrow> 'f \<Rightarrow> 'f"
  fl_ln :: "'f \<Rightarrow> 'f"
  fl_sqrt :: "'f \<Rightarrow> 'f"
  fl_cos :: "'f \<Rightarrow> 'f"
  fl_pi :: 'f
  fl_nat :: "nat \<Rightarrow> 'f"
  fl_to_u64 :: "'f \<Rightarrow> u64"
  fl_less :: "'f \<Rightarrow> 'f \<Rightarrow> bool"

section \<open>Timing\<close>

type_synonym micros = nat

definition from_millis :: "u64 \<Rightarrow> micros" where "from_millis n = unat n * 1000"
definition from_micros :: "u64 \<Rightarrow> micros" where "from_micros n = unat n"
definition dur_secs :: "u64 \<Rightarrow> micros" where "dur_secs n = unat n * 1000000"

datatype 'f JitterStrategy = Fixed u64 | Normal 'f 'f | Exponential 'f | Adaptive u64 'f

record 'f TimingConfig =
  ti_jitter_strategy :: "'f JitterStrategy"
  ti_inter_frame_delay :: "u64 \<times> u64"
  ti_reconnect_interval :: "u64 \<times> u64"
  ti_noise_interval :: "u64 \<times> u64"

definition timing_config_default :: "'f TimingConfig" where
  "timing_config_default = \<lparr>ti_jitter_strategy = Fixed 50, ti_inter_frame_delay = (100, 5000),
     ti_reconnect_interval = (60, 180), ti_noise_interval = (10, 30)\<rparr>"

definition random_jitter :: "fast_ext \<Rightarrow> 'f float_ops \<Rightarrow> 'f TimingConfig \<Rightarrow> micros option" where
  "random_jitter G F config =
     map_option from_millis
       (case ti_jitter_strategy config of
          Fixed max_ms \<Rightarrow> u64_incl G (0, max_ms)
        | Normal mean_ms std_dev_ms \<Rightarrow>
            let z = fl_mul F (fl_sqrt F (fl_mul F (fl_neg F (fl_nat F 2)) (fl_ln F (fl_rand1 F))))
                      (fl_cos F (fl_mul F (fl_mul F (fl_nat F 2) (fl_pi F)) (fl_rand2 F)));
                jitter = fl_add F mean_ms (fl_mul F z std_dev_ms) in
            Some (fl_to_u64 F (fl_max F jitter (fl_nat F 0)))
        | Exponential lam \<Rightarrow>
            let jitter = fl_mul F (fl_neg F (fl_div F (fl_nat F 1) lam)) (fl_ln F (fl_rand1 F)) in
            Some (fl_to_u64 F (fl_max F (fl_mul F jitter (fl_nat F 1000)) (fl_nat F 0)))
        | Adaptive base_ms factor \<Rightarrow>
            u64_incl G (0, fl_to_u64 F (fl_mul F (fl_nat F (unat base_ms)) factor)))"

definition random_inter_frame_delay :: "fast_ext \<Rightarrow> 'f TimingConfig \<Rightarrow> micros option" where
  "random_inter_frame_delay G config = map_option from_micros (u64_incl G (ti_inter_frame_delay config))"

definition random_reconnect_interval :: "fast_ext \<Rightarrow> 'f TimingConfig \<Rightarrow> micros option" where
  "random_reconnect_interval G config = map_option dur_secs (u64_incl G (ti_reconnect_interval config))"

definition random_noise_interval :: "fast_ext \<Rightarrow> 'f TimingConfig \<Rightarrow> micros option" where
  "random_noise_interval G config = map_option dur_secs (u64_incl G (ti_noise_interval config))"

definition sleep_with_jitter :: "fast_ext \<Rightarrow> micros \<Rightarrow> u64 \<Rightarrow> micros option" where
  "sleep_with_jitter G base max_jitter_ms = map_option (\<lambda>j. base + from_millis j) (u64_incl G (0, max_jitter_ms))"

definition expected_interval_ms :: "u64 \<Rightarrow> u64" where
  "expected_interval_ms target_rate_bps = 1000 div (max (target_rate_bps div 8 div 1500) 1)"

text \<open>The draw of \<^verbatim>\<open>0..10\<close> is an argument.\<close>

definition calculate_adaptive_delay :: "u64 \<Rightarrow> u64 \<Rightarrow> u64 \<Rightarrow> u64 \<Rightarrow> micros" where
  "calculate_adaptive_delay last_packet_time_ms current_time_ms target_rate_bps r =
     (let expected = expected_interval_ms target_rate_bps;
          elapsed = saturating_sub current_time_ms last_packet_time_ms in
      if expected \<le> elapsed then from_millis r
      else let delay = expected - elapsed in from_millis (delay + r))"

section \<open>Decoys\<close>

datatype ResourceType = Html | Css | JavaScript | Image | Font | Json | Xml

fun extension :: "ResourceType \<Rightarrow> string" where
  "extension Html = ''html''"
| "extension Css = ''css''"
| "extension JavaScript = ''js''"
| "extension Image = ''png''"
| "extension Font = ''woff2''"
| "extension Json = ''json''"
| "extension Xml = ''xml''"

fun content_type :: "ResourceType \<Rightarrow> string" where
  "content_type Html = ''text/html''"
| "content_type Css = ''text/css''"
| "content_type JavaScript = ''application/javascript''"
| "content_type Image = ''image/png''"
| "content_type Font = ''font/woff2''"
| "content_type Json = ''application/json''"
| "content_type Xml = ''application/xml''"

fun resource_size_range :: "ResourceType \<Rightarrow> nat \<times> nat" where
  "resource_size_range Html = (1024, 51200)"
| "resource_size_range Css = (512, 102400)"
| "resource_size_range JavaScript = (1024, 512000)"
| "resource_size_range Image = (2048, 1048576)"
| "resource_size_range Font = (10240, 204800)"
| "resource_size_range Json = (128, 10240)"
| "resource_size_range Xml = (256, 20480)"

record DecoyConfig =
  de_enabled :: bool
  de_endpoints :: "string list"
  de_interval :: "u64 \<times> u64"
  de_size_range :: "nat \<times> nat"
  de_resource_types :: "ResourceType list"

definition decoy_config_default :: DecoyConfig where
  "decoy_config_default =
     \<lparr>de_enabled = False, de_endpoints = [''/static/main.css'', ''/static/app.js'', ''/api/status'', ''/favicon.ico''],
      de_interval = (30, 120), de_size_range = (512, 10240), de_resource_types = [Css, JavaScript, Json, Image]\<rparr>"

definition decoy_random_interval :: "fast_ext \<Rightarrow> DecoyConfig \<Rightarrow> micros option" where
  "decoy_random_interval G config = map_option dur_secs (u64_incl G (de_interval config))"

definition random_size :: "fast_ext \<Rightarrow> DecoyConfig \<Rightarrow> nat option" where
  "random_size G config = usize_incl G (de_size_range config)"

definition random_endpoint :: "fast_ext \<Rightarrow> DecoyConfig \<Rightarrow> string option" where
  "random_endpoint G config =
     (if de_endpoints config = [] then None
      else Some (de_endpoints config ! fr_usize G 0 (length (de_endpoints config) - 1)))"

definition random_resource_type :: "fast_ext \<Rightarrow> DecoyConfig \<Rightarrow> ResourceType option" where
  "random_resource_type G config =
     (if de_resource_types config = [] then None
      else Some (de_resource_types config ! fr_usize G 0 (length (de_resource_types config) - 1)))"

definition generate_decoy_path :: "fast_ext \<Rightarrow> DecoyConfig \<Rightarrow> u64 \<Rightarrow> u32 \<Rightarrow> string" where
  "generate_decoy_path G config now r =
     (case random_endpoint G config of
        Some endpoint \<Rightarrow> if fr_bool G then endpoint @ ''?_='' @ dec_str (unat now) else endpoint
      | None \<Rightarrow>
          let resource_type = (case random_resource_type G config of None \<Rightarrow> Json | Some t \<Rightarrow> t) in
          ''/static/resource_'' @ dec_str (unat r) @ ''.'' @ extension resource_type)"

section \<open>Noise\<close>

text \<open>\<^verbatim>\<open>str::replace\<close>: every occurrence from the left, not overlapping.\<close>

function replace_str :: "string \<Rightarrow> string \<Rightarrow> string \<Rightarrow> string" where
  "replace_str pat new s =
     (if s = [] \<or> pat = [] then s
      else if take (length pat) s = pat then new @ replace_str pat new (drop (length pat) s)
      else hd s # replace_str pat new (tl s))"
  by pat_completeness auto
termination
  by (relation "measure (\<lambda>(pat, new, s). length s)") (auto simp: neq_Nil_conv)

declare replace_str.simps [simp del]

definition newline :: string where
  "newline = [CHR 10]"

record NoiseConfig =
  no_sse_enabled :: bool
  no_sse_interval :: "u64 \<times> u64"
  no_fake_json_enabled :: bool
  no_fake_json_interval :: "u64 \<times> u64"
  no_noise_ratio :: f32

definition noise_config_default :: NoiseConfig where
  "noise_config_default = \<lparr>no_sse_enabled = True, no_sse_interval = (10, 30), no_fake_json_enabled = True,
     no_fake_json_interval = (30, 120), no_noise_ratio = 0x3E19999A\<rparr>"

definition generate_sse_keepalive :: "nat \<Rightarrow> string" where
  "generate_sse_keepalive timestamp =
     ''data: {\"type\":\"ping\",\"timestamp\":'' @ dec_str timestamp @ ''}'' @ newline @ newline"

definition random_sse_interval :: "fast_ext \<Rightarrow> NoiseConfig \<Rightarrow> micros option" where
  "random_sse_interval G config = map_option dur_secs (u64_incl G (no_sse_interval config))"

definition random_fake_json_interval :: "fast_ext \<Rightarrow> NoiseConfig \<Rightarrow> micros option" where
  "random_fake_json_interval G config = map_option dur_secs (u64_incl G (no_fake_json_interval config))"

text \<open>Comparison of floats and the number drawn are arguments.\<close>

definition should_send_noise :: "(f32 \<Rightarrow> f32 \<Rightarrow> bool) \<Rightarrow> f32 \<Rightarrow> NoiseConfig \<Rightarrow> bool" where
  "should_send_noise lt r config = lt r (no_noise_ratio config)"

text \<open>The value that \<^verbatim>\<open>json!\<close> makes; its text is what the parameter \<open>to_string\<close> makes of it.\<close>

datatype json = JNull | JNum nat | JStr string | JArr "json list" | JObj "(string \<times> json) list"

definition generate_fake_chat_response :: "(json \<Rightarrow> string) \<Rightarrow> string \<Rightarrow> nat \<Rightarrow> string" where
  "generate_fake_chat_response to_string uuid now_secs = to_string (JObj
     [(''id'', JStr uuid), (''object'', JStr ''chat.completion.chunk''), (''created'', JNum now_secs),
      (''model'', JStr ''gpt-4''),
      (''choices'', JArr [JObj [(''index'', JNum 0), (''delta'', JObj []), (''finish_reason'', JNull)]])])"

text \<open>The bytes drawn are a function of their position.\<close>

definition generate_binary_noise :: "(nat \<Rightarrow> u8) \<Rightarrow> nat \<Rightarrow> bytes" where
  "generate_binary_noise draws n = map draws [0..<n]"

datatype NoiseMessage = NoiseText string | NoiseBinary bytes

definition next_noise ::
  "(f32 \<Rightarrow> f32 \<Rightarrow> bool) \<Rightarrow> (json \<Rightarrow> string) \<Rightarrow> fast_ext \<Rightarrow> (nat \<Rightarrow> u8) \<Rightarrow> NoiseConfig \<Rightarrow> f32 \<Rightarrow> u8 \<Rightarrow> nat \<Rightarrow> string \<Rightarrow> NoiseMessage option" where
  "next_noise lt to_string G draws config r noise_type now_ms uuid =
     (if \<not> should_send_noise lt r config then None
      else if noise_type = 0 \<and> no_sse_enabled config then Some (NoiseText (generate_sse_keepalive now_ms))
      else if noise_type = 1 \<and> no_fake_json_enabled config
        then Some (NoiseText (generate_fake_chat_response to_string uuid (now_ms div 1000)))
      else Some (NoiseBinary (generate_binary_noise draws (fr_usize G 100 499))))"

definition json_templates :: "string list" where
  "json_templates =
     [''{\"status\":\"ok\",\"timestamp\":%TS%,\"data\":{\"items\":[]}}'',
      ''{\"success\":true,\"message\":\"Operation completed\",\"id\":\"%UUID%\"}'',
      ''{\"results\":[],\"page\":1,\"total\":0,\"cached\":true}'',
      ''{\"health\":\"healthy\",\"uptime\":%TS%,\"version\":\"1.0.0\"}'',
      ''{\"ack\":true,\"seq\":%SEQ%,\"received\":true}'',
      ''{\"type\":\"ping\",\"ts\":%TS%}'',
      ''{\"notifications\":[],\"unread\":0}'']"

definition generate_fake_json :: "nat \<Rightarrow> nat \<Rightarrow> string \<Rightarrow> u32 \<Rightarrow> string" where
  "generate_fake_json i now uuid seq =
     replace_str ''%SEQ%'' (dec_str (unat seq)) (replace_str ''%UUID%'' uuid
       (replace_str ''%TS%'' (dec_str now) (json_templates ! i)))"

definition sse_events :: "string list" where
  "sse_events =
     [''event: heartbeat'' @ newline @ ''data: {\"ts\":%TS%}'' @ newline @ newline,
      '': keepalive'' @ newline @ newline,
      ''event: ping'' @ newline @ ''data: ok'' @ newline @ newline,
      ''event: status'' @ newline @ ''data: {\"connected\":true}'' @ newline @ newline]"

definition generate_sse_event :: "nat \<Rightarrow> nat \<Rightarrow> string" where
  "generate_sse_event i now = replace_str ''%TS%'' (dec_str now) (sse_events ! i)"

record 'f NoiseGenConfig =
  ng_enabled :: bool
  ng_noise_ratio :: f32
  ng_timing :: "'f TimingConfig"
  ng_fake_json_enabled :: bool
  ng_sse_keepalive :: bool

definition noise_gen_config_default :: "'f NoiseGenConfig" where
  "noise_gen_config_default = \<lparr>ng_enabled = True, ng_noise_ratio = 0x3E19999A, ng_timing = timing_config_default,
     ng_fake_json_enabled = True, ng_sse_keepalive = True\<rparr>"

definition generate_random_data :: "fast_ext \<Rightarrow> (nat \<Rightarrow> u8) \<Rightarrow> bytes" where
  "generate_random_data G draws = map draws [0..<fr_usize G 64 511]"

text \<open>The generator and its flag, which the task that \<^verbatim>\<open>start\<close> spawns shares with it.\<close>

record 'f NoiseGenerator =
  nz_config :: "'f NoiseGenConfig"
  nz_running :: bool

definition nz_new :: "'f NoiseGenConfig \<Rightarrow> 'f NoiseGenerator" where
  "nz_new config = \<lparr>nz_config = config, nz_running = False\<rparr>"

definition nz_start :: "'f NoiseGenerator \<Rightarrow> 'f NoiseGenerator" where
  "nz_start n = n\<lparr>nz_running := True\<rparr>"

definition nz_stop :: "'f NoiseGenerator \<Rightarrow> 'f NoiseGenerator" where
  "nz_stop n = n\<lparr>nz_running := False\<rparr>"

text \<open>A turn of the generator: whether it is still running before and after the pause, whether the number
  drawn is below 0.7, the three kinds of noise it would make, and whether the channel is open.\<close>

record noise_turn =
  nt_running :: bool
  nt_running_after :: bool
  nt_json_draw :: bool
  nt_json :: string
  nt_sse :: string
  nt_random :: bytes
  nt_open :: bool

definition noise_of :: "'f NoiseGenConfig \<Rightarrow> noise_turn \<Rightarrow> bytes" where
  "noise_of config t =
     (if ng_fake_json_enabled config \<and> nt_json_draw t then ascii (nt_json t)
      else if ng_sse_keepalive config then ascii (nt_sse t) else nt_random t)"

fun noise_loop :: "'f NoiseGenConfig \<Rightarrow> noise_turn list \<Rightarrow> bytes list" where
  "noise_loop config [] = []"
| "noise_loop config (t # turns) =
     (if \<not> nt_running t then []
      else if \<not> nt_running_after t then []
      else if nt_open t then noise_of config t # noise_loop config turns else [])"

definition should_inject :: "(f32 \<Rightarrow> f32 \<Rightarrow> bool) \<Rightarrow> f32 \<Rightarrow> 'f NoiseGenConfig \<Rightarrow> bool" where
  "should_inject lt r config \<longleftrightarrow> ng_enabled config \<and> lt r (ng_noise_ratio config)"

section \<open>Lemmas\<close>

lemma noise_lengths:
  "fast_ok G \<Longrightarrow> 64 \<le> length (generate_random_data G draws) \<and> length (generate_random_data G draws) < 512"
  "fast_ok G \<Longrightarrow> next_noise lt to_string G draws config r ty now uuid = Some (NoiseBinary bs) \<Longrightarrow> 100 \<le> length bs \<and> length bs < 500"
proof -
  have draw: "fast_ok G \<Longrightarrow> lo \<le> hi \<Longrightarrow> lo \<le> fr_usize G lo hi \<and> fr_usize G lo hi \<le> hi" for lo hi
    by (simp add: fast_ok_def)
  show "fast_ok G \<Longrightarrow> 64 \<le> length (generate_random_data G draws) \<and> length (generate_random_data G draws) < 512"
    using draw [of 64 511] by (simp add: generate_random_data_def)
  show "fast_ok G \<Longrightarrow> next_noise lt to_string G draws config r ty now uuid = Some (NoiseBinary bs) \<Longrightarrow> 100 \<le> length bs \<and> length bs < 500"
    using draw [of 100 499] by (auto simp: next_noise_def generate_binary_noise_def split: if_splits)
qed

text \<open>Once \<^verbatim>\<open>stop\<close> is called, the task sends no more: it sends what it sends until the first turn that finds the
  flag cleared.\<close>

lemma noise_until_stop:
  "\<exists>t\<in>set turns. \<not> nt_running t \<or> \<not> nt_running_after t \<Longrightarrow>
     noise_loop config turns = noise_loop config (takeWhile (\<lambda>t. nt_running t \<and> nt_running_after t) turns)"
  by (induction turns) auto

lemma dec_str_plain: "c \<in> set (dec_str n) \<Longrightarrow> c \<noteq> CHR ''%'' \<and> c \<noteq> CHR ''?'' \<and> c \<noteq> CHR ''{''"
proof -
  assume "c \<in> set (dec_str n)"
  then obtain b where b: "b \<in> set (dec n)" "c = char_of (unat b)" by (auto simp: dec_str_def)
  then have "48 \<le> unat b" "unat b \<le> 57"
    using dec_digits [of n] by (auto simp: is_digit_def in_range_def word_le_nat_alt)
  moreover from this have "of_char c = unat b" using b(2) by simp
  ultimately show ?thesis by auto
qed

lemma replace_str_skip: "c \<noteq> p \<Longrightarrow> replace_str (p # pat) new (c # s) = c # replace_str (p # pat) new s"
  by (subst replace_str.simps) simp

lemma replace_str_plain:
  "CHR ''%'' \<notin> set xs \<Longrightarrow> replace_str (CHR ''%'' # pat) new (xs @ s) = xs @ replace_str (CHR ''%'' # pat) new s"
  by (induction xs) (auto simp: replace_str_skip)

lemma replace_str_Nil [simp]: "replace_str pat new [] = []"
  by (subst replace_str.simps) simp

lemma replace_str_Cons:
  "replace_str (p # pat) new (c # s) =
     (if take (length (p # pat)) (c # s) = p # pat then new @ replace_str (p # pat) new (drop (length pat) s)
      else c # replace_str (p # pat) new s)"
  by (subst replace_str.simps) simp

lemma percent_free: "CHR ''%'' \<notin> set (dec_str n)"
  using dec_str_plain by blast

text \<open>The texts sent as noise are filled in completely.\<close>

lemma fake_json_filled:
  assumes "i < 7" "CHR ''%'' \<notin> set uuid"
  shows "CHR ''%'' \<notin> set (generate_fake_json i now uuid seq) \<and> hd (generate_fake_json i now uuid seq) = CHR ''{''"
proof -
  have "i = 0 \<or> i = 1 \<or> i = 2 \<or> i = 3 \<or> i = 4 \<or> i = 5 \<or> i = 6" using assms(1) by linarith
  then show ?thesis
    by (elim disjE; simp add: generate_fake_json_def json_templates_def replace_str_Cons replace_str_plain percent_free assms(2))
qed

lemma saturating_sub_ge: "b \<le> (a :: u64) \<Longrightarrow> unat (saturating_sub a b) = unat a - unat b"
  by (auto simp: saturating_sub_def unat_sub)

lemma expected_interval_bound: "unat (expected_interval_ms rate) \<le> 1000"
proof -
  have "unat (expected_interval_ms rate) = 1000 div unat (max (rate div 8 div 1500) 1)"
    by (simp add: expected_interval_ms_def unat_div)
  then show ?thesis by simp
qed

lemma random_endpoint_member:
  assumes "fast_ok G" "random_endpoint G config = Some e"
  shows "e \<in> set (de_endpoints config)"
proof -
  have "de_endpoints config \<noteq> []" "e = de_endpoints config ! fr_usize G 0 (length (de_endpoints config) - 1)"
    using assms(2) by (auto simp: random_endpoint_def split: if_splits)
  moreover have "fr_usize G 0 (length (de_endpoints config) - 1) \<le> length (de_endpoints config) - 1"
    using assms(1) by (auto simp: fast_ok_def)
  ultimately have "fr_usize G 0 (length (de_endpoints config) - 1) < length (de_endpoints config)"
    by (cases "de_endpoints config") auto
  with \<open>e = _\<close> show ?thesis by simp
qed

definition served_routes :: "string list" where
  "served_routes = [''/retrieve-token'', ''/connect'', ''/exit-node/register'', ''/health'', ''/ready'']"

lemma unserved_route:
  "rq_path req \<notin> set served_routes \<Longrightarrow>
     handle_request X config req now inst nonce mt = (handle_decoy X (dc_security config) req, NoTask, mt)"
  by (auto simp: served_routes_def handle_request_def Let_def)

section \<open>Properties\<close>

text \<open>Pacing: with a clock that does not run backwards, the delay computed never lets a packet go before
  its interval is over, and exceeds the interval by less than 10 ms; but the interval is a whole
  number of milliseconds, so that for target rates of 12.012 Mbit/s and more it is zero and the
  rate has no effect.\<close>

theorem adaptive_delay_paces:
  assumes "last_time \<le> now" "r < 10" "d = calculate_adaptive_delay last_time now rate r"
  shows "unat (expected_interval_ms rate) * 1000 \<le> (unat now - unat last_time) * 1000 + d \<and>
    d < unat (expected_interval_ms rate) * 1000 + 10000 \<and>
    (12012000 \<le> rate \<longrightarrow> expected_interval_ms rate = 0 \<and> d < 10000)"
proof -
  let ?e = "expected_interval_ms rate" and ?el = "saturating_sub now last_time"
  have r: "unat r < 10" using assms(2) by (simp add: word_less_nat_alt)
  have el: "unat ?el = unat now - unat last_time" using saturating_sub_ge [OF assms(1)] .
  have d: "unat ?e * 1000 \<le> unat ?el * 1000 + d \<and> d < unat ?e * 1000 + 10000 \<and> (unat ?e = 0 \<longrightarrow> d < 10000)"
  proof (cases "?e \<le> ?el")
    case True
    with r show ?thesis
      by (auto simp: assms(3) calculate_adaptive_delay_def Let_def from_millis_def word_le_nat_alt)
  next
    case False
    then have lt: "?el < ?e" by (simp only: not_le)
    have sub: "unat (?e - ?el) = unat ?e - unat ?el" "unat ?el < unat ?e"
      using unat_sub [OF less_imp_le [OF lt]] lt by (simp_all add: word_less_nat_alt)
    then have "unat (?e - ?el + r) = unat ?e - unat ?el + unat r"
      using r expected_interval_bound [of rate] by (simp add: unat_word_ariths)
    with False have "d = (unat ?e - unat ?el + unat r) * 1000"
      by (simp only: assms(3) calculate_adaptive_delay_def Let_def from_millis_def if_False)
    with r sub(2) show ?thesis by auto
  qed
  have "?e = 0" if "12012000 \<le> rate"
  proof -
    have "12012000 \<le> unat rate" using that by (simp add: word_le_nat_alt)
    then have "1001 \<le> unat rate div 8 div 1500" by simp
    then have "1001 \<le> unat (max (rate div 8 div 1500) 1)"
      by (simp add: max_def word_le_nat_alt unat_div)
    then have "unat ?e = 0" by (simp add: expected_interval_ms_def unat_div)
    then show ?thesis by (simp add: unat_eq_zero)
  qed
  with d el show ?thesis by auto
qed

text \<open>Decoy requests look like requests for unknown pages: as long as the configured paths are not routes
  of the daemon and carry no query, whatever path is drawn is answered by the decoy page or the
  reverse proxy and starts nothing.\<close>

theorem decoy_requests_decoyed:
  assumes "fast_ok G" "\<forall>e\<in>set (de_endpoints config). e \<notin> set served_routes \<and> CHR ''?'' \<notin> set e"
    "rq_path req = takeWhile (\<lambda>c. c \<noteq> CHR ''?'') (generate_decoy_path G config ts r)"
  shows "handle_request X dconfig req now inst nonce mt = (handle_decoy X (dc_security dconfig) req, NoTask, mt)"
proof (rule unserved_route)
  show "rq_path req \<notin> set served_routes"
  proof (cases "random_endpoint G config")
    case None
    obtain rest where "rq_path req = ''/static/resource_'' @ rest"
      using assms(3) None by (simp add: generate_decoy_path_def Let_def)
    then show ?thesis by (auto simp: served_routes_def)
  next
    case (Some e)
    with random_endpoint_member [OF assms(1)] assms(2) have e: "e \<notin> set served_routes" "CHR ''?'' \<notin> set e" by auto
    have "takeWhile (\<lambda>c. c \<noteq> CHR ''?'') (e @ CHR ''?'' # xs) = e" for xs
      using e(2) by (auto simp: takeWhile_append)
    moreover have "takeWhile (\<lambda>c. c \<noteq> CHR ''?'') e = e" using e(2) by (auto simp: takeWhile_eq_all_conv)
    moreover have "generate_decoy_path G config ts r = e \<or> (\<exists>xs. generate_decoy_path G config ts r = e @ CHR ''?'' # xs)"
      using Some by (simp add: generate_decoy_path_def)
    ultimately have "rq_path req = e" using assms(3) by metis
    with e(1) show ?thesis by simp
  qed
qed

definition demo_fast :: fast_ext where
  "demo_fast = \<lparr>fr_u64 = \<lambda>lo hi. lo, fr_usize = \<lambda>lo hi. hi, fr_bool = True\<rparr>"

lemma demo_fast_ok: "fast_ok demo_fast"
  by (simp add: fast_ok_def demo_fast_def)

end
