(* ===== verification/Geoip.thy ===== *)
theory Geoip
  imports Rust_Std
begin

text \<open>
  Choice of an exit node by distance, \<^verbatim>\<open>daemon/src/geoip.rs\<close>. Floating-point numbers and their functions
  are the parameter \<open>geo_ops\<close> on a type \<open>'f\<close>, the MaxMind database is the parameter \<open>mm_ext\<close>. The
  iterators \<^verbatim>\<open>min_by\<close> and \<^verbatim>\<open>max_by\<close> keep the first least and the last greatest element.
\<close>

section \<open>Floats and iterators\<close>

datatype ordering = Less | Equal | Greater

record 'f geo_ops =
  gf_sub :: "'f \<Rightarrow> 'f \<Rightarrow> 'f"
  gf_add :: "'f \<Rightarrow> 'f \<Rightarrow> 'f"
  gf_mul :: "'f \<Rightarrow> 'f \<Rightarrow> 'f"
  gf_div :: "'f \<Rightarrow> 'f \<Rightarrow> 'f"
  gf_sin :: "'f \<Rightarrow> 'f"
  gf_cos :: "'f \<Rightarrow> 'f"
  gf_asin :: "'f \<Rightarrow> 'f"
  gf_sqrt :: "'f \<Rightarrow> 'f"
  gf_powi :: "'f \<Rightarrow> nat \<Rightarrow> 'f"
  gf_to_radians :: "'f \<Rightarrow> 'f"
  gf_nat :: "nat \<Rightarrow> 'f"
  gf_eq :: "'f \<Rightarrow> 'f \<Rightarrow> bool"
  gf_partial_cmp :: "'f \<Rightarrow> 'f \<Rightarrow> ordering option"

definition min_by :: "('a \<Rightarrow> 'a \<Rightarrow> ordering) \<Rightarrow> 'a list \<Rightarrow> 'a option" where
  "min_by cmp xs = (case xs of [] \<Rightarrow> None
     | x # ys \<Rightarrow> Some (fold (\<lambda>y best. if cmp best y = Greater then y else best) ys x))"

definition max_by :: "('a \<Rightarrow> 'a \<Rightarrow> ordering) \<Rightarrow> 'a list \<Rightarrow> 'a option" where
  "max_by cmp xs = (case xs of [] \<Rightarrow> None
     | x # ys \<Rightarrow> Some (fold (\<lambda>y best. if cmp best y = Greater then best else y) ys x))"

definition or_equal :: "ordering option \<Rightarrow> ordering" where
  "or_equal c = (case c of None \<Rightarrow> Equal | Some o' \<Rightarrow> o')"

section \<open>Locations\<close>

record 'f GeoLocation =
  gl_country_code :: "string option"
  gl_city :: "string option"
  gl_latitude :: 'f
  gl_longitude :: 'f

definition geo_location_default :: "'f geo_ops \<Rightarrow> 'f GeoLocation" where
  "geo_location_default F =
     \<lparr>gl_country_code = None, gl_city = None, gl_latitude = gf_nat F 0, gl_longitude = gf_nat F 0\<rparr>"

record 'f mm_city =
  mc_latitude :: "'f option"
  mc_longitude :: "'f option"
  mc_iso_code :: "string option"
  mc_english :: "string option"

record ('r, 'f) mm_ext =
  mm_lookup :: "IpAddr \<Rightarrow> ('r, string) result"
  mm_decode :: "'r \<Rightarrow> ('f mm_city option, string) result"

definition geo_lookup :: "'f geo_ops \<Rightarrow> ('r, 'f) mm_ext \<Rightarrow> IpAddr \<Rightarrow> 'f GeoLocation option" where
  "geo_lookup F reader ip =
     (case mm_lookup reader ip of
        Err _ \<Rightarrow> None
      | Ok r \<Rightarrow>
          (case mm_decode reader r of
             Err _ \<Rightarrow> None
           | Ok None \<Rightarrow> None
           | Ok (Some city) \<Rightarrow>
               Some \<lparr>gl_country_code = mc_iso_code city, gl_city = mc_english city,
                 gl_latitude = (case mc_latitude city of None \<Rightarrow> gf_nat F 0 | Some x \<Rightarrow> x),
                 gl_longitude = (case mc_longitude city of None \<Rightarrow> gf_nat F 0 | Some x \<Rightarrow> x)\<rparr>))"

definition haversine_distance :: "'f geo_ops \<Rightarrow> 'f \<Rightarrow> 'f \<Rightarrow> 'f \<Rightarrow> 'f \<Rightarrow> 'f" where
  "haversine_distance F lat1 lon1 lat2 lon2 =
     (let R = gf_nat F 6371; two = gf_nat F 2;
          d_lat = gf_to_radians F (gf_sub F lat2 lat1);
          d_lon = gf_to_radians F (gf_sub F lon2 lon1);
          lat1_rad = gf_to_radians F lat1;
          lat2_rad = gf_to_radians F lat2;
          a = gf_add F (gf_powi F (gf_sin F (gf_div F d_lat two)) 2)
                (gf_mul F (gf_mul F (gf_cos F lat1_rad) (gf_cos F lat2_rad)) (gf_powi F (gf_sin F (gf_div F d_lon two)) 2));
          c = gf_mul F two (gf_asin F (gf_sqrt F a)) in
      gf_mul F R c)"

record 'f GeoExitNode =
  ge_name :: string
  ge_endpoint :: string
  ge_weight :: 'f
  ge_latitude :: 'f
  ge_longitude :: 'f

definition node_score :: "'f geo_ops \<Rightarrow> 'f GeoLocation \<Rightarrow> 'f GeoExitNode \<Rightarrow> 'f" where
  "node_score F client_geo n =
     gf_div F (haversine_distance F (gl_latitude client_geo) (gl_longitude client_geo) (ge_latitude n) (ge_longitude n))
       (ge_weight n)"

definition select_best_exit :: "'f geo_ops \<Rightarrow> 'f GeoExitNode list \<Rightarrow> 'f GeoLocation \<Rightarrow> 'f GeoExitNode option" where
  "select_best_exit F nodes client_geo =
     (if nodes = [] then None
      else if gf_eq F (gl_latitude client_geo) (gf_nat F 0) \<and> gf_eq F (gl_longitude client_geo) (gf_nat F 0)
      then max_by (\<lambda>a b. or_equal (gf_partial_cmp F (ge_weight a) (ge_weight b))) nodes
      else min_by (\<lambda>a b. or_equal (gf_partial_cmp F (node_score F client_geo a) (node_score F client_geo b))) nodes)"

section \<open>Lemmas\<close>

text \<open>\<open>ranks f rank xs\<close>: the comparison of the values of \<open>f\<close> on \<open>xs\<close> is that of a ranking by integers, as it
  is for floats none of which is NaN.\<close>

definition cmp_int :: "int \<Rightarrow> int \<Rightarrow> ordering" where
  "cmp_int a b = (if a < b then Less else if a = b then Equal else Greater)"

definition ranks :: "('f \<Rightarrow> 'f \<Rightarrow> ordering option) \<Rightarrow> ('a \<Rightarrow> 'f) \<Rightarrow> ('a \<Rightarrow> int) \<Rightarrow> 'a list \<Rightarrow> bool" where
  "ranks pc f rank xs \<longleftrightarrow> (\<forall>a\<in>set xs. \<forall>b\<in>set xs. pc (f a) (f b) = Some (cmp_int (rank a) (rank b)))"

lemma fold_best:
  assumes "\<forall>a\<in>set (x # ys). \<forall>b\<in>set (x # ys). better a b \<longleftrightarrow> rank b < (rank a :: int)"
  shows "fold (\<lambda>y best. if better best y then y else best) ys x \<in> set (x # ys) \<and>
    (\<forall>m\<in>set (x # ys). rank (fold (\<lambda>y best. if better best y then y else best) ys x) \<le> rank m)"
  using assms
proof (induction ys arbitrary: x)
  case (Cons y ys)
  let ?x = "if better x y then y else x"
  have "\<forall>a\<in>set (?x # ys). \<forall>b\<in>set (?x # ys). better a b \<longleftrightarrow> rank b < rank a" using Cons.prems by simp
  from Cons.IH [OF this] Cons.prems show ?case by (auto split: if_splits)
qed simp

lemma min_by_least:
  assumes "xs \<noteq> []" "\<forall>a\<in>set xs. \<forall>b\<in>set xs. cmp a b = Greater \<longleftrightarrow> rank b < (rank a :: int)"
  shows "\<exists>n. min_by cmp xs = Some n \<and> n \<in> set xs \<and> (\<forall>m\<in>set xs. rank n \<le> rank m)"
proof -
  obtain x ys where xs: "xs = x # ys" using assms(1) by (cases xs) auto
  from fold_best [of x ys "\<lambda>a b. cmp a b = Greater" rank] assms(2) show ?thesis by (simp add: min_by_def xs)
qed

lemma max_by_greatest:
  assumes "xs \<noteq> []" "\<forall>a\<in>set xs. \<forall>b\<in>set xs. cmp a b = Greater \<longleftrightarrow> rank b < (rank a :: int)"
  shows "\<exists>n. max_by cmp xs = Some n \<and> n \<in> set xs \<and> (\<forall>m\<in>set xs. rank m \<le> rank n)"
proof -
  obtain x ys where xs: "xs = x # ys" using assms(1) by (cases xs) auto
  let ?step = "\<lambda>y best. if cmp best y = Greater then best else y"
  have "fold ?step ys x \<in> set (x # ys) \<and> (\<forall>m\<in>set (x # ys). rank m \<le> rank (fold ?step ys x))"
    using assms(2) unfolding xs
  proof (induction ys arbitrary: x)
    case (Cons y ys)
    have "\<forall>a\<in>set (?step y x # ys). \<forall>b\<in>set (?step y x # ys). cmp a b = Greater \<longleftrightarrow> rank b < rank a"
      using Cons.prems by simp
    from Cons.IH [OF this] Cons.prems show ?case by (auto split: if_splits)
  qed simp
  then show ?thesis by (simp add: max_by_def xs)
qed

lemma cmp_int_Greater: "cmp_int a b = Greater \<longleftrightarrow> b < a"
  by (auto simp: cmp_int_def)

section \<open>Properties\<close>

text \<open>The exit node chosen is the best one: with comparable scores (no NaN) and a known location, one of
  the nodes with the least distance divided by weight; with an unknown location, which is also
  what a location at latitude and longitude zero counts as, one with the greatest weight. Some
  node is chosen whenever there is one.\<close>

theorem best_exit_selected:
  assumes "nodes \<noteq> []"
    and "ranks (gf_partial_cmp F) (node_score F client_geo) score nodes" and "ranks (gf_partial_cmp F) ge_weight weight nodes"
  shows "\<exists>n. select_best_exit F nodes client_geo = Some n \<and> n \<in> set nodes \<and>
    (if gf_eq F (gl_latitude client_geo) (gf_nat F 0) \<and> gf_eq F (gl_longitude client_geo) (gf_nat F 0)
     then \<forall>m\<in>set nodes. weight m \<le> weight n else \<forall>m\<in>set nodes. score n \<le> score m)"
proof (cases "gf_eq F (gl_latitude client_geo) (gf_nat F 0) \<and> gf_eq F (gl_longitude client_geo) (gf_nat F 0)")
  case True
  with max_by_greatest [OF assms(1), of "\<lambda>a b. or_equal (gf_partial_cmp F (ge_weight a) (ge_weight b))" weight] assms
  show ?thesis by (simp add: select_best_exit_def ranks_def or_equal_def cmp_int_Greater)
next
  case False
  let ?cmp = "\<lambda>a b. or_equal (gf_partial_cmp F (node_score F client_geo a) (node_score F client_geo b))"
  have "\<exists>n. min_by ?cmp nodes = Some n \<and> n \<in> set nodes \<and> (\<forall>m\<in>set nodes. score n \<le> score m)"
    using min_by_least [OF assms(1), of ?cmp score] assms(2) by (simp add: ranks_def or_equal_def cmp_int_Greater)
  moreover have "select_best_exit F nodes client_geo = min_by ?cmp nodes"
    using False assms(1) by (auto simp: select_best_exit_def)
  ultimately show ?thesis using False by (simp only: if_False)
qed

end
