(* ===== verification/Spec2Isabelle.thy ===== *)
theory Spec2Isabelle
  imports Storage_Engine Key_Rotation Session_Tasks Node_Tasks Pool_Tasks Client_Main Exit_Device Connection_Pool Daemon_Main Management
    Daemon_Services Tun_Device Secure_Transports Traffic_Shaping Geoip
begin

text \<open>
  \<^bold>\<open>apfsds: a proxy in Rust, and its verification.\<close>

  The program has four parts. A \<^emph>\<open>client\<close> (\<^verbatim>\<open>client/\<close>) accepts SOCKS5 connections, a TUN device or DNS
  queries and sends what they carry as frames over a masked WebSocket session. A \<^emph>\<open>daemon\<close> in handler mode
  (\<^verbatim>\<open>daemon/\<close>) issues and checks tokens, unmasks the frames, forwards them as packets to exit nodes, bills
  the user and gives return traffic back to the session it belongs to; it can run a Raft cluster
  (\<^verbatim>\<open>crates/raft\<close>) over a write-ahead log. A daemon in exit mode (\<^verbatim>\<open>daemon/src/exit_node.rs\<close>) translates
  addresses and exchanges packets with a TUN device. The crates \<^verbatim>\<open>protocol\<close>, \<^verbatim>\<open>crypto\<close>, \<^verbatim>\<open>obfuscation\<close>,
  \<^verbatim>\<open>transport\<close>, \<^verbatim>\<open>storage\<close> hold what the parts share. A command line tool calls the management interface.

  \<^bold>\<open>Conventions.\<close> Machine integers are words of their width, with the wrap-around of a release build;
  bytes are lists of 8-bit words; text is a string, or its UTF-8 bytes where the code handles bytes. Structures are
  records, enumerations datatypes, \<^verbatim>\<open>Result\<close> is the type \<open>result\<close>, and \<open>None\<close> as the result of an operation
  that cannot fail in Rust is a panic. \<^verbatim>\<open>DashMap\<close> and \<^verbatim>\<open>HashMap\<close> are association lists with distinct keys.
  Operations take the state and return it updated; a lock makes an operation atomic, and where code
  releases a lock between two accesses, the steps are separate. Clocks, identifiers, random draws and
  what a socket yields are arguments: a loop over a socket is a function of the list of what it
  yields. Code outside the repository is a record of functions named \<open>..._ext\<close> that the operations take,
  and what is assumed of it is a predicate \<open>..._ok\<close>; every theorem that assumes one has an instance that satisfies it.
  Nothing is assumed of a cryptographic primitive beyond what its documentation promises. What HTTP does with a packet is
  a log of requests, each with whether it was answered with success: a request that failed may have been
  taken by the exit node or not. Archives are read at an address, since \<^verbatim>\<open>rkyv\<close> reads them only where they are
  aligned; the theories that give no address read from vectors of their own or at offsets that are multiples of the alignment.

  \<^bold>\<open>The theories\<close> (files under \<^verbatim>\<open>src/\<close>).
  \<^item> \<open>Apfsds_Prelude\<close>, \<open>Rust_Std\<close>: integers, byte layouts, finite maps (interface \<open>kv_map\<close>, interpreted as \<open>dm\<close>),
    reachable states and invariants of step relations (interface \<open>invariant_system\<close>, interpreted by every
    theory with tasks: \<open>monitor\<close>, \<open>race\<close>, \<open>device\<close>, \<open>tasks\<close>, \<open>billing\<close>, \<open>pool\<close>, \<open>logged_pool\<close>, \<open>nodes\<close>, \<open>backup\<close>);
    UTF-8, splitting, decimal numbers, addresses.
  \<^item> \<open>Protocol_Frames\<close>: \<^verbatim>\<open>crates/protocol\<close>, frames, packets, records and frame validation. Checksums and
    time windows are characterised, the archived validation agrees with the ordinary one.
  \<^item> \<open>Replay_Cache\<close>, \<open>Crypto\<close>, \<open>Authenticator\<close>, \<open>Key_Rotation\<close>: \<^verbatim>\<open>crates/crypto\<close>, \<^verbatim>\<open>daemon/src/auth.rs\<close>, \<^verbatim>\<open>key_rotation.rs\<close>.
    The two caches interpret the interface \<open>replay_guard\<close>, from which at-most-once acceptance follows for both; what an
    authenticator accepts is characterised over all its runs, the replay under another nonce included; a race of two tasks on one cache is a step relation with its invariant.
  \<^item> \<open>Wal_Log\<close>, \<open>Raft_Storage\<close>, \<open>Clickhouse_Backup\<close>, \<open>Storage_Engine\<close>: \<^verbatim>\<open>crates/storage\<close>, \<^verbatim>\<open>crates/raft/src/storage.rs\<close>. The
    log interprets \<open>durable_log\<close> (what is appended is read back after a restart), the engine \<open>conn_store\<close> (it
    refines a map from connection ids to records). The recordings and flushes that share the backup client are a step
    relation: a flush takes its batch under the lock and inserts it later.
  \<^item> \<open>Obfuscation\<close>, \<open>Frame_Codec\<close>: \<^verbatim>\<open>crates/obfuscation\<close>, \<^verbatim>\<open>crates/transport/src/frame_codec.rs\<close>, \<^verbatim>\<open>client/src/wss.rs\<close>.
    Masks with and without vector instructions, padding, compression, and the sessions made of them.
  \<^item> \<open>Exit_Client\<close>, \<open>Exit_Pool\<close>, \<open>Pool_Tasks\<close>, \<open>Connection_Registry\<close>, \<open>Exit_Node\<close>, \<open>Exit_Device\<close>, \<open>Exit_Node_Pool\<close>: the way of a packet to an exit
    node and back (\<^verbatim>\<open>exit_client.rs\<close>, \<^verbatim>\<open>exit_pool.rs\<close>, \<^verbatim>\<open>exit_forwarder.rs\<close>, \<^verbatim>\<open>connection_registry.rs\<close>, \<^verbatim>\<open>exit_node.rs\<close>,
    \<^verbatim>\<open>exit_node_pool.rs\<close>). The registry interprets \<open>packet_dispatcher\<close>, the interface the stream reader relies on;
    the tasks around the exit node's device are a step relation with its invariant, and so are the calls,
    health checks and subscriptions that share a pool of exit nodes (\<open>Pool_Tasks\<close>), of which the forwarding function is a run.
    The pool of reverse-connected nodes refines a book of all registrations.
  \<^item> \<open>Billing\<close>, \<open>Daemon_Config\<close>, \<open>Handler\<close>, \<open>Session_Tasks\<close>, \<open>Node_Tasks\<close>: accounting and the database client, configuration, and the HTTP and
    WebSocket server. \<open>Handler\<close> has a session as a function of what its socket yields; \<open>Session_Tasks\<close> has the tasks
    of all sessions, which share the registry, the account and the counters, as a step relation, and \<open>Node_Tasks\<close>
    the sessions of reverse-connected exit nodes, which share their pool.
    In \<open>Billing\<close> sessions record usage while a flush is under way.
  \<^item> \<open>Raft_Network\<close>, \<open>Daemon_Main\<close>, \<open>Management\<close>, \<open>Daemon_Services\<close>: the Raft node with its network, the start of the daemon, the
    management interface together with the command line tool, the page of metrics, the socket for plugins and the loop
    that accepts connections.
  \<^item> \<open>Client_Config\<close>, \<open>Client_Session\<close>, \<open>Socks5\<close>, \<open>Dns_Client\<close>, \<open>Emergency\<close>, \<open>Tun_Device\<close>, \<open>Client_Main\<close>: the client from its configuration to its start, and the emergency shutdown of client and daemon; the
    daemon's monitor is also a step relation, beside other threads that trigger it, with the stores and loads of relaxed atomics.
  \<^item> \<open>Wss_Client\<close>, \<open>Connection_Pool\<close>, \<open>Secure_Transports\<close>, \<open>Traffic_Shaping\<close>, \<open>Geoip\<close>: the WebSocket client, its pool, QUIC with SSH and mutual TLS, timing with decoys and noise, and
    the choice of a node by distance; parts of the crates that the programs do not use yet.
  \<^item> This theory: the properties that span components, from an application's bytes to the exit nodes,
    from the exit node's device back to the application, and the health checks against the exit node as it is.

  \<^bold>\<open>What is shown.\<close> For each component its invariant and that operations preserve it, the behaviour of its
  operations on every branch, round trips of its formats, and the refinement of an abstract
  specification where it has one. Properties numbered C1 onwards state what matters most; several of them
  show that the code does not do what it means to: no client session can be started, since every
  token is refused; token requests can be replayed, and signed requests under another nonce; a health check disables all exit
  nodes; every other packet of a burst is lost in the reader of a return stream; a restart brings deleted Raft entries
  back; an exit node writes nothing while its device is idle; the tasks of a session wait for each other after the client has left, until its DNS socket fails,
  while those of exit nodes end. Others, such as the frames dropped at the turn of a minute, the vote a Raft node
  forgets, the log entries overwritten after a restart, the requests between Raft nodes that nobody answers or the shutdown that comes
  at once when a relaxed load is stale, are lemmas of their theories.

  \<^bold>\<open>Termination, fuel.\<close> No definition uses fuel. Loops are structural or have a measure; the receiving loop of
  \<open>Wss_Client\<close>, which a peer can keep busy for ever, is a partial function, and that it returns once a binary
  message arrives is proved.

  \<^bold>\<open>Not modelled.\<close> Spawning and logging; the page of the dashboard (HTML that nothing includes); the
  consensus algorithm, the WebSocket, HTTP, TLS, compression and serialisation libraries and the operating
  system, which are parameters. Floating-point arithmetic is a parameter where it is computed with and a bit
  pattern where it is only stored. Timeouts are not modelled, except as errors that a parameter may return. Atomics are
  sequentially consistent, except those of the monitor.
\<close>

section \<open>From a client to an exit node\<close>

lemma rx_loop_session:
  assumes "frame_ext_ok (sx_frames X)" "ws_stream (sx_frames X) tgt G k fs = Some rx"
    "\<forall>e\<in>set fs. same_window e" "short_events rx"
  shows "cs_world (rx_loop X k u rx st) = cs_world (process_frames X u (map (snd \<circ> snd) fs) st)"
    "cs_billing (rx_loop X k u rx st) = cs_billing (process_frames X u (map (snd \<circ> snd) fs) st)"
    "cs_dns (rx_loop X k u rx st) = cs_dns (process_frames X u (map (snd \<circ> snd) fs) st)"
proof -
  have "with_metrics mt (rx_loop X k u rx st) = with_metrics mt (process_frames X u (map (snd \<circ> snd) fs) st)" for mt
    unfolding rx_loop_frames handler_recv_stream [OF assms] ..
  then show "cs_world (rx_loop X k u rx st) = cs_world (process_frames X u (map (snd \<circ> snd) fs) st)"
    "cs_billing (rx_loop X k u rx st) = cs_billing (process_frames X u (map (snd \<circ> snd) fs) st)"
    "cs_dns (rx_loop X k u rx st) = cs_dns (process_frames X u (map (snd \<circ> snd) fs) st)"
    by (metis with_metrics_simps(5), metis with_metrics_simps(1), metis with_metrics_simps(4))
qed

text \<open>A session whose connection id was sent and whose DNS socket is bound: what its data frames do.\<close>

lemma session_data:
  assumes "frame_ext_ok (sx_frames X)" and "ws_stream (sx_frames X) tgt G conn_id fs = Some rx"
    and "\<forall>e\<in>set fs. same_window e" and "short_events rx"
    and "has_working_node (sx_http X) (cs_forwarder st)" and "http_logs (sx_http X) requests"
    and "list_all2 (\<lambda>f b. px_to_bytes (sx_packets X) (from_frame f (ef_node_id (cs_forwarder st))) = Ok b)
      (data_frames (map (snd \<circ> snd) fs)) bs"
    and "client_session X user_id conn_id tx True True joins rx st = (hello, st')"
  shows "(\<exists>ns. requests (cs_world st') = requests (cs_world st) @ tries_all ns bs \<and> length ns = length bs \<and>
      (\<forall>n\<in>set ns. n < default_nodes (cs_forwarder st))) \<and>
    pending (cs_billing st') user_id = pending (cs_billing st) user_id + payload_bytes (map (snd \<circ> snd) fs) \<and>
    hello = Some (u64_to_le conn_id)"
proof -
  define st2 where "st2 = st\<lparr>cs_metrics := (cs_metrics st)\<lparr>mt_active_connections := mt_active_connections (cs_metrics st) + 1\<rparr>,
    cs_registry := rg_register (cs_registry st) conn_id tx\<rparr>"
  have st': "cs_world st' = cs_world (rx_loop X conn_id user_id rx st2)"
    "cs_billing st' = cs_billing (rx_loop X conn_id user_id rx st2)" "hello = Some (u64_to_le conn_id)"
    using assms(8) by (auto simp: client_session_def st2_def Let_def)
  have "has_working_node (sx_http X) (cs_forwarder st2)"
    "list_all2 (\<lambda>f b. px_to_bytes (sx_packets X) (from_frame f (ef_node_id (cs_forwarder st2))) = Ok b)
      (data_frames (map (snd \<circ> snd) fs)) bs"
    using assms(5,7) by (simp_all add: st2_def)
  from process_frames_delivers [OF assms(6) this] st' rx_loop_session [OF assms(1-4)] show ?thesis
    by (simp add: st2_def)
qed

text \<open>C3. The path of client data through the daemon: in a session of a client, every data frame it sends is unmasked and unpadded,
  turned into a packet and offered to the exit nodes of the default group, in order, until a node accepts it: for each packet some requests that failed, fewer
  than the group has nodes, and then exactly one that was answered with success. A request that failed may
  have been taken by its node too, for example when the time-out of the client comes after the node had it, and success is the status that
  the node answered. The user's account grows by the bytes of the payloads, once for each frame. Conditions: one node of the default group works, and every frame is unmasked in the
  minute of the clock in which it was masked. The session itself is given; \<open>no_client_session\<close> shows that the daemon starts none at present.\<close>

theorem client_data_forwarded_and_billed:
  assumes "frame_ext_ok (sx_frames X)" and "ws_stream (sx_frames X) tgt G conn_id fs = Some rx"
    and "\<forall>e\<in>set fs. same_window e" and "short_events rx"
    and "has_working_node (sx_http X) (cs_forwarder st)" and "http_logs (sx_http X) requests"
    and "list_all2 (\<lambda>f b. px_to_bytes (sx_packets X) (from_frame f (ef_node_id (cs_forwarder st))) = Ok b)
      (data_frames (map (snd \<circ> snd) fs)) bs"
    and "client_session X user_id conn_id tx True True joins rx st = (hello, st')"
  shows "(\<exists>ns. requests (cs_world st') = requests (cs_world st) @ concat (map2 (\<lambda>n b. replicate n (b, False) @ [(b, True)]) ns bs) \<and>
      length ns = length bs \<and> (\<forall>n\<in>set ns. n < default_nodes (cs_forwarder st))) \<and>
    pending (cs_billing st') user_id = pending (cs_billing st) user_id + payload_bytes (map (snd \<circ> snd) fs) \<and>
    hello = Some (u64_to_le conn_id)"
  using session_data [OF assms] unfolding tries_all_def tries_def .

text \<open>The instance: one data frame.\<close>

lemma demo_net_ok: "http_logs demo_net (\<lambda>w. w)" "has_working_node demo_net (cs_forwarder demo_state)"
proof -
  show "http_logs demo_net (\<lambda>w. w)"
    by (auto simp: http_logs_def demo_net_def http_success_def accepted_answer_def)
  have "accepts demo_net (demo_client ''a'')"
    by (simp add: accepts_def demo_net_def demo_client_def ex_base_url_def http_success_def)
  then show "has_working_node demo_net (cs_forwarder demo_state)"
    unfolding has_working_node_def
    by (intro exI [of _ "\<lparr>gp_clients = [demo_client ''a'', demo_client ''b''], gp_next_index = 4\<rparr>"] exI [of _ "demo_client ''a''"])
      (simp add: demo_state_def ef_new_def demo_pool_def dget_def demo_client_def ex_is_healthy_def)
qed

lemma demo_default_nodes: "default_nodes (cs_forwarder demo_state) = 2"
  by (simp add: default_nodes_def demo_state_def ef_new_def demo_pool_def dget_def)

theorem client_data_forwarded_and_billed_witness:
  "\<exists>rx n. ws_stream demo_frames Portable demo_rng 5 [(60, 61, demo_frame 1)] = Some rx \<and> n < 2 \<and>
     cs_world (snd (client_session demo_session 42 5 0 True True False rx demo_state)) = replicate n ([1, 2, 3], False) @ [([1, 2, 3], True)] \<and>
     pending (cs_billing (snd (client_session demo_session 42 5 0 True True False rx demo_state))) 42 = 3"
proof -
  obtain m where m: "send_frame demo_frames Portable demo_rng 5 60 (demo_frame 1) = Some (Ok m)" "length m < 1000"
    using demo_send by metis
  let ?fs = "[(60, 61, demo_frame 1)] :: (u64 \<times> u64 \<times> ProxyFrame) list" and ?after = "snd (client_session demo_session 42 5 0 True True False [(61, WsBinary m)] demo_state)"
  have s: "ws_stream (sx_frames demo_session) Portable demo_rng 5 ?fs = Some [(61, WsBinary m)]"
    by (simp add: m demo_session_def)
  have ok: "frame_ext_ok (sx_frames demo_session)" "http_logs (sx_http demo_session) (\<lambda>w. w)"
    "has_working_node (sx_http demo_session) (cs_forwarder demo_state)"
    by (simp_all add: demo_session_def demo_frames_ok demo_net_ok)
  have fs: "data_frames (map (snd \<circ> snd) ?fs) = [demo_frame 1]"
    by (simp add: data_frames_def demo_frame_def new_data_def default_flags_def)
  have bytes: "list_all2 (\<lambda>f b. px_to_bytes (sx_packets demo_session) (from_frame f (ef_node_id (cs_forwarder demo_state))) = Ok b)
      (data_frames (map (snd \<circ> snd) ?fs)) [[1, 2, 3]]"
    unfolding fs by (simp add: demo_session_def demo_frame_def new_data_def from_frame_def)
  have w: "\<forall>e\<in>set ?fs. same_window e" "short_events [(61, WsBinary m)]" using m by (auto simp: short_events_def same_window_def)
  obtain ns where ns: "cs_world ?after = cs_world demo_state @ concat (map2 (\<lambda>n b. replicate n (b, False) @ [(b, True)]) ns [[1, 2, 3]])"
      "length ns = length [[1 :: u8, 2, 3]]" "\<forall>n\<in>set ns. n < default_nodes (cs_forwarder demo_state)"
    and bill: "pending (cs_billing ?after) 42 = pending (cs_billing demo_state) 42 + payload_bytes (map (snd \<circ> snd) ?fs)"
    using client_data_forwarded_and_billed [OF ok(1) s w ok(3,2) bytes prod.collapse [symmetric], of 42 0 False]
    by (elim conjE exE) (rule that)
  obtain n where "ns = [n]" using ns(2) by (cases ns) auto
  with ns bill s show ?thesis
    unfolding payload_bytes_def fs demo_default_nodes
    by (intro exI [of _ "[(61, WsBinary m)]"] exI [of _ n])
      (simp add: demo_session_def demo_state_def ba_new_def pending_def demo_frame_def new_data_def)
qed

section \<open>From an application to an exit node\<close>

lemma tcp_to_wss_data: "data_frames (tcp_to_wss crc tn turns) = tcp_to_wss crc tn turns"
  by (induction crc tn turns rule: tcp_to_wss.induct)
    (auto simp: data_frames_def new_data_def default_flags_def split: result.splits)

lemma payload_bytes_concat:
  "data_frames fs = fs \<Longrightarrow> payload_bytes fs = word_of_nat (length (concat (map pf_payload fs)))"
proof -
  assume "data_frames fs = fs"
  moreover have "(\<Sum>f\<leftarrow>gs. word_of_nat (length (pf_payload f)) :: u64) = word_of_nat (length (concat (map pf_payload gs)))" for gs
    by (induction gs) simp_all
  ultimately show ?thesis by (simp add: payload_bytes_def)
qed

lemma tcp_to_wss_target:
  "f \<in> set (tcp_to_wss crc tn turns) \<Longrightarrow> pf_rip f = tn_rip tn \<and> pf_rport f = tn_rport tn \<and> pf_conn_id f = tn_conn_id tn"
  by (induction crc tn turns rule: tcp_to_wss.induct) (auto simp: new_data_def split: result.splits if_splits)

text \<open>C1. From an application to the exit nodes: when the SOCKS5 server has opened a tunnel on the connection id that the daemon's session
  sent, and reads the application's bytes in pieces of any size, the exit nodes are offered packets for the tunnel's target
  and connection whose payloads are, in order, exactly those bytes; each packet is offered until one request
  is accepted, after fewer failed requests than the default group has nodes, and the user is billed for the
  number of bytes, once; through framing, padding, masking, the WebSocket, the session and the forwarder. (A node
  may have taken a request that failed, and success is the status it answered.) Conditions: one node of the default
  group works, every write to the session succeeds, and every frame is unmasked in the minute of the clock in which it was masked. The
  session is given; \<open>no_client_session\<close> shows that the daemon starts none at present.\<close>

theorem socks5_data_reaches_exit:
  assumes "client_session X user_id conn_id tx True True joins rx st = (Some hello, st')"
    and "cn_endpoints (cc_connection config) = endpoint # es" and "sk_open K (wss_url endpoint) = Ok ((t, WsBinary hello) # later)"
    and "socks_connection K config False input = (Ok (), out, Some tn)"
    and "\<forall>t\<in>set turns. \<exists>c u n. t = (Ok c, u, n, True) \<and> c \<noteq> []"
    and "concat (map (\<lambda>(r, _). case r of Ok c \<Rightarrow> c | Err _ \<Rightarrow> []) turns) = tn_data tn"
    and "map (snd \<circ> snd) fs = tcp_to_wss crc tn turns"
    and "frame_ext_ok (sx_frames X)" and "ws_stream (sx_frames X) tgt G conn_id fs = Some rx"
    and "\<forall>e\<in>set fs. same_window e" and "short_events rx"
    and "has_working_node (sx_http X) (cs_forwarder st)" and "http_logs (sx_http X) requests"
    and "\<forall>f\<in>set (tcp_to_wss crc tn turns). is_ok (px_to_bytes (sx_packets X) (from_frame f (ef_node_id (cs_forwarder st))))"
  shows "\<exists>ps bs ns. list_all2 (\<lambda>p b. px_to_bytes (sx_packets X) p = Ok b) ps bs \<and>
    concat (map pp_payload ps) = tn_data tn \<and>
    (\<forall>p\<in>set ps. pp_rip p = tn_rip tn \<and> pp_rport p = tn_rport tn \<and> pp_conn_id p = conn_id) \<and>
    requests (cs_world st') = requests (cs_world st) @ concat (map2 (\<lambda>n b. replicate n (b, False) @ [(b, True)]) ns bs) \<and>
    length ns = length bs \<and> (\<forall>n\<in>set ns. n < default_nodes (cs_forwarder st)) \<and>
    pending (cs_billing st') user_id = pending (cs_billing st) user_id + word_of_nat (length (tn_data tn))"
proof -
  let ?frames = "tcp_to_wss crc tn turns" and ?P = "sx_packets X" and ?n = "ef_node_id (cs_forwarder st)"
  have id: "tn_conn_id tn = conn_id"
    using tunnel_session [OF assms(4)] session_keys_agree [OF assms(2,1), of "sk_open K" t later] assms(3) by auto
  have "\<forall>f\<in>set ?frames. \<exists>b. px_to_bytes ?P (from_frame f ?n) = Ok b"
    using assms(14) by (metis is_ok.simps(2) result.exhaust)
  from bchoice [OF this] obtain enc where enc: "\<forall>f\<in>set ?frames. px_to_bytes ?P (from_frame f ?n) = Ok (enc f)" by blast
  then have bytes: "list_all2 (\<lambda>f b. px_to_bytes ?P (from_frame f ?n) = Ok b) (data_frames (map (snd \<circ> snd) fs)) (map enc ?frames)"
    by (simp only: assms(7) tcp_to_wss_data list_all2_map2 list_all2_same)
  have payloads: "concat (map pf_payload ?frames) = tn_data tn"
    using tcp_to_wss_payloads [OF assms(5), of crc tn] assms(6) by (simp only:)
  then have "payload_bytes ?frames = word_of_nat (length (tn_data tn))"
    using payload_bytes_concat [OF tcp_to_wss_data, of crc tn turns] by simp
  with session_data [OF assms(8-13) bytes assms(1)] obtain ns where
    "requests (cs_world st') = requests (cs_world st) @ tries_all ns (map enc ?frames)" "length ns = length (map enc ?frames)"
    "\<forall>n\<in>set ns. n < default_nodes (cs_forwarder st)"
    "pending (cs_billing st') user_id = pending (cs_billing st) user_id + word_of_nat (length (tn_data tn))"
    by (auto simp: assms(7))
  moreover have "list_all2 (\<lambda>p b. px_to_bytes ?P p = Ok b) (map (\<lambda>f. from_frame f ?n) ?frames) (map enc ?frames)"
    using enc by (simp add: list_all2_map1 list_all2_map2 list_all2_same)
  moreover have "concat (map pp_payload (map (\<lambda>f. from_frame f ?n) ?frames)) = tn_data tn"
    using payloads by (simp add: comp_def from_frame_def)
  moreover have "\<forall>p\<in>set (map (\<lambda>f. from_frame f ?n) ?frames). pp_rip p = tn_rip tn \<and> pp_rport p = tn_rport tn \<and> pp_conn_id p = conn_id"
    using tcp_to_wss_target id by (fastforce simp: from_frame_def)
  ultimately show ?thesis unfolding tries_all_def tries_def by blast
qed

text \<open>An instance: an application that sends three bytes, in one piece, to an IPv6 target.\<close>

definition demo_tunnel :: tunnel where
  "demo_tunnel = \<lparr>tn_conn_id = 5, tn_rip = replicate 16 0, tn_rport = 443, tn_data = [1, 2, 3]\<rparr>"

definition demo_resolver :: socks_ext where
  "demo_resolver = \<lparr>sk_lookup_host = \<lambda>t. Ok [(IpV6 (replicate 16 0), 443)], 
     sk_open = \<lambda>url. if url = ''ws://a/ws'' then Ok [(0, WsBinary (u64_to_le 5))] else Err ''refused''\<rparr>"

definition demo_input :: bytes where
  "demo_input = [5, 1, 0, 5, 1, 0, 1, 10, 0, 0, 1, 1, 187, 1, 2, 3]"

definition demo_data_turns :: "((bytes, string) result \<times> bytes \<times> u64 \<times> bool) list" where
  "demo_data_turns = [(Ok [1, 2, 3], replicate 16 9, 1000, True)]"

lemma demo_tunnel_opened:
  "socks_connection demo_resolver demo_client_config False demo_input = (Ok (), [5, 0] @ send_reply 0, Some demo_tunnel)"
proof -
  have "session_connect (sk_open demo_resolver) demo_client_config = Ok \<lparr>ws_session_key = 5, ws_conn_id = 5, ws_rx = []\<rparr>"
    by (rule session_hello [where endpoint = "''a''" and es = "[]" and now = 0])
      (simp_all add: demo_client_config_def demo_resolver_def wss_url_def starts_with_def)
  moreover have "sk_lookup_host demo_resolver t = Ok [(IpV6 (replicate 16 0), 443)]" for t by (simp add: demo_resolver_def)
  ultimately show ?thesis
    by (simp add: socks_connection_def demo_input_def greet_def read_u8_def read_exact_def SOCKS5_VERSION_def
        request_header_def parse_target_def read_u16_def rip_of_def demo_tunnel_def)
qed

lemma demo_tunnel_frames: "tcp_to_wss (\<lambda>_. 0) demo_tunnel demo_data_turns = [demo_frame 5]"
  by (simp add: demo_tunnel_def demo_data_turns_def demo_frame_def)

theorem socks5_data_reaches_exit_witness:
  "\<exists>rx (ps :: PlainPacket list) ns. ws_stream demo_frames Portable demo_rng 5 [(60, 61, demo_frame 5)] = Some rx \<and> concat (map pp_payload ps) = [1, 2, 3] \<and>
     (\<forall>p\<in>set ps. pp_rport p = 443) \<and>
     cs_world (snd (client_session demo_session 42 5 0 True True False rx demo_state)) =
       concat (map2 (\<lambda>n b. replicate n (b, False) @ [(b, True)]) ns (map pp_payload ps))"
proof -
  obtain m where m: "send_frame demo_frames Portable demo_rng 5 60 (demo_frame 5) = Some (Ok m)" "length m < 1000"
    using demo_send by metis
  let ?fs = "[(60, 61, demo_frame 5)]" and ?rx = "[(61, WsBinary m)]"
  have s: "ws_stream (sx_frames demo_session) Portable demo_rng 5 ?fs = Some ?rx"
    by (simp add: m demo_session_def)
  have ok: "frame_ext_ok (sx_frames demo_session)" "http_logs (sx_http demo_session) (\<lambda>w. w)"
    "has_working_node (sx_http demo_session) (cs_forwarder demo_state)"
    by (simp_all add: demo_session_def demo_frames_ok demo_net_ok)
  obtain st' where c: "client_session demo_session 42 5 0 True True False ?rx demo_state = (Some (u64_to_le 5), st')"
    by (simp add: client_session_def Let_def)
  have o: "cn_endpoints (cc_connection demo_client_config) = [''a'']"
    "sk_open demo_resolver (wss_url ''a'') = Ok [(0, WsBinary (u64_to_le 5))]"
    by (simp_all add: demo_client_config_def demo_resolver_def wss_url_def starts_with_def)
  have t: "\<forall>t\<in>set demo_data_turns. \<exists>c u n. t = (Ok c, u, n, True) \<and> c \<noteq> []"
    "concat (map (\<lambda>(r, _). case r of Ok c \<Rightarrow> c | Err _ \<Rightarrow> []) demo_data_turns) = tn_data demo_tunnel"
    by (simp_all add: demo_data_turns_def demo_tunnel_def)
  have fs: "map (snd \<circ> snd) ?fs = tcp_to_wss (\<lambda>_. 0) demo_tunnel demo_data_turns" by (simp add: demo_tunnel_frames)
  have w: "\<forall>e\<in>set ?fs. same_window e" "short_events ?rx" using m by (auto simp: short_events_def same_window_def)
  have p: "\<forall>f\<in>set (tcp_to_wss (\<lambda>_. 0) demo_tunnel demo_data_turns).
      is_ok (px_to_bytes (sx_packets demo_session) (from_frame f (ef_node_id (cs_forwarder demo_state))))"
    by (simp add: demo_session_def)
  obtain ps bs ns where r: "list_all2 (\<lambda>p b. px_to_bytes (sx_packets demo_session) p = Ok b) ps bs"
    "concat (map pp_payload ps) = tn_data demo_tunnel" "\<forall>p\<in>set ps. pp_rip p = tn_rip demo_tunnel \<and> pp_rport p = tn_rport demo_tunnel \<and> pp_conn_id p = 5"
    "cs_world st' = cs_world demo_state @ concat (map2 (\<lambda>n b. replicate n (b, False) @ [(b, True)]) ns bs)"
    using socks5_data_reaches_exit [OF c o demo_tunnel_opened t fs ok(1) s w ok(3,2) p] by blast
  have "bs = map pp_payload ps"
    using r(1) by (simp add: demo_session_def) (simp add: list_all2_conv_all_nth list_eq_iff_nth_eq)
  moreover have "snd (client_session demo_session 42 5 0 True True False ?rx demo_state) = st'" unfolding c by simp
  moreover have "ws_stream demo_frames Portable demo_rng 5 ?fs = Some ?rx" using s by (simp add: demo_session_def)
  moreover have "cs_world demo_state = []" "tn_data demo_tunnel = [1, 2, 3]" "tn_rport demo_tunnel = 443"
    by (simp_all add: demo_state_def demo_tunnel_def)
  ultimately show ?thesis
    using r(2-4) by (intro exI [of _ ?rx] exI [of _ ps] exI [of _ ns]) simp
qed

section \<open>Name queries\<close>

text \<open>Every datagram the local server reads is given to the daemon's socket for the DNS server, unchanged, once and in order, whether
  it can be sent or not; nothing is forwarded or billed.\<close>

lemma dns_frames:
  assumes "\<forall>t\<in>set turns. \<exists>q u n. t = (Ok q, u, n, True)"
    and "\<forall>q. \<exists>b. to_bytes (DohQuery q) = Ok b \<and> sx_control X b = Ok (DohQuery q)"
  shows "\<exists>sent. process_frames X user_id (dns_to_wss to_bytes crc conn_id turns) st = st\<lparr>cs_dns := cs_dns st @ sent\<rparr> \<and>
    map fst sent = map (\<lambda>(r, _). case r of Ok q \<Rightarrow> q | Err _ \<Rightarrow> []) turns"
  using assms(1)
proof (induction turns arbitrary: st)
  case (Cons t turns)
  then obtain q u n where t: "t = (Ok q, u, n, True)" by auto
  obtain b where b: "to_bytes (DohQuery q) = Ok b" "sx_control X b = Ok (DohQuery q)" using assms(2) by blast
  let ?e = "(q, sx_dns_sent X (cs_dns st) q)"
  obtain sent where "process_frames X user_id (dns_to_wss to_bytes crc conn_id turns) (st\<lparr>cs_dns := cs_dns st @ [?e]\<rparr>) =
      st\<lparr>cs_dns := cs_dns st @ [?e] @ sent\<rparr>" "map fst sent = map (\<lambda>(r, _). case r of Ok q \<Rightarrow> q | Err _ \<Rightarrow> []) turns"
    using Cons.IH [of "st\<lparr>cs_dns := cs_dns st @ [?e]\<rparr>"] Cons.prems by auto
  then show ?case
    by (intro exI [of _ "?e # sent"]) (simp add: t b process_frame_def new_control_def new_data_def Let_def)
qed (intro exI [of _ "[]"], simp)

section \<open>From an exit node to the application\<close>

text \<open>The packets the device returned for a connection.\<close>

definition answers_for :: "exit_ext \<Rightarrow> ExitService \<Rightarrow> u64 \<Rightarrow> u64 \<Rightarrow> bytes list \<Rightarrow> bytes list" where
  "answers_for X s handler_id conn_id packets =
     filter (\<lambda>packet. Option.bind (xe_ipv4_dst X packet) (dget (es_route_map s)) =
       Some \<lparr>re_handler_id = handler_id, re_conn_id = conn_id\<rparr>) packets"

lemma returned_answers:
  "map pp_payload (filter (\<lambda>p. pp_conn_id p = c) (returned_to X s h packets)) = answers_for X s h c packets"
proof (induction packets)
  case (Cons p ps)
  have "map pp_payload (filter (\<lambda>p. pp_conn_id p = c) (returned_to X s h [p])) = answers_for X s h c [p]"
    by (auto simp: returned_to_def answers_for_def return_packet_def split: option.split)
  with Cons show ?case by (simp add: returned_to_def answers_for_def)
qed (simp add: returned_to_def answers_for_def)

lemma unstamped_payload: "pf_payload (unstamped f) = pf_payload f" "pf_flags (unstamped f) = pf_flags f"
  by (simp_all add: unstamped_def)

lemma frames_payloads:
  assumes "map unstamped fs = map (frame_of crc [] 0) ps"
  shows "map pf_payload fs = map pp_payload ps" "\<forall>f\<in>set fs. \<not> is_control (pf_flags f)"
proof -
  have "map pf_payload (map unstamped fs) = map pp_payload ps" "map (is_control \<circ> pf_flags) (map unstamped fs) = map (\<lambda>_. False) ps"
    unfolding assms by (simp_all add: frame_of_def new_data_def default_flags_def)
  then show "map pf_payload fs = map pp_payload ps" "\<forall>f\<in>set fs. \<not> is_control (pf_flags f)"
    by (simp_all add: unstamped_payload comp_def) (metis (mono_tags, lifting) in_set_conv_nth length_map nth_map)
qed

text \<open>C2. The way back: the packets that an exit node's device returns to the virtual addresses of a connection go over
  the stream registered for the daemon that owns it, whatever chunks the network cuts it into and wherever the reader's buffer lies, through the registry, the
  channel and the masked session to the client, and the application gets the contents of exactly those that can be read at their address, in order,
  and nothing that was returned for other connections or daemons; when all payloads lie at addresses aligned to 8 bytes, it gets all of them. What
  the application gets are the IP packets as the device has them, although it had opened a TCP connection. Conditions: the exit node has a stream
  under the daemon's own id, which it has for a daemon with id 1 only, the connection's receiver is alive and its channel empty at
  the start, every write to the session succeeds, and every frame is unmasked in the minute of the clock in which it was masked.\<close>

theorem answers_reach_application:
  assumes "dget (es_handler_streams s) h = Some tx" and "ch_open (es_channels s tx)" and "ch_queue (es_channels s tx) = []"
    and "\<And>h'. dget (es_handler_streams s) h' = Some tx \<Longrightarrow> h' = h"
    and "list_all2 (\<lambda>p b. px_to_bytes (xe_packets X) p = Ok b) (returned_to X s h packets) bs"
    and "\<forall>b\<in>set bs. length b < 2 ^ 32" and "pkt_ext_ok (xe_packets X)"
    and "concat (map snd chunks) = concat (ch_queue (es_channels (foldl (tun_packet X) s packets) tx))"
    and "registry_ok r" and "rg_listening r c" and "rg_received r c = []"
    and "read_stream (xe_packets X) (dispatch_next crc) chunks [] (r, stamps) = (r', stamps')"
    and "map (snd \<circ> snd) fs = rg_received r' c" and "frame_ext_ok (sx_frames Y)"
    and "\<forall>(sent, arrives, f)\<in>set fs. is_ok (fx_to_bytes (sx_frames Y) f)" and "\<forall>e\<in>set fs. same_window e"
    and "tx_loop Y G c (map (\<lambda>(sent, arrives, f). (sent, True, f)) fs) mt = (ms, mt')" and "\<forall>m\<in>set ms. length m < 2 ^ 32"
    and "got = wss_to_tcp (map (\<lambda>f. (f, True)) (recv_n (sx_frames Y) tgt c (length fs)
      (map2 (\<lambda>(sent, arrives, f) m. (arrives, WsBinary m)) fs ms)))"
  shows "got = concat (map pp_payload (filter (\<lambda>p. pp_conn_id p = c)
      (readable_packets (xe_packets X) (returned_to X s h packets) (stream_payloads chunks [])))) \<and>
    ((\<forall>x\<in>set (stream_payloads chunks []). 8 dvd fst x) \<longrightarrow> got = concat (answers_for X s h c packets))"
proof -
  let ?read = "readable_packets (xe_packets X) (returned_to X s h packets) (stream_payloads chunks [])"
  have sent: "concat (map snd chunks) = concat (map length_prefixed bs)"
    using assms(8) tun_packets_queue [OF assms(1,2,4,5)] assms(3) by simp
  from registry_dispatch.stream_delivers [OF assms(7) _ assms(5,6) this, of "(r, stamps)" crc c] assms(9-12)
  have "map unstamped (rg_received r' c) = map (frame_of crc [] 0) (filter (\<lambda>p. pp_conn_id p = c) ?read)"
    by simp
  from frames_payloads [OF this] have payloads: "map pf_payload (rg_received r' c) = map pp_payload (filter (\<lambda>p. pp_conn_id p = c) ?read)"
    "\<forall>f\<in>set (rg_received r' c). \<not> is_control (pf_flags f)" .
  let ?rx = "map2 (\<lambda>(sent, arrives, f) m. (arrives, WsBinary m)) fs ms"
  have "ws_stream (sx_frames Y) (sx_target Y) G c fs = Some ?rx"
    using tx_loop_stream [OF assms(17,15)] by simp
  moreover have "short_events ?rx"
    using assms(18) by (auto simp: short_events_def dest: set_zip_rightD)
  ultimately have "recv_n (sx_frames Y) tgt c (length fs) ?rx = rg_received r' c"
    using recv_n_stream [OF assms(14) _ assms(16)] assms(13) by simp
  with payloads have got: "got = concat (map pp_payload (filter (\<lambda>p. pp_conn_id p = c) ?read))"
    unfolding assms(19) by (simp add: wss_to_tcp_data)
  have "?read = returned_to X s h packets" if "\<forall>x\<in>set (stream_payloads chunks []). 8 dvd fst x"
    using readable_aligned [OF assms(7) _ that] assms(5) stream_payloads_sent [OF assms(6) sent] by simp
  with got show ?thesis by (simp add: returned_answers)
qed

text \<open>An instance: a device that returns two packets of one byte for connection 1 of daemon 7.\<close>

definition demo_way :: exit_ext where
  "demo_way = demo_exit\<lparr>xe_packets := demo_pkts, xe_ipv4_dst := \<lambda>p. Some [10, 200, 0, 2]\<rparr>"

definition demo_node :: ExitService where
  "demo_node = snd (handle_forward demo_way (snd (register_stream es_new 7)) (response (\<lambda>_. 0) 1 7 []))"

lemma demo_node_maps:
  "es_handler_streams demo_node = dinsert 7 0 dempty" "es_channels demo_node 0 = \<lparr>ch_queue = [], ch_open = True\<rparr>"
  "es_route_map demo_node = dinsert [10, 200, 0, 2] \<lparr>re_handler_id = 7, re_conn_id = 1\<rparr> dempty"
  by (simp_all add: demo_node_def handle_forward_def register_stream_def es_new_def alloc_ip_eq ip_of_def response_def Let_def)

lemma demo_node_stream:
  "dget (es_handler_streams demo_node) 7 = Some 0" "ch_open (es_channels demo_node 0)"
  "dget (es_handler_streams demo_node) h' = Some 0 \<Longrightarrow> h' = 7"
  by (simp_all add: demo_node_maps split: if_splits)

lemma demo_node_returns: "returned_to demo_way demo_node 7 [[1], [1]] = [demo_packet 1 1, demo_packet 1 1]"
  by (simp add: returned_to_def demo_node_maps demo_way_def return_packet_def demo_packet_def response_def demo_exit_def)

definition demo_answer :: "u64 \<Rightarrow> ProxyFrame" where
  "demo_answer c = frame_of (\<lambda>_. 0) [] 9 (demo_packet c 1)"

definition demo_answers :: "(bytes \<times> bool) list session_ext" where
  "demo_answers = demo_session\<lparr>sx_frames :=
     \<lparr>fx_to_bytes = \<lambda>f. if f = demo_answer (pf_conn_id f) then Ok (u64_to_le (pf_conn_id f)) else Err ''other'',
      fx_from_bytes = \<lambda>b. Ok (demo_answer (u64_from_le b))\<rparr>\<rparr>"

lemma demo_answers_ok: "frame_ext_ok (sx_frames demo_answers)"
  by (auto simp: frame_ext_ok_def demo_answers_def split: if_splits)

lemma demo_answer_bytes: "fx_to_bytes (sx_frames demo_answers) (demo_answer c) = Ok (u64_to_le c)"
  by (simp add: demo_answers_def demo_answer_def frame_of_def new_data_def demo_packet_def response_def)

lemma demo_answer_send:
  "\<exists>m. send_frame (sx_frames demo_answers) tgt demo_rng k t (demo_answer c) = Some (Ok m) \<and> length m < 1000"
proof -
  obtain p m where "pad padding_default demo_rng (u64_to_le c) = Some p" "xm_apply tgt (xm_new k) t p = Some m"
    "send_frame (sx_frames demo_answers) tgt demo_rng k t (demo_answer c) = Some (Ok m)"
    using send_frame_cases [of "sx_frames demo_answers" "demo_answer c" tgt demo_rng k t] demo_answer_bytes by auto
  then show ?thesis using demo_pad [of "u64_to_le c" p] length_xm_apply [of tgt "xm_new k" t p m] by auto
qed

text \<open>The two packets arrive one by one, in a buffer four bytes before an aligned address.\<close>

definition demo_pieces :: "(nat \<times> bytes) list" where
  "demo_pieces = map (\<lambda>b. (12, length_prefixed b)) [demo_archive 1 1, demo_archive 1 1]"

lemma demo_pieces_payloads: "stream_payloads demo_pieces [] = [(16, demo_archive 1 1), (16, demo_archive 1 1)]"
proof -
  have "split_frames 12 (length_prefixed (demo_archive 1 1)) = ([(16, demo_archive 1 1)], [])"
    using split_frames_stream [of "[demo_archive 1 1]" 12] by (simp add: demo_archive_length)
  then show ?thesis by (simp add: demo_pieces_def)
qed

definition demo_return :: "ConnectionRegistry \<times> (nat \<Rightarrow> bytes \<times> u64)" where
  "demo_return = read_stream demo_pkts (dispatch_next (\<lambda>_. 0)) demo_pieces [] (demo_registry, \<lambda>n. ([], 9))"

lemma demo_return_received: "rg_received (fst demo_return) 1 = [demo_answer 1, demo_answer 1]"
proof -
  have "px_from_bytes demo_pkts 16 (demo_archive 1 1) = Ok (demo_packet 1 1)"
    using demo_pkts_ok(1) demo_pkts_bytes [of 1 1] unfolding pkt_ext_ok_def by (metis dvd_add_triv_right_iff dvd_refl numeral_Bit0)
  then have "fst demo_return = rg_dispatch (\<lambda>_. 0) [] 9 (rg_dispatch (\<lambda>_. 0) [] 9 demo_registry (demo_packet 1 1)) (demo_packet 1 1)"
    by (simp add: demo_return_def read_stream_payloads demo_pieces_payloads dispatch_next_def)
  moreover have "pp_conn_id (demo_packet 1 1) = 1"
    by (simp add: demo_packet_def response_def)
  moreover have "registry_ok (rg_dispatch (\<lambda>_. 0) [] 9 demo_registry p)" for p
    using demo_registry_ok by (simp add: registry_ok_def rg_dispatch_connections)
  ultimately show ?thesis
    by (simp add: rg_dispatch_received demo_registry_ok rg_dispatch_listening demo_registry_listens demo_answer_def)
qed

theorem answers_reach_application_witness:
  "\<exists>ms mt'. tx_loop demo_answers demo_rng 1 [(60, True, demo_answer 1), (62, True, demo_answer 1)] metrics_new = (ms, mt') \<and>
     wss_to_tcp (map (\<lambda>f. (f, True)) (recv_n (sx_frames demo_answers) Portable 1 2
       (map2 (\<lambda>(sent, arrives, f) m. (arrives, WsBinary m)) [(60 :: u64, 61, demo_answer 1), (62, 63, demo_answer 1)] ms))) = [1, 1]"
proof -
  let ?fs = "[(60, 61, demo_answer 1), (62, 63, demo_answer 1)] :: (u64 \<times> u64 \<times> ProxyFrame) list"
    and ?bs = "[demo_archive 1 1, demo_archive 1 1]"
  have target: "sx_target demo_answers = Portable" by (simp add: demo_answers_def demo_session_def)
  obtain m1 m2 where m: "send_frame (sx_frames demo_answers) Portable demo_rng 1 60 (demo_answer 1) = Some (Ok m1)" "length m1 < 1000"
    "send_frame (sx_frames demo_answers) Portable demo_rng 1 62 (demo_answer 1) = Some (Ok m2)" "length m2 < 1000"
    using demo_answer_send by metis
  obtain mt' where tx: "tx_loop demo_answers demo_rng 1 (map (\<lambda>(sent, arrives, f). (sent, True, f)) ?fs) metrics_new = ([m1, m2], mt')"
    by (simp add: target m)
  have bytes: "list_all2 (\<lambda>p b. px_to_bytes (xe_packets demo_way) p = Ok b) (returned_to demo_way demo_node 7 [[1], [1]]) ?bs"
    unfolding demo_node_returns by (simp add: demo_way_def demo_pkts_bytes)
  have queue: "ch_queue (es_channels (foldl (tun_packet demo_way) demo_node [[1], [1]]) 0) = map length_prefixed ?bs"
    using tun_packets_queue [OF demo_node_stream bytes] unfolding demo_node_maps(2) by simp
  let ?got = "wss_to_tcp (map (\<lambda>f. (f, True)) (recv_n (sx_frames demo_answers) Portable 1 (length ?fs)
       (map2 (\<lambda>(sent, arrives, f) m. (arrives, WsBinary m)) ?fs [m1, m2])))"
  have res: "?got = concat (map pp_payload (filter (\<lambda>p. pp_conn_id p = 1)
        (readable_packets (xe_packets demo_way) (returned_to demo_way demo_node 7 [[1], [1]]) (stream_payloads demo_pieces [])))) \<and>
      ((\<forall>x\<in>set (stream_payloads demo_pieces []). 8 dvd fst x) \<longrightarrow> ?got = concat (answers_for demo_way demo_node 7 1 [[1], [1]]))"
  proof (rule answers_reach_application [OF demo_node_stream(1,2) _ demo_node_stream(3) bytes])
    show "ch_queue (es_channels demo_node 0) = []" by (simp add: demo_node_maps)
    show "pkt_ext_ok (xe_packets demo_way)" "registry_ok demo_registry" "frame_ext_ok (sx_frames demo_answers)"
      by (simp_all add: demo_way_def demo_pkts_ok demo_registry_ok demo_answers_ok)
    show "concat (map snd demo_pieces) = concat (ch_queue (es_channels (foldl (tun_packet demo_way) demo_node [[1], [1]]) 0))"
      unfolding queue by (simp add: demo_pieces_def)
    show "rg_listening demo_registry 1" "rg_received demo_registry 1 = []" by (fact demo_registry_listens)+
    show "read_stream (xe_packets demo_way) (dispatch_next (\<lambda>_. 0)) demo_pieces [] (demo_registry, \<lambda>n. ([], 9)) = (fst demo_return, snd demo_return)"
      by (simp add: demo_return_def demo_way_def)
    show "map (snd \<circ> snd) ?fs = rg_received (fst demo_return) 1" by (simp add: demo_return_received)
    show "tx_loop demo_answers demo_rng 1 (map (\<lambda>(sent, arrives, f). (sent, True, f)) ?fs) metrics_new = ([m1, m2], mt')" by (rule tx)
    show "?got = ?got" by (rule refl)
  qed (use m in \<open>auto simp: demo_answer_bytes same_window_def demo_archive_length\<close>)
  have "\<forall>x\<in>set (stream_payloads demo_pieces []). 8 dvd fst x" by (simp add: demo_pieces_payloads)
  with res have "?got = concat (answers_for demo_way demo_node 7 1 [[1], [1]])" by blast
  moreover have "concat (answers_for demo_way demo_node 7 1 [[1], [1]]) = [1, 1]"
    by (simp add: answers_for_def demo_way_def demo_node_maps)
  moreover have "length ?fs = 2" by simp
  ultimately show ?thesis
    using tx by (intro exI [of _ "[m1, m2]"] exI [of _ mt'] conjI) (simp_all only: list.map prod.case)
qed

section \<open>Health of exit nodes\<close>

lemma health_route_missing: "hr_status (fst (handle_http_request X s GET ''/health'' body)) = 404"
  by (simp add: handle_http_request_def)

text \<open>C37. The daemon's health check takes every exit node out of service: an exit node answers the request
  for /health with 404, so after one round of checks no node counts as healthy and every packet is
  refused, whatever the group.\<close>

theorem health_check_disables_pool:
  assumes "\<forall>(k, g)\<in>set (xp_groups p). \<forall>c\<in>set (gp_clients g). \<forall>w. \<exists>node w'.
      hx_get H (ex_base_url c @ ''/health'') w = (Ok (hr_status (fst (handle_http_request X node GET ''/health'' []))), w')"
    and "health_check_all H p w = (p', w')"
  shows "healthy_count p' = 0 \<and> \<not> is_ok (fst (xp_forward H P p' packet group_id w''))"
proof -
  have fails: "\<forall>(k, g)\<in>set (xp_groups p). \<forall>c\<in>set (gp_clients g). health_fails H c"
  proof (safe, unfold health_fails_def, safe)
    fix k g c u status u'
    assume "(k, g) \<in> set (xp_groups p)" "c \<in> set (gp_clients g)"
      "hx_get H (ex_base_url c @ ''/health'') u = (Ok status, u')" "http_success status"
    moreover from this assms(1) obtain node u'' where
      "hx_get H (ex_base_url c @ ''/health'') u = (Ok (hr_status (fst (handle_http_request X node GET ''/health'' []))), u'')"
      by blast
    ultimately show False by (simp add: health_route_missing http_success_def)
  qed
  obtain gs where gs: "check_groups H (xp_groups p) w = (gs, w')" "p' = p\<lparr>xp_groups := gs\<rparr>"
    using assms(2) by (auto simp: health_check_all_def split: prod.splits)
  have un: "\<forall>(k, g)\<in>set gs. \<forall>c\<in>set (gp_clients g). \<not> ex_is_healthy c"
    using check_groups_fail [OF fails, of w] gs(1) by simp
  have "\<not> is_ok (fst (xp_forward H P p' packet group_id w''))"
  proof (cases "dget gs (if dget gs group_id \<noteq> None then group_id else 0)")
    case None
    then show ?thesis by (simp add: xp_forward_def gs(2) Let_def split: if_splits)
  next
    case (Some g)
    then have "\<forall>c\<in>set (gp_clients g). \<not> ex_is_healthy c"
      using un map_of_SomeD [OF Some [unfolded dget_def]] by blast
    from forward_attempts_unhealthy [OF this, where H = H and w = w''] Some show ?thesis
      by (simp add: xp_forward_def gs(2) Let_def)
  qed
  with healthy_count_zero [OF un] gs(2) show ?thesis by simp
qed

text \<open>The network of an exit node served by the model of its HTTP interface; its base url is one
  character.\<close>

definition exit_net :: "ExitService http_ext" where
  "exit_net = \<lparr>hx_post = \<lambda>url b s. (case handle_http_request demo_exit s POST (drop 1 url) b of (r, s') \<Rightarrow> (Ok (hr_status r), s')),
     hx_get = \<lambda>url s. (case handle_http_request demo_exit s GET (drop 1 url) [] of (r, s') \<Rightarrow> (Ok (hr_status r), s')),
     hx_build = \<lambda>c. Ok ()\<rparr>"

theorem health_check_disables_pool_witness:
  "healthy_count (fst (health_check_all exit_net demo_pool es_new)) = 0"
  using health_check_disables_pool [of demo_pool exit_net demo_exit es_new
      "fst (health_check_all exit_net demo_pool es_new)" "snd (health_check_all exit_net demo_pool es_new)"]
  by (simp add: exit_net_def demo_pool_def demo_client_def ex_base_url_def case_prod_beta) blast

end
